(* ===== verification/Nexucon_Prelude.thy ===== *)
theory Nexucon_Prelude
  imports Main "HOL-Library.Char_ord" "HOL-Library.List_Lexorder"
begin

text \<open>
  Shared vocabulary of the development: results that may be refusals, Python's string
  methods on the strings the services handle, decimal rendering, and tables of rows with
  Django's filtered \<^verbatim>\<open>update\<close>.

  Strings are lists of 8-bit characters, read as the code points below 256. Case mapping
  acts on ASCII letters only: the enumerations and the identifiers the services compare
  are ASCII. Instants are integers counting microseconds, as \<^verbatim>\<open>datetime\<close> does.
\<close>

named_theorems step_simps \<open>unfolding rules for the operations of a component\<close>
named_theorems table_simps \<open>facts on tables of rows and their filtered updates\<close>

section \<open>Results\<close>

text \<open>A refusal is \<open>Inl\<close>, a value is \<open>Inr\<close>; \<open>bind_r\<close> stops at the first refusal.\<close>

definition bind_r :: "'e + 'a \<Rightarrow> ('a \<Rightarrow> 'e + 'b) \<Rightarrow> 'e + 'b" where
  "bind_r m k = (case m of Inl e \<Rightarrow> Inl e | Inr x \<Rightarrow> k x)"

definition check :: "bool \<Rightarrow> 'e \<Rightarrow> 'e + unit" where
  "check ok e = (if ok then Inr () else Inl e)"

lemma bind_r_simps [simp]: "bind_r (Inl e) k = Inl e" "bind_r (Inr x) k = k x"
  by (simp_all add: bind_r_def)

lemma bind_r_Inr_iff: "bind_r m k = Inr y \<longleftrightarrow> (\<exists>x. m = Inr x \<and> k x = Inr y)"
  by (cases m) auto

lemma bind_r_Inl_iff:
  "bind_r m k = Inl e \<longleftrightarrow> m = Inl e \<or> (\<exists>x. m = Inr x \<and> k x = Inl e)"
  by (cases m) auto

lemma check_simps [simp]: "check True e = Inr ()" "check False e = Inl e"
  by (simp_all add: check_def)

lemma check_Inr_iff [simp]: "check ok e = Inr u \<longleftrightarrow> ok"
  by (simp add: check_def)

lemma check_Inl_iff [simp]: "check ok e = Inl e' \<longleftrightarrow> \<not> ok \<and> e = e'"
  by (simp add: check_def)

lemma bind_check_Inr [simp]: "bind_r (check ok e) k = Inr y \<longleftrightarrow> ok \<and> k () = Inr y"
  by (simp add: check_def)

definition is_ok :: "'e + 'a \<Rightarrow> bool" where
  "is_ok r = (case r of Inl _ \<Rightarrow> False | Inr _ \<Rightarrow> True)"

lemma is_ok_simps [simp]: "\<not> is_ok (Inl e)" "is_ok (Inr x)"
  by (simp_all add: is_ok_def)

text \<open>An operation returns its result and the state it leaves; after a failure the rest is skipped.\<close>

definition and_then :: "('e + 'a) \<times> 's \<Rightarrow> ('a \<Rightarrow> 's \<Rightarrow> ('e + 'b) \<times> 's) \<Rightarrow> ('e + 'b) \<times> 's" where
  "and_then m k = (case m of (Inl e, s) \<Rightarrow> (Inl e, s) | (Inr x, s) \<Rightarrow> k x s)"

lemma and_then_simps [simp]:
  "and_then (Inl e, s) k = (Inl e, s)" "and_then (Inr x, s) k = k x s"
  by (simp_all add: and_then_def)

lemma and_then_InrE:
  assumes "and_then m k = (Inr y, s')"
  obtains x s where "m = (Inr x, s)" "k x s = (Inr y, s')"
  using assms by (cases "fst m"; cases m) (auto simp: and_then_def)

section \<open>Python strings\<close>

definition py_space :: "char \<Rightarrow> bool" where
  "py_space c = (let n = of_char c :: nat
                 in (9 \<le> n \<and> n \<le> 13) \<or> (28 \<le> n \<and> n \<le> 32) \<or> n = 133 \<or> n = 160)"

definition py_lstrip :: "string \<Rightarrow> string" where
  "py_lstrip s = dropWhile py_space s"

definition py_strip :: "string \<Rightarrow> string" where
  "py_strip s = rev (dropWhile py_space (rev (dropWhile py_space s)))"

definition upper_char :: "char \<Rightarrow> char" where
  "upper_char c = (let n = of_char c :: nat
                   in if 97 \<le> n \<and> n \<le> 122 then char_of (n - 32) else c)"

definition lower_char :: "char \<Rightarrow> char" where
  "lower_char c = (let n = of_char c :: nat
                   in if 65 \<le> n \<and> n \<le> 90 then char_of (n + 32) else c)"

definition py_upper :: "string \<Rightarrow> string" where
  "py_upper s = map upper_char s"

definition py_lower :: "string \<Rightarrow> string" where
  "py_lower s = map lower_char s"

text \<open>\<open>x or d\<close> on a string that may be \<^verbatim>\<open>None\<close>.\<close>

definition or_empty :: "string option \<Rightarrow> string" where
  "or_empty x = (case x of None \<Rightarrow> [] | Some s \<Rightarrow> s)"

definition or_default :: "string \<Rightarrow> string \<Rightarrow> string" where
  "or_default s d = (if s = [] then d else s)"

fun join_with :: "string \<Rightarrow> string list \<Rightarrow> string" where
  "join_with sep [] = []"
| "join_with sep [s] = s"
| "join_with sep (s # t # ts) = s @ sep @ join_with sep (t # ts)"

lemma dropWhile_py_strip [simp]: "dropWhile py_space (py_strip s) = py_strip s"
proof -
  have ends: "dropWhile P xs = xs" if "xs \<noteq> [] \<Longrightarrow> \<not> P (hd xs)" for P :: "char \<Rightarrow> bool" and xs
    using that by (cases xs) auto
  show ?thesis
  proof (rule ends)
    assume ne: "py_strip s \<noteq> []"
    define t where "t = dropWhile py_space s"
    have "t \<noteq> []" using ne unfolding py_strip_def t_def [symmetric] by auto
    then have h: "\<not> py_space (hd t)" unfolding t_def by (rule hd_dropWhile)
    obtain ys where ys: "t = py_strip s @ ys"
      by (metis py_strip_def t_def rev_append rev_rev_ident takeWhile_dropWhile_id)
    then have "hd (py_strip s) = hd t" using ne by simp
    with h show "\<not> py_space (hd (py_strip s))" by simp
  qed
qed

lemma py_strip_idem [simp]: "py_strip (py_strip s) = py_strip s"
proof -
  have "dropWhile py_space (rev (py_strip s)) = rev (py_strip s)"
    by (simp add: py_strip_def)
  then show ?thesis
    using dropWhile_py_strip [of s] by (metis py_strip_def rev_rev_ident)
qed

section \<open>Decimal rendering\<close>

definition digit_char :: "nat \<Rightarrow> char" where
  "digit_char d = char_of (48 + d)"

fun show_nat :: "nat \<Rightarrow> string" where
  "show_nat n = (if n < 10 then [digit_char n]
                 else show_nat (n div 10) @ [digit_char (n mod 10)])"

declare show_nat.simps [simp del]

definition show_int :: "int \<Rightarrow> string" where
  "show_int i = (if i < 0 then CHR ''-'' # show_nat (nat (- i)) else show_nat (nat i))"

definition read_nat :: "string \<Rightarrow> nat" where
  "read_nat s = foldl (\<lambda>acc c. 10 * acc + (of_char c - 48)) 0 s"

definition is_digit :: "char \<Rightarrow> bool" where
  "is_digit c = (let n = of_char c :: nat in 48 \<le> n \<and> n \<le> 57)"

lemma of_char_digit [simp]: "d < 10 \<Longrightarrow> (of_char (digit_char d) :: nat) = 48 + d"
  by (simp add: digit_char_def)

lemma is_digit_digit_char [simp]: "d < 10 \<Longrightarrow> is_digit (digit_char d)"
  by (simp add: is_digit_def)

lemma read_show_nat [simp]: "read_nat (show_nat n) = n"
proof (induction n rule: show_nat.induct)
  case (1 n)
  show ?case
  proof (cases "n < 10")
    case True
    then show ?thesis by (simp add: show_nat.simps [of n] read_nat_def)
  next
    case False
    have "read_nat (show_nat n) = 10 * read_nat (show_nat (n div 10)) + n mod 10"
      using False by (simp add: show_nat.simps [of n] read_nat_def)
    also have "\<dots> = n" using 1 [OF False] by simp
    finally show ?thesis .
  qed
qed

lemma show_nat_inj [simp]: "show_nat m = show_nat n \<longleftrightarrow> m = n"
  by (metis read_show_nat)

lemma show_nat_digits: "c \<in> set (show_nat n) \<Longrightarrow> is_digit c"
proof (induction n rule: show_nat.induct)
  case (1 n)
  then show ?case
    by (cases "n < 10") (auto simp: show_nat.simps [of n])
qed

lemma show_nat_ne [simp]: "show_nat n \<noteq> []"
  by (subst show_nat.simps) simp

lemma show_int_ne [simp]: "show_int i \<noteq> []"
  by (simp add: show_int_def)

lemma show_int_chars: "c \<in> set (show_int i) \<Longrightarrow> is_digit c \<or> c = CHR ''-''"
  by (auto simp: show_int_def split: if_splits dest: show_nat_digits)

lemma show_int_inj [simp]: "show_int i = show_int j \<longleftrightarrow> i = j"
proof
  have minus: "CHR ''-'' # s \<noteq> show_nat n" for s n
  proof
    assume "CHR ''-'' # s = show_nat n"
    then have "is_digit (CHR ''-'')" by (metis list.set_intros(1) show_nat_digits)
    then show False by (simp add: is_digit_def)
  qed
  assume "show_int i = show_int j"
  then show "i = j"
    using minus minus [symmetric] by (auto simp: show_int_def split: if_splits)
qed simp

section \<open>Tables\<close>

text \<open>
  A table is a list of rows. \<open>update_where P f\<close> is
  \<^verbatim>\<open>objects.filter(P).update(...)\<close>: the database evaluates the filter on the current
  rows and rewrites the matching ones; \<open>rows_where P\<close> is the row count it returns.
\<close>

definition update_where :: "('a \<Rightarrow> bool) \<Rightarrow> ('a \<Rightarrow> 'a) \<Rightarrow> 'a list \<Rightarrow> 'a list" where
  "update_where P f rows = map (\<lambda>r. if P r then f r else r) rows"

definition rows_where :: "('a \<Rightarrow> bool) \<Rightarrow> 'a list \<Rightarrow> nat" where
  "rows_where P rows = length (filter P rows)"

definition first_where :: "('a \<Rightarrow> bool) \<Rightarrow> 'a list \<Rightarrow> 'a option" where
  "first_where P rows = List.find P rows"

lemma update_where_Nil [table_simps, simp]: "update_where P f [] = []"
  by (simp add: update_where_def)

lemma update_where_Cons [table_simps, simp]:
  "update_where P f (r # rs) = (if P r then f r else r) # update_where P f rs"
  by (simp add: update_where_def)

lemma update_where_append [table_simps]:
  "update_where P f (rs @ ss) = update_where P f rs @ update_where P f ss"
  by (simp add: update_where_def)

lemma length_update_where [simp]: "length (update_where P f rows) = length rows"
  by (simp add: update_where_def)

lemma map_update_where [table_simps]:
  "(\<And>r. P r \<Longrightarrow> k (f r) = k r) \<Longrightarrow> map k (update_where P f rows) = map k rows"
  by (simp add: update_where_def)

lemma set_update_where:
  "set (update_where P f rows) = f ` {r \<in> set rows. P r} \<union> {r \<in> set rows. \<not> P r}"
  by (auto simp: update_where_def)

lemma in_update_whereE:
  assumes "x \<in> set (update_where P f rows)"
  obtains r where "r \<in> set rows" "P r" "x = f r" | "x \<in> set rows" "\<not> P x"
  using assms by (auto simp: set_update_where)

lemma update_where_none: "\<forall>r \<in> set rows. \<not> P r \<Longrightarrow> update_where P f rows = rows"
  by (induction rows) auto

lemma filter_update_where_disjoint [table_simps]:
  "(\<And>r. P r \<Longrightarrow> \<not> Q r) \<Longrightarrow> (\<And>r. P r \<Longrightarrow> \<not> Q (f r)) \<Longrightarrow>
   filter Q (update_where P f rows) = filter Q rows"
  by (induction rows) auto

lemma first_where_Some:
  "first_where P rows = Some r \<Longrightarrow> r \<in> set rows \<and> P r"
  by (auto simp: first_where_def find_Some_iff)

lemma first_where_None: "first_where P rows = None \<longleftrightarrow> (\<forall>r \<in> set rows. \<not> P r)"
  by (auto simp: first_where_def find_None_iff)

lemma first_where_append:
  "first_where P (rs @ ss) = (case first_where P rs of Some r \<Rightarrow> Some r | None \<Rightarrow> first_where P ss)"
  by (induction rs) (auto simp: first_where_def)

text \<open>A key that identifies rows: two rows of the table with one key are one row.\<close>

lemma distinct_map_key:
  "distinct (map k rows) \<Longrightarrow> x \<in> set rows \<Longrightarrow> y \<in> set rows \<Longrightarrow> k x = k y \<Longrightarrow> x = y"
  by (auto simp: distinct_map inj_on_def)

lemma rows_where_key:
  "distinct (map k rows) \<Longrightarrow> r \<in> set rows \<Longrightarrow>
   rows_where (\<lambda>x. k x = k r \<and> Q x) rows = (if Q r then 1 else 0)"
proof (induction rows)
  case (Cons a rows)
  show ?case
  proof (cases "k a = k r")
    case True
    with Cons.prems have "a = r" by (auto dest: distinct_map_key)
    moreover have "filter (\<lambda>x. k x = k a \<and> Q x) rows = []"
      using Cons.prems(1) by (auto simp: filter_empty_conv intro: rev_image_eqI)
    ultimately show ?thesis using True by (simp add: rows_where_def)
  next
    case False
    with Cons show ?thesis by (auto simp: rows_where_def)
  qed
qed simp

end
