(* ===== verification/Sha256.thy ===== *)
theory Sha256
  imports Main "HOL-Library.Word"
begin

text \<open>
  The digest behind every attestation of the platform. The source calls
  \<^verbatim>\<open>hashlib.sha256(payload.encode('utf-8')).hexdigest()\<close>
  (\<^verbatim>\<open>common/hashing.py\<close>, \<^verbatim>\<open>sha256_hex\<close> and \<^verbatim>\<open>sha256_of_bytes\<close>); this
  theory defines that function after FIPS 180-4 on 32-bit words, so that the digest is
  a definition and not an assumption. The other theories take the digest as an argument
  \<open>H\<close> and state what they need of it; \<open>Canonical\<close> interprets those
  laws with \<open>sha256_hex\<close>.
\<close>

unbundle bit_operations_syntax

type_synonym u32 = "32 word"

definition rotr :: "nat \<Rightarrow> u32 \<Rightarrow> u32" where
  "rotr n x = (drop_bit n x) OR (push_bit (32 - n) x)"

definition sha_ch :: "u32 \<Rightarrow> u32 \<Rightarrow> u32 \<Rightarrow> u32" where
  "sha_ch x y z = (x AND y) XOR ((NOT x) AND z)"

definition sha_maj :: "u32 \<Rightarrow> u32 \<Rightarrow> u32 \<Rightarrow> u32" where
  "sha_maj x y z = (x AND y) XOR (x AND z) XOR (y AND z)"

definition big_sigma0 :: "u32 \<Rightarrow> u32" where
  "big_sigma0 x = rotr 2 x XOR rotr 13 x XOR rotr 22 x"
definition big_sigma1 :: "u32 \<Rightarrow> u32" where
  "big_sigma1 x = rotr 6 x XOR rotr 11 x XOR rotr 25 x"
definition small_sigma0 :: "u32 \<Rightarrow> u32" where
  "small_sigma0 x = rotr 7 x XOR rotr 18 x XOR drop_bit 3 x"
definition small_sigma1 :: "u32 \<Rightarrow> u32" where
  "small_sigma1 x = rotr 17 x XOR rotr 19 x XOR drop_bit 10 x"

text \<open>
  The standard's constants are the first 32 bits of the fractional parts of roots of the
  first primes: cube roots for the round constants, square roots for the initial state.
  \<open>root_below k n b r\<close> finds the integer part of the \<open>k\<close>-th root of \<open>n\<close> by fixing
  its \<open>b\<close> low bits from the top.
\<close>

fun root_below :: "nat \<Rightarrow> nat \<Rightarrow> nat \<Rightarrow> nat \<Rightarrow> nat" where
  "root_below k n 0 r = r"
| "root_below k n (Suc b) r =
     (let r' = r + 2 ^ b in root_below k n b (if r' ^ k \<le> n then r' else r))"

definition root_fraction :: "nat \<Rightarrow> nat \<Rightarrow> u32" where
  "root_fraction k p = of_nat (root_below k (p * 2 ^ (32 * k)) 36 0)"

definition is_prime :: "nat \<Rightarrow> bool" where
  "is_prime p \<longleftrightarrow> 2 \<le> p \<and> list_all (\<lambda>d. p mod d \<noteq> 0) [2..<p]"

definition sha_k :: "u32 list" where
  "sha_k = map (root_fraction 3) (filter is_prime [2..<312])"

definition sha_h0 :: "u32 list" where
  "sha_h0 = map (root_fraction 2) [2, 3, 5, 7, 11, 13, 17, 19]"

fun sha_extend :: "nat \<Rightarrow> u32 list \<Rightarrow> u32 list" where
  "sha_extend 0 ws = ws"
| "sha_extend (Suc n) ws = sha_extend n
     (ws @ [small_sigma1 (ws ! (length ws - 2)) + ws ! (length ws - 7)
            + small_sigma0 (ws ! (length ws - 15)) + ws ! (length ws - 16)])"

fun sha_rounds :: "(u32 \<times> u32) list \<Rightarrow> u32 list \<Rightarrow> u32 list" where
  "sha_rounds ((k, w) # kws) [a, b, c, d, e, f, g, h] =
     (let t1 = h + big_sigma1 e + sha_ch e f g + k + w;
          t2 = big_sigma0 a + sha_maj a b c
      in sha_rounds kws [t1 + t2, a, b, c, d + t1, e, f, g])"
| "sha_rounds _ st = st"

definition sha_block :: "u32 list \<Rightarrow> u32 list \<Rightarrow> u32 list" where
  "sha_block st ws = map2 (+) st (sha_rounds (zip sha_k (sha_extend 48 ws)) st)"

text \<open>Padding: a one bit, zeros, and the bit length as a 64-bit big-endian integer.\<close>

definition be_bytes :: "nat \<Rightarrow> nat \<Rightarrow> nat list" where
  "be_bytes k n = map (\<lambda>i. (n div 256 ^ (k - 1 - i)) mod 256) [0..<k]"

definition sha_pad :: "nat list \<Rightarrow> nat list" where
  "sha_pad bs = bs @ 128 # replicate ((119 - length bs mod 64) mod 64) 0
                 @ be_bytes 8 (8 * length bs)"

definition be_word :: "nat list \<Rightarrow> u32" where
  "be_word bs = foldl (\<lambda>w b. 256 * w + of_nat b) 0 bs"

fun chunks :: "nat \<Rightarrow> 'a list \<Rightarrow> 'a list list" where
  "chunks n [] = []"
| "chunks n (x # xs) = (x # take (n - 1) xs) # chunks n (drop (n - 1) xs)"

definition sha_digest :: "nat list \<Rightarrow> u32 list" where
  "sha_digest bs = foldl (\<lambda>st blk. sha_block st (map be_word (chunks 4 blk))) sha_h0
                     (chunks 64 (sha_pad bs))"

definition hex_digits :: string where
  "hex_digits = ''0123456789abcdef''"

definition hex_word :: "u32 \<Rightarrow> string" where
  "hex_word w = map (\<lambda>i. hex_digits ! (unat w div 16 ^ (7 - i) mod 16)) [0..<8]"

text \<open>
  Text is encoded as UTF-8. The model's characters are the code points below 256, so a
  code point from 128 on takes two bytes.
\<close>

definition utf8_char :: "char \<Rightarrow> nat list" where
  "utf8_char c = (let n = of_char c :: nat
                  in if n < 128 then [n] else [192 + n div 64, 128 + n mod 64])"

definition sha256_of_bytes :: "nat list list \<Rightarrow> string" where
  "sha256_of_bytes chunk_iter = concat (map hex_word (sha_digest (concat chunk_iter)))"

definition sha256_hex :: "string \<Rightarrow> string" where
  "sha256_hex payload = sha256_of_bytes [concat (map utf8_char payload)]"

lemma length_sha_rounds [simp]:
  "length st = 8 \<Longrightarrow> length (sha_rounds kws st) = 8"
  by (induction kws st rule: sha_rounds.induct) (auto simp: Let_def)

lemma length_sha_block: "length st = 8 \<Longrightarrow> length (sha_block st ws) = 8"
  by (simp add: sha_block_def)

lemma length_foldl_sha_block:
  "length st = 8 \<Longrightarrow> length (foldl (\<lambda>st blk. sha_block st (f blk)) st blks) = 8"
  by (induction blks arbitrary: st) (auto simp: length_sha_block)

lemma length_sha_digest [simp]: "length (sha_digest bs) = 8"
  by (simp add: sha_digest_def sha_h0_def length_foldl_sha_block)

lemma length_hex_word [simp]: "length (hex_word w) = 8"
  by (simp add: hex_word_def)

lemma set_hex_word: "set (hex_word w) \<subseteq> set hex_digits"
proof
  fix c
  assume "c \<in> set (hex_word w)"
  then obtain i where "c = hex_digits ! (unat w div 16 ^ (7 - i) mod 16)"
    by (auto simp: hex_word_def)
  moreover have "unat w div 16 ^ (7 - i) mod 16 < length hex_digits"
    by (simp add: hex_digits_def)
  ultimately show "c \<in> set hex_digits"
    by (metis nth_mem)
qed

lemma length_sha256_of_bytes [simp]: "length (sha256_of_bytes cs) = 64"
proof -
  have "length (concat (map hex_word ws)) = 8 * length ws" for ws
    by (induction ws) auto
  then show ?thesis by (simp add: sha256_of_bytes_def)
qed

lemma set_sha256_of_bytes: "set (sha256_of_bytes cs) \<subseteq> set hex_digits"
  using set_hex_word by (auto simp: sha256_of_bytes_def)

lemma length_sha256_hex [simp]: "length (sha256_hex s) = 64"
  by (simp add: sha256_hex_def)

lemma set_sha256_hex: "set (sha256_hex s) \<subseteq> set hex_digits"
  by (simp add: sha256_hex_def set_sha256_of_bytes)

text \<open>The padded message is a whole number of 64-byte blocks.\<close>

lemma length_sha_pad: "length (sha_pad bs) mod 64 = 0"
proof -
  have "length (sha_pad bs) = length bs + 9 + (119 - length bs mod 64) mod 64"
    by (simp add: sha_pad_def be_bytes_def)
  moreover have "(n + 9 + (119 - n mod 64) mod 64) mod 64 = 0" for n :: nat
  proof -
    have r: "n mod 64 < 64" by simp
    have "(119 - n mod 64) mod 64 = (if n mod 64 \<le> 55 then 55 - n mod 64 else 119 - n mod 64)"
    proof (cases "n mod 64 \<le> 55")
      case True
      then have "119 - n mod 64 = (55 - n mod 64) + 64" by arith
      then have "(119 - n mod 64) mod 64 = (55 - n mod 64) mod 64"
        by (simp only: mod_add_self2)
      with True show ?thesis by simp
    next
      case False
      with r show ?thesis by simp
    qed
    then have "n mod 64 + 9 + (119 - n mod 64) mod 64 = (if n mod 64 \<le> 55 then 64 else 128)"
      using r by auto
    then have "(n mod 64 + (9 + (119 - n mod 64) mod 64)) mod 64 = 0"
      by (simp add: add.assoc split: if_splits)
    then show ?thesis by (simp add: add.assoc mod_add_left_eq)
  qed
  ultimately show ?thesis by simp
qed

end
