(* ===== verification/Canonical.thy ===== *)
theory Canonical
  imports Nexucon_Prelude Sha256 "HOL-Library.Multiset"
begin

text \<open>
  Canonical serialisation and hashing: \<^verbatim>\<open>common/hashing.py\<close>. A JSON document is a tree;
  \<open>canonical_json\<close> renders it as \<^verbatim>\<open>json.dumps(obj, sort_keys=True,
  separators=(',', ':'))\<close> does, escapes included, and \<open>chain_hash\<close> is one link of an
  append-only chain. The main result is that the rendering is faithful: two well-formed
  documents render alike exactly when they have the same content up to the order of keys.

  A float is represented by its \<^verbatim>\<open>repr\<close>, which names it uniquely. Values that
  \<^verbatim>\<open>default=str\<close> renders (dates, UUIDs, decimals) are the strings they render to.
\<close>

section \<open>JSON documents\<close>

datatype json =
    JNull
  | JBool bool
  | JInt int
  | JFloat string
  | JStr string
  | JArr "json list"
  | JObj "(string \<times> json) list"

definition hex4 :: "nat \<Rightarrow> string" where
  "hex4 n = [CHR ''0'', CHR ''0'', hex_digits ! (n div 16 mod 16), hex_digits ! (n mod 16)]"

text \<open>The escapes of \<^verbatim>\<open>json.encoder\<close> with \<^verbatim>\<open>ensure_ascii\<close>.\<close>

definition short_escapes :: "(char \<times> char) list" where
  "short_escapes = [(CHR 0x22, CHR 0x22), (CHR 0x5C, CHR 0x5C), (CHR 0x0A, CHR ''n''),
     (CHR 0x0D, CHR ''r''), (CHR 0x09, CHR ''t''), (CHR 0x0C, CHR ''f''), (CHR 0x08, CHR ''b'')]"

definition escape_char :: "char \<Rightarrow> string" where
  "escape_char c =
     (case map_of short_escapes c of
        Some e \<Rightarrow> [CHR 0x5C, e]
      | None \<Rightarrow> if 32 \<le> (of_char c :: nat) \<and> (of_char c :: nat) \<le> 126 then [c]
                else CHR 0x5C # CHR ''u'' # hex4 (of_char c))"

definition json_string :: "string \<Rightarrow> string" where
  "json_string s = CHR 0x22 # concat (map escape_char s) @ [CHR 0x22]"

lemma sort_key_size_mem:
  "(k, v) \<in> set (sort_key fst kvs) \<Longrightarrow> size v < Suc (size_list (size_prod (\<lambda>_. 0) size) kvs)"
  by (induction kvs) (auto simp: set_insort_key)

function canonical_json :: "json \<Rightarrow> string" where
  "canonical_json JNull = ''null''"
| "canonical_json (JBool b) = (if b then ''true'' else ''false'')"
| "canonical_json (JInt i) = show_int i"
| "canonical_json (JFloat r) = r"
| "canonical_json (JStr s) = json_string s"
| "canonical_json (JArr xs) = ''['' @ join_with '','' (map canonical_json xs) @ '']''"
| "canonical_json (JObj kvs) =
     ''{'' @ join_with '','' (map (\<lambda>(k, v). json_string k @ '':'' @ canonical_json v)
                              (sort_key fst kvs)) @ ''}''"
  by pat_completeness auto
termination
proof (relation "measure size", goal_cases)
  case 1
  then show ?case by simp
next
  case (2 xs x)
  then show ?case by (induction xs) auto
next
  case (3 kvs p k v)
  then show ?case
    using sort_key_size_mem [of k v kvs] by simp
qed

section \<open>Chain links\<close>

text \<open>
  \<^verbatim>\<open>chain_hash\<close>: the digest of the previous link, the sequence number and the canonical
  payload, separated by colons. \<open>H\<close> is \<open>sha256_hex\<close>.
\<close>

definition chain_input :: "string \<Rightarrow> int \<Rightarrow> json \<Rightarrow> string" where
  "chain_input previous_hash sequence payload =
     previous_hash @ '':'' @ show_int sequence @ '':'' @ canonical_json payload"

definition chain_hash :: "(string \<Rightarrow> string) \<Rightarrow> string \<Rightarrow> int \<Rightarrow> json \<Rightarrow> string" where
  "chain_hash H previous_hash sequence payload = H (chain_input previous_hash sequence payload)"

section \<open>Content up to key order\<close>

text \<open>
  \<open>json_norm\<close> sorts the members of every object by key: two documents have the same
  content when their normal forms agree. A document is well formed when the keys of each
  object are distinct (they come from a \<^verbatim>\<open>dict\<close>) and its floats are spelled as
  \<^verbatim>\<open>repr\<close> spells them.
\<close>

fun json_norm :: "json \<Rightarrow> json" where
  "json_norm (JArr xs) = JArr (map json_norm xs)"
| "json_norm (JObj kvs) = JObj (sort_key fst (map (\<lambda>(k, v). (k, json_norm v)) kvs))"
| "json_norm j = j"

definition delim :: "char \<Rightarrow> bool" where
  "delim c \<longleftrightarrow> c = CHR '','' \<or> c = CHR '']'' \<or> c = CHR ''}''"

definition float_repr :: "string \<Rightarrow> bool" where
  "float_repr r \<longleftrightarrow> r \<noteq> [] \<and> list_all (\<lambda>c. \<not> delim c) r
     \<and> list_ex (\<lambda>c. \<not> is_digit c \<and> c \<noteq> CHR ''-'') r
     \<and> hd r \<notin> set ''[{ntf'' \<and> hd r \<noteq> CHR 0x22"

fun wf_json :: "json \<Rightarrow> bool" where
  "wf_json (JFloat r) = float_repr r"
| "wf_json (JArr xs) = list_all wf_json xs"
| "wf_json (JObj kvs) = (distinct (map fst kvs) \<and> list_all (\<lambda>(k, v). wf_json v) kvs)"
| "wf_json _ = True"

section \<open>The rendering is uniquely readable\<close>

lemma hex_digits_nth_inj:
  "i < 16 \<Longrightarrow> j < 16 \<Longrightarrow> hex_digits ! i = hex_digits ! j \<longleftrightarrow> i = j"
  by (rule nth_eq_iff_index_eq) (simp_all add: hex_digits_def)

lemma hex4_inj: "m < 256 \<Longrightarrow> n < 256 \<Longrightarrow> hex4 m = hex4 n \<Longrightarrow> m = n"
proof -
  assume "m < 256" "n < 256" "hex4 m = hex4 n"
  then have "m div 16 mod 16 = n div 16 mod 16" "m mod 16 = n mod 16"
    by (auto simp: hex4_def hex_digits_nth_inj)
  moreover have "m div 16 mod 16 = m div 16" "n div 16 mod 16 = n div 16"
    using \<open>m < 256\<close> \<open>n < 256\<close> by auto
  ultimately show "m = n" by (metis div_mult_mod_eq)
qed

lemma of_char_less_256 [simp]: "(of_char c :: nat) < 256"
  by (metis of_char_mod_256 mod_less_divisor zero_less_numeral)

text \<open>Every escape is either the character itself or starts with a backslash.\<close>

lemma escape_char_cases:
  obtains (plain) "escape_char c = [c]" "c \<noteq> CHR 0x22" "c \<noteq> CHR 0x5C"
  | (short) e where "escape_char c = [CHR 0x5C, e]" "(c, e) \<in> set short_escapes"
  | (long) "escape_char c = CHR 0x5C # CHR ''u'' # hex4 (of_char c)"
proof (cases "map_of short_escapes c")
  case None
  then have "c \<noteq> CHR 0x22" "c \<noteq> CHR 0x5C"
    by (auto simp: map_of_eq_None_iff short_escapes_def)
  with None show ?thesis
    by (cases "32 \<le> (of_char c :: nat) \<and> (of_char c :: nat) \<le> 126")
      (auto simp: escape_char_def intro: plain long)
next
  case (Some e)
  then show ?thesis by (auto simp: escape_char_def intro: short dest: map_of_SomeD)
qed

lemma short_escapes_inj:
  "(c, e) \<in> set short_escapes \<Longrightarrow> (d, e) \<in> set short_escapes \<Longrightarrow> c = d"
  by (auto simp: short_escapes_def)

lemma short_escapes_not_u: "(c, CHR ''u'') \<notin> set short_escapes"
  by (simp add: short_escapes_def)

lemma escape_char_prefix:
  assumes "escape_char c @ s = escape_char d @ t"
  shows "c = d \<and> s = t"
proof -
  have len: "length (hex4 n) = 4" for n by (simp add: hex4_def)
  show ?thesis
    using assms
    by (cases c rule: escape_char_cases; cases d rule: escape_char_cases)
      (auto simp: len short_escapes_not_u append_eq_append_conv dest: short_escapes_inj
        dest!: hex4_inj [rotated 2])
qed

lemma escape_char_quote: "CHR 0x22 # s \<noteq> escape_char d @ t"
  by (cases d rule: escape_char_cases) auto

lemma json_string_prefix:
  assumes "json_string a @ s = json_string b @ t"
  shows "a = b \<and> s = t"
proof -
  have "concat (map escape_char a) @ CHR 0x22 # s = concat (map escape_char b) @ CHR 0x22 # t
      \<Longrightarrow> a = b \<and> s = t"
  proof (induction a arbitrary: b)
    case Nil
    show ?case
    proof (cases b)
      case (Cons d b')
      with Nil.prems escape_char_quote [of s d] show ?thesis by simp
    qed (use Nil.prems in simp)
  next
    case (Cons c a)
    show ?case
    proof (cases b)
      case Nil
      with Cons.prems escape_char_quote [of t c] show ?thesis by (auto dest: sym)
    next
      case (Cons d b')
      with Cons.prems have "c = d \<and> concat (map escape_char a) @ CHR 0x22 # s
          = concat (map escape_char b') @ CHR 0x22 # t"
        by (auto dest!: escape_char_prefix)
      with Cons.IH Cons show ?thesis by auto
    qed
  qed
  with assms show ?thesis by (simp add: json_string_def)
qed


text \<open>Literals and numbers are tokens: they hold no delimiter, and one ends them.\<close>

definition ends_token :: "string \<Rightarrow> bool" where
  "ends_token s \<longleftrightarrow> s = [] \<or> delim (hd s)"

lemma ends_token_simps [simp]:
  "ends_token []" "ends_token (c # s) \<longleftrightarrow> delim c"
  by (simp_all add: ends_token_def)

definition is_token :: "string \<Rightarrow> bool" where
  "is_token w \<longleftrightarrow> w \<noteq> [] \<and> list_all (\<lambda>c. \<not> delim c) w
     \<and> hd w \<notin> set ''[{'' \<and> hd w \<noteq> CHR 0x22"

lemma token_prefix:
  assumes "list_all (\<lambda>c. \<not> delim c) u" "list_all (\<lambda>c. \<not> delim c) w"
    "ends_token s" "ends_token t" "u @ s = w @ t"
  shows "u = w \<and> s = t"
proof -
  have tw: "takeWhile (\<lambda>c. \<not> delim c) (v @ r) = v"
    if "list_all (\<lambda>c. \<not> delim c) v" "ends_token r" for v r
    using that by (cases r) (auto simp: list_all_iff takeWhile_append)
  have "u = w" using tw [OF assms(1,3)] tw [OF assms(2,4)] assms(5) by simp
  with assms(5) show ?thesis by simp
qed

fun is_scalar :: "json \<Rightarrow> bool" where
  "is_scalar (JStr _) = False"
| "is_scalar (JArr _) = False"
| "is_scalar (JObj _) = False"
| "is_scalar _ = True"

lemma digit_not_delim: "is_digit c \<Longrightarrow> \<not> delim c"
  by (auto simp: is_digit_def delim_def)

lemma show_int_no_delim: "list_all (\<lambda>c. \<not> delim c) (show_int i)"
  by (auto simp: list_all_iff dest!: show_int_chars digit_not_delim) (simp add: delim_def)

lemma show_int_hd: "is_digit (hd (show_int i)) \<or> hd (show_int i) = CHR ''-''"
  using show_int_chars [of "hd (show_int i)" i] by simp

lemma show_int_token: "is_token (show_int i)"
proof -
  have "hd (show_int i) \<notin> set ''[{'' \<and> hd (show_int i) \<noteq> CHR 0x22"
    using show_int_hd [of i] by (auto simp: is_digit_def)
  then show ?thesis by (simp add: is_token_def show_int_no_delim)
qed

lemma float_token: "float_repr r \<Longrightarrow> is_token r"
  by (simp add: float_repr_def is_token_def)

lemma literal_token: "is_token ''null''" "is_token ''true''" "is_token ''false''"
  by (simp_all add: is_token_def delim_def)

lemma scalar_token: "is_scalar j \<Longrightarrow> wf_json j \<Longrightarrow> is_token (canonical_json j)"
  by (cases j) (auto simp: show_int_token float_token literal_token)

lemma hd_show_int_neq:
  "\<not> is_digit c \<Longrightarrow> c \<noteq> CHR ''-'' \<Longrightarrow> c # w \<noteq> show_int i"
  by (metis list.sel(1) show_int_hd)

lemma float_not_int: "float_repr r \<Longrightarrow> r \<noteq> show_int i"
  by (auto simp: float_repr_def list_ex_iff dest: show_int_chars)

lemma float_not_word: "\<not> float_repr (CHR ''n'' # w)" "\<not> float_repr (CHR ''t'' # w)"
  "\<not> float_repr (CHR ''f'' # w)"
  by (simp_all add: float_repr_def)

lemma scalar_inj:
  assumes "is_scalar a" "is_scalar b" "wf_json a" "wf_json b"
    and "canonical_json a = canonical_json b"
  shows "a = b"
proof -
  have lits: "CHR ''n'' # w \<noteq> show_int i" "CHR ''t'' # w \<noteq> show_int i"
    "CHR ''f'' # w \<noteq> show_int i" for w i
    by (rule hd_show_int_neq; simp add: is_digit_def)+
  show ?thesis
    using assms lits lits [symmetric] float_not_int float_not_int [THEN not_sym] float_not_word
    by (cases a; cases b) (auto split: if_splits)
qed

lemma hd_token_neq:
  "is_token w \<Longrightarrow> w @ s \<noteq> CHR ''['' # t \<and> w @ s \<noteq> CHR ''{'' # t \<and> w @ s \<noteq> CHR 0x22 # t"
  by (cases w) (auto simp: is_token_def)

lemma canonical_json_ne [simp]: "wf_json j \<Longrightarrow> canonical_json j \<noteq> []"
  by (cases j) (auto simp: json_string_def float_repr_def)

lemma canonical_json_hd:
  "wf_json j \<Longrightarrow> \<not> delim (hd (canonical_json j))"
proof (cases "is_scalar j")
  case True
  moreover assume "wf_json j"
  ultimately show ?thesis
    using scalar_token [of j] by (cases "canonical_json j") (auto simp: is_token_def)
next
  case False
  then show ?thesis by (cases j) (auto simp: json_string_def delim_def)
qed

text \<open>
  \<open>readable f P\<close>: the items that satisfy \<open>P\<close> are rendered by \<open>f\<close> so that
  the item and what follows it can be told apart, up to \<open>n\<close>.
\<close>

definition readable :: "('a \<Rightarrow> string) \<Rightarrow> ('a \<Rightarrow> 'b) \<Rightarrow> ('a \<Rightarrow> bool) \<Rightarrow> 'a \<Rightarrow> bool" where
  "readable f n P x \<longleftrightarrow> (\<forall>y s t. P y \<longrightarrow> ends_token s \<longrightarrow> ends_token t \<longrightarrow>
     f x @ s = f y @ t \<longrightarrow> n x = n y \<and> s = t)"

lemma readableD:
  "readable f n P x \<Longrightarrow> P y \<Longrightarrow> ends_token s \<Longrightarrow> ends_token t \<Longrightarrow> f x @ s = f y @ t
   \<Longrightarrow> n x = n y \<and> s = t"
  by (auto simp: readable_def)

lemma join_with_Cons: "join_with sep (x # xs) = x @ concat (map (\<lambda>y. sep @ y) xs)"
  by (induction xs arbitrary: x) auto

text \<open>A closed list of items, read item by item.\<close>

lemma items_readable:
  assumes "list_all (readable f n P) xs" "list_all P ys" "delim e" "e \<noteq> CHR '',''"
    and "concat (map (\<lambda>y. '','' @ y) (map f xs)) @ e # s
       = concat (map (\<lambda>y. '','' @ y) (map f ys)) @ e # t"
  shows "map n xs = map n ys \<and> s = t"
  using assms
proof (induction xs arbitrary: ys)
  case Nil
  then show ?case by (cases ys) auto
next
  case (Cons x xs)
  note prems = Cons.prems and IH = Cons.IH
  show ?case
  proof (cases ys)
    case Nil
    with prems show ?thesis by auto
  next
    case (Cons y ys')
    let ?r = "\<lambda>zs u. concat (map (\<lambda>y. '','' @ y) (map f zs)) @ e # u"
    have ends: "ends_token (?r zs u)" for zs u
      using prems(3) by (cases zs) (auto simp: delim_def)
    from prems Cons have "f x @ ?r xs s = f y @ ?r ys' t" by simp
    with prems(1,2) Cons ends have "n x = n y \<and> ?r xs s = ?r ys' t"
      by (intro readableD [of f n P]) auto
    with IH [of ys'] prems Cons show ?thesis by simp
  qed
qed

lemma join_readable:
  assumes "list_all (readable f n P) xs" "list_all P ys" "delim e" "e \<noteq> CHR '',''"
    and "\<forall>x \<in> set xs \<union> set ys. f x \<noteq> [] \<and> \<not> delim (hd (f x))"
    and "join_with '','' (map f xs) @ e # s = join_with '','' (map f ys) @ e # t"
  shows "map n xs = map n ys \<and> s = t"
proof (cases xs)
  case Nil
  show ?thesis
  proof (cases ys)
    case (Cons y ys')
    with Nil assms show ?thesis by (cases "f y") (auto simp: join_with_Cons)
  qed (use Nil assms in simp)
next
  case x: (Cons x xs')
  show ?thesis
  proof (cases ys)
    case Nil
    with assms x show ?thesis by (cases "f x") (auto simp: join_with_Cons)
  next
    case y: (Cons y ys')
    with assms x show ?thesis
      using items_readable [of f n P xs ys e s t] by (simp add: join_with_Cons)
  qed
qed


lemma sort_key_fst_map:
  "sort_key fst (map (\<lambda>(k, v). (k, g v)) kvs) = map (\<lambda>(k, v). (k, g v)) (sort_key fst kvs)"
proof -
  have ins: "insort_key fst (k, g v) (map (\<lambda>(k, v). (k, g v)) xs)
      = map (\<lambda>(k, v). (k, g v)) (insort_key fst (k, v) xs)" for k v xs
    by (induction xs) auto
  show ?thesis by (induction kvs) (auto simp: ins)
qed

definition render_item :: "string \<times> json \<Rightarrow> string" where
  "render_item = (\<lambda>(k, v). json_string k @ '':'' @ canonical_json v)"

lemma canonical_json_JObj:
  "canonical_json (JObj kvs) = ''{'' @ join_with '','' (map render_item (sort_key fst kvs)) @ ''}''"
  by (simp add: render_item_def)

lemma json_norm_JObj:
  "json_norm (JObj kvs) = JObj (map (\<lambda>(k, v). (k, json_norm v)) (sort_key fst kvs))"
  by (simp add: sort_key_fst_map)

declare canonical_json.simps(7) [simp del] json_norm.simps(2) [simp del]

lemma render_item_readable:
  assumes "readable canonical_json json_norm wf_json v"
  shows "readable render_item (\<lambda>(k, v). (k, json_norm v)) (\<lambda>(k, v). wf_json v) (k, v)"
  unfolding readable_def
proof (intro allI impI)
  fix p s t
  assume prems: "(case p of (k, v) \<Rightarrow> wf_json v)" "ends_token s" "ends_token t"
    "render_item (k, v) @ s = render_item p @ t"
  obtain k' v' where p: "p = (k', v')" by (cases p)
  with prems have "k = k' \<and> canonical_json v @ s = canonical_json v' @ t"
    by (auto simp: render_item_def dest!: json_string_prefix)
  with prems p show "(case (k, v) of (k, v) \<Rightarrow> (k, json_norm v)) = (case p of (k, v) \<Rightarrow> (k, json_norm v)) \<and> s = t"
    using readableD [OF assms, of v' s t] by simp
qed

lemma render_item_hd: "render_item p \<noteq> [] \<and> \<not> delim (hd (render_item p))"
  by (cases p) (simp add: render_item_def json_string_def delim_def)

lemma wf_items: "wf_json (JObj kvs) \<Longrightarrow> list_all (\<lambda>(k, v). wf_json v) (sort_key fst kvs)"
  by (simp add: list_all_iff)

lemma scalar_readable:
  assumes "is_scalar a" "wf_json a"
  shows "readable canonical_json json_norm wf_json a"
  unfolding readable_def
proof (intro allI impI)
  fix b s t
  assume prems: "wf_json b" "ends_token s" "ends_token t"
    "canonical_json a @ s = canonical_json b @ t"
  have tok: "is_token (canonical_json a)" by (rule scalar_token [OF assms])
  show "json_norm a = json_norm b \<and> s = t"
  proof (cases "is_scalar b")
    case True
    then have "is_token (canonical_json b)" using prems(1) by (rule scalar_token)
    with tok prems have "canonical_json a = canonical_json b \<and> s = t"
      by (intro token_prefix) (simp_all add: is_token_def)
    with scalar_inj assms True prems(1) show ?thesis by blast
  next
    case False
    with prems(4) hd_token_neq [OF tok, of s] show ?thesis
      by (cases b) (auto simp: json_string_def canonical_json_JObj)
  qed
qed

lemma nonscalar_not_scalar:
  assumes "is_scalar b" "wf_json b" "\<not> is_scalar a"
  shows "canonical_json a @ s \<noteq> canonical_json b @ t"
proof
  assume eq: "canonical_json a @ s = canonical_json b @ t"
  from hd_token_neq [OF scalar_token [OF assms(1,2)], of t] eq [symmetric] assms(3) show False
    by (cases a) (auto simp: json_string_def canonical_json_JObj)
qed

lemma canonical_readable:
  "wf_json a \<Longrightarrow> readable canonical_json json_norm wf_json a"
proof (induction a rule: canonical_json.induct)
  case (5 x)
  show ?case
    unfolding readable_def
  proof (intro allI impI)
    fix b s t
    assume prems: "wf_json b" "canonical_json (JStr x) @ s = canonical_json b @ t"
    with nonscalar_not_scalar [of b "JStr x" s t] show "json_norm (JStr x) = json_norm b \<and> s = t"
      by (cases b) (auto simp: canonical_json_JObj dest!: json_string_prefix, auto simp: json_string_def)
  qed
next
  case (6 xs)
  then have rd: "list_all (readable canonical_json json_norm wf_json) xs"
    by (simp add: list_all_iff)
  show ?case
    unfolding readable_def
  proof (intro allI impI)
    fix b s t
    assume prems: "wf_json b" "canonical_json (JArr xs) @ s = canonical_json b @ t"
    with nonscalar_not_scalar [of b "JArr xs" s t] obtain ys where b: "b = JArr ys"
      by (cases b) (auto simp: canonical_json_JObj json_string_def)
    with prems 6 have "join_with '','' (map canonical_json xs) @ CHR '']'' # s
        = join_with '','' (map canonical_json ys) @ CHR '']'' # t"
      and "\<forall>x \<in> set xs \<union> set ys. wf_json x" by (auto simp: list_all_iff)
    with rd b prems(1) have "map json_norm xs = map json_norm ys \<and> s = t"
      by (intro join_readable [of canonical_json json_norm wf_json xs ys "CHR '']''"])
        (simp_all add: canonical_json_hd delim_def [of "CHR '']''"])
    with b show "json_norm (JArr xs) = json_norm b \<and> s = t" by simp
  qed
next
  case (7 kvs)
  have rd: "list_all (readable render_item (\<lambda>(k, v). (k, json_norm v)) (\<lambda>(k, v). wf_json v))
      (sort_key fst kvs)"
    using 7 by (fastforce simp: list_all_iff intro: render_item_readable)
  show ?case
    unfolding readable_def
  proof (intro allI impI)
    fix b s t
    assume prems: "wf_json b" "canonical_json (JObj kvs) @ s = canonical_json b @ t"
    with nonscalar_not_scalar [of b "JObj kvs" s t] obtain kws where b: "b = JObj kws"
      by (cases b) (auto simp: canonical_json_JObj json_string_def)
    with prems have "join_with '','' (map render_item (sort_key fst kvs)) @ CHR ''}'' # s
        = join_with '','' (map render_item (sort_key fst kws)) @ CHR ''}'' # t"
      by (simp add: canonical_json_JObj)
    with rd wf_items [of kws] b prems(1)
    have "map (\<lambda>(k, v). (k, json_norm v)) (sort_key fst kvs)
        = map (\<lambda>(k, v). (k, json_norm v)) (sort_key fst kws) \<and> s = t"
      by (intro join_readable [of render_item _ "\<lambda>(k, v). wf_json v" _ _ "CHR ''}''"])
        (simp_all add: render_item_hd delim_def [of "CHR ''}''"])
    with b show "json_norm (JObj kvs) = json_norm b \<and> s = t" by (simp add: json_norm_JObj)
  qed
qed (simp_all add: scalar_readable)

text \<open>The normal form renders as the document does.\<close>

lemma canonical_json_norm: "canonical_json (json_norm j) = canonical_json j"
proof (induction j rule: canonical_json.induct)
  case (6 xs)
  then have "map (canonical_json \<circ> json_norm) xs = map canonical_json xs" by simp
  then show ?case by (simp only: json_norm.simps canonical_json.simps map_map)
next
  case (7 kvs)
  have sorted: "sorted (map fst (map (\<lambda>(k, v). (k, json_norm v)) (sort_key fst kvs)))"
    by (simp add: comp_def split_beta)
  have "map render_item (map (\<lambda>(k, v). (k, json_norm v)) (sort_key fst kvs))
      = map render_item (sort_key fst kvs)"
    using 7 by (fastforce simp: render_item_def)
  moreover have "sort_key fst (map (\<lambda>(k, v). (k, json_norm v)) (sort_key fst kvs))
      = map (\<lambda>(k, v). (k, json_norm v)) (sort_key fst kvs)"
    using sorted by (rule sort_key_id_if_sorted)
  ultimately show ?case by (simp only: json_norm_JObj canonical_json_JObj)
qed simp_all

lemma canonical_json_eq_iff:
  assumes "wf_json a" "wf_json b"
  shows "canonical_json a = canonical_json b \<longleftrightarrow> json_norm a = json_norm b"
proof
  assume "canonical_json a = canonical_json b"
  then show "json_norm a = json_norm b"
    using readableD [OF canonical_readable [OF assms(1)] assms(2), of "[]" "[]"] by simp
next
  assume "json_norm a = json_norm b"
  then show "canonical_json a = canonical_json b" by (metis canonical_json_norm)
qed


text \<open>The order in which a \<^verbatim>\<open>dict\<close> was filled does not reach the digest.\<close>

lemma canonical_json_permute:
  assumes "mset kvs = mset kws" "distinct (map fst kvs)"
  shows "canonical_json (JObj kvs) = canonical_json (JObj kws)"
proof -
  have "inj_on fst (set kvs)" using assms(2) by (simp add: distinct_map)
  then have "sort_key fst kvs = sort_key fst kws"
    using assms(1) by (metis sort_key_inj_key_eq mset_sort sorted_sort_key)
  then show ?thesis by (simp add: canonical_json_JObj)
qed

section \<open>What the services need of the digest\<close>

text \<open>
  A digest is rendered as 64 lower-case hexadecimal digits. That is all the chain code
  relies on for its framing: a digest never holds the colon that separates the parts of
  a link. Nothing is assumed about collisions; where a result needs that two digests
  differ it says which ones (\<open>inj_on H\<close> on the hashed texts).
\<close>

locale hex_digest =
  fixes H :: "string \<Rightarrow> string"
  assumes digest_length: "length (H s) = 64"
    and digest_hex: "set (H s) \<subseteq> set hex_digits"
begin

lemma digest_no_colon: "CHR '':'' \<notin> set (H s)"
  using digest_hex [of s] by (auto simp: hex_digits_def)

lemma digest_ne: "H s \<noteq> []"
  using digest_length [of s] by auto

lemma chain_hash_no_colon: "CHR '':'' \<notin> set (chain_hash H p n j)"
  by (simp add: chain_hash_def digest_no_colon)

end

interpretation sha256: hex_digest sha256_hex
  by unfold_locales (simp_all add: set_sha256_hex)

lemma show_int_no_colon: "CHR '':'' \<notin> set (show_int i)"
  by (auto simp: is_digit_def dest: show_int_chars)

lemma split_at_colon:
  "u @ CHR '':'' # s = w @ CHR '':'' # t \<Longrightarrow> CHR '':'' \<notin> set u \<Longrightarrow> CHR '':'' \<notin> set w \<Longrightarrow> u = w \<and> s = t"
proof (induction u arbitrary: w)
  case Nil
  then show ?case by (cases w) auto
next
  case (Cons c u)
  then show ?case by (cases w) auto
qed

text \<open>A link's input determines the previous digest, the position and the content.\<close>

lemma chain_input_inj:
  assumes "chain_input p m a = chain_input q n b"
    and "CHR '':'' \<notin> set p" "CHR '':'' \<notin> set q" "wf_json a" "wf_json b"
  shows "p = q \<and> m = n \<and> json_norm a = json_norm b"
proof -
  from assms(1) have "p @ CHR '':'' # show_int m @ CHR '':'' # canonical_json a
      = q @ CHR '':'' # show_int n @ CHR '':'' # canonical_json b"
    by (simp add: chain_input_def)
  with assms(2,3) have p: "p = q" and rest: "show_int m @ CHR '':'' # canonical_json a
      = show_int n @ CHR '':'' # canonical_json b"
    by (auto dest: split_at_colon)
  from rest have "show_int m = show_int n \<and> canonical_json a = canonical_json b"
    by (rule split_at_colon) (rule show_int_no_colon)+
  with p assms(4,5) show ?thesis by (simp add: canonical_json_eq_iff)
qed

section \<open>Properties\<close>

text \<open>
  C6. The canonical rendering attests content and nothing else: two well-formed documents
  render to the same text exactly when they agree up to the order in which the keys of
  their objects were inserted. So a digest of the rendering neither confuses two contents
  nor depends on how a \<^verbatim>\<open>dict\<close> was built.
\<close>

theorem canonical_json_faithful:
  assumes "wf_json a" "wf_json b"
  shows "(canonical_json a = canonical_json b) = (json_norm a = json_norm b)"
  using assms by (rule canonical_json_eq_iff)

theorem canonical_json_faithful_witness:
  "(canonical_json (JObj [(''b'', JInt (-3)), (''a'', JArr [JStr ''x'', JNull])])
    = canonical_json (JObj [(''a'', JArr [JStr ''x'', JNull]), (''b'', JInt (-3))]))
   = (json_norm (JObj [(''b'', JInt (-3)), (''a'', JArr [JStr ''x'', JNull])])
    = json_norm (JObj [(''a'', JArr [JStr ''x'', JNull]), (''b'', JInt (-3))]))"
  by (rule canonical_json_faithful) simp_all

text \<open>
  C7. One link of a chain commits to everything it was computed from: links computed with
  SHA-256 from two (previous digest, sequence, payload) triples agree only if the triples
  agree, unless SHA-256 itself collides on the two link texts. The framing with colons
  cannot be abused to shift text from one part to another.
\<close>

theorem chain_hash_commits:
  assumes "inj_on sha256_hex {chain_input p m a, chain_input q n b}"
    and "p = [] \<or> (\<exists>s. p = sha256_hex s)" "q = [] \<or> (\<exists>s. q = sha256_hex s)"
    and "wf_json a" "wf_json b"
    and "chain_hash sha256_hex p m a = chain_hash sha256_hex q n b"
  shows "p = q \<and> m = n \<and> json_norm a = json_norm b"
proof -
  have "CHR '':'' \<notin> set p" "CHR '':'' \<notin> set q"
    using assms(2,3) sha256.digest_no_colon by auto
  moreover have "chain_input p m a = chain_input q n b"
    using inj_on_eq_iff [OF assms(1)] assms(6) unfolding chain_hash_def by blast
  ultimately show ?thesis using chain_input_inj assms(4,5) by blast
qed

theorem chain_hash_commits_witness:
  "json_norm (JObj [(''b'', JInt 1), (''a'', JNull)]) = json_norm (JObj [(''a'', JNull), (''b'', JInt 1)])"
proof -
  let ?a = "JObj [(''b'', JInt 1), (''a'', JNull)]" and ?b = "JObj [(''a'', JNull), (''b'', JInt 1)]"
  have "canonical_json ?a = canonical_json ?b"
    by (rule canonical_json_permute) simp_all
  then have same: "chain_input [] 1 ?a = chain_input [] 1 ?b"
    by (simp only: chain_input_def)
  show ?thesis
    by (rule chain_hash_commits [of "[]" 1 ?a "[]" 1 ?b, THEN conjunct2, THEN conjunct2])
      (simp_all only: same chain_hash_def, simp_all)
qed

end
