(* ===== verification/Py_Json.thy ===== *)
theory Py_Json
  imports Canonical
begin

text \<open>
  The parts of Python the services apply to decoded JSON and to instants: truthiness,
  dictionary lookup and merge (a \<^verbatim>\<open>dict\<close> is its list of items, in insertion order),
  \<^verbatim>\<open>int(x)\<close>, and \<^verbatim>\<open>datetime.isoformat()\<close> of a UTC instant.
\<close>

section \<open>Dictionaries\<close>

type_synonym dict = "(string \<times> json) list"

definition dict_get :: "dict \<Rightarrow> string \<Rightarrow> json" where
  "dict_get d k = (case map_of d k of Some v \<Rightarrow> v | None \<Rightarrow> JNull)"

text \<open>\<^verbatim>\<open>d[k] = v\<close>: a key that is there keeps its place, a new one goes last.\<close>

fun dict_put :: "string \<Rightarrow> 'v \<Rightarrow> (string \<times> 'v) list \<Rightarrow> (string \<times> 'v) list" where
  "dict_put k v [] = [(k, v)]"
| "dict_put k v ((k', v') # d) = (if k' = k then (k, v) # d else (k', v') # dict_put k v d)"

text \<open>\<^verbatim>\<open>{**d, **e}\<close>\<close>

definition dict_merge :: "(string \<times> 'v) list \<Rightarrow> (string \<times> 'v) list \<Rightarrow> (string \<times> 'v) list" where
  "dict_merge d e = foldl (\<lambda>acc (k, v). dict_put k v acc) d e"

definition dict_default :: "string \<Rightarrow> 'v \<Rightarrow> (string \<times> 'v) list \<Rightarrow> (string \<times> 'v) list" where
  "dict_default k v d = (if map_of d k = None then dict_put k v d else d)"

lemma map_of_dict_put [simp]: "map_of (dict_put k v d) = (map_of d)(k \<mapsto> v)"
  by (induction d) auto

lemma map_of_dict_merge: "distinct (map fst e) \<Longrightarrow> map_of (dict_merge d e) = map_of d ++ map_of e"
proof (induction e arbitrary: d)
  case (Cons p e)
  obtain k v where p: "p = (k, v)" by (cases p)
  from Cons.prems have "k \<notin> dom (map_of e)" by (simp add: p dom_map_of_conv_image_fst)
  with Cons show ?case
    by (auto simp: p dict_merge_def map_add_def split: option.splits)
qed (simp add: dict_merge_def)

lemma map_of_dict_default [simp]:
  "map_of (dict_default k v d) = (if map_of d k = None then (map_of d)(k \<mapsto> v) else map_of d)"
  by (simp add: dict_default_def)

lemma dict_put_keys: "fst ` set (dict_put k v d) = insert k (fst ` set d)"
proof (induction d)
  case (Cons p d)
  then show ?case by (cases p) (simp add: insert_commute)
qed simp

lemma distinct_dict_put: "distinct (map fst d) \<Longrightarrow> distinct (map fst (dict_put k v d))"
proof (induction d)
  case (Cons p d)
  obtain a b where "p = (a, b)" by (cases p)
  with Cons show ?case using dict_put_keys [of k v d] by (cases "a = k") simp_all
qed simp

section \<open>Truth values and objects\<close>

fun json_truthy :: "json \<Rightarrow> bool" where
  "json_truthy JNull = False"
| "json_truthy (JBool b) = b"
| "json_truthy (JInt i) = (i \<noteq> 0)"
| "json_truthy (JFloat r) = (r \<notin> {''0.0'', ''-0.0''})"
| "json_truthy (JStr s) = (s \<noteq> [])"
| "json_truthy (JArr xs) = (xs \<noteq> [])"
| "json_truthy (JObj kvs) = (kvs \<noteq> [])"

text \<open>\<open>x or d\<close>\<close>

definition json_or :: "json \<Rightarrow> json \<Rightarrow> json" where
  "json_or x d = (if json_truthy x then x else d)"

fun json_get :: "json \<Rightarrow> string \<Rightarrow> json" where
  "json_get (JObj kvs) k = dict_get kvs k"
| "json_get _ k = JNull"

definition json_is_object :: "json \<Rightarrow> bool" where
  "json_is_object j = (case j of JObj _ \<Rightarrow> True | _ \<Rightarrow> False)"

definition json_is_list :: "json \<Rightarrow> bool" where
  "json_is_list j = (case j of JArr _ \<Rightarrow> True | _ \<Rightarrow> False)"

section \<open>Reading integers\<close>

text \<open>
  \<^verbatim>\<open>int(x)\<close> raises \<^verbatim>\<open>TypeError\<close> or \<^verbatim>\<open>ValueError\<close> for what is no
  number and \<^verbatim>\<open>OverflowError\<close> for an infinite float. A finite float is truncated toward
  zero; it is given by its \<^verbatim>\<open>repr\<close>, digits with an optional fraction and exponent.
\<close>

datatype py_int_result = Py_Int int | Py_ValueError | Py_OverflowError

definition all_digits :: "string \<Rightarrow> bool" where
  "all_digits s \<longleftrightarrow> s \<noteq> [] \<and> list_all is_digit s"

definition split_sign :: "string \<Rightarrow> int \<times> string" where
  "split_sign s = (case s of
      CHR ''-'' # r \<Rightarrow> (-1, r) | CHR ''+'' # r \<Rightarrow> (1, r) | _ \<Rightarrow> (1, s))"

text \<open>A text of decimal digits; single underscores may separate digits.\<close>

fun drop_underscores :: "string \<Rightarrow> string option" where
  "drop_underscores [] = Some []"
| "drop_underscores [c] = (if is_digit c then Some [c] else None)"
| "drop_underscores (c # d # s) =
     (if \<not> is_digit c then None
      else if d = CHR ''_'' then (if s = [] then None else map_option (Cons c) (drop_underscores s))
      else map_option (Cons c) (drop_underscores (d # s)))"

definition int_of_text :: "string \<Rightarrow> int option" where
  "int_of_text s =
     (let (sg, ds) = split_sign (py_strip s)
      in case drop_underscores ds of
           Some d \<Rightarrow> if all_digits d then Some (sg * int (read_nat d)) else None
         | None \<Rightarrow> None)"

definition int_of_float_repr :: "string \<Rightarrow> py_int_result" where
  "int_of_float_repr r =
     (let (sg, s) = split_sign r;
          mant = takeWhile (\<lambda>c. c \<noteq> CHR ''e'') s;
          whole = takeWhile (\<lambda>c. c \<noteq> CHR ''.'') mant;
          frac = drop (Suc (length whole)) mant;
          ex = (case int_of_text (drop (Suc (length mant)) s) of Some e \<Rightarrow> e | None \<Rightarrow> 0);
          shift = ex - int (length frac);
          ds = int (read_nat (whole @ frac))
      in if mant = ''inf'' \<or> mant = ''Infinity'' then Py_OverflowError
         else if \<not> list_all is_digit (whole @ frac) then Py_ValueError
         else Py_Int (sg * (if 0 \<le> shift then ds * 10 ^ nat shift else ds div 10 ^ nat (- shift))))"

fun py_int :: "json \<Rightarrow> py_int_result" where
  "py_int (JInt i) = Py_Int i"
| "py_int (JBool b) = Py_Int (if b then 1 else 0)"
| "py_int (JFloat r) = int_of_float_repr r"
| "py_int (JStr s) = (case int_of_text s of Some i \<Rightarrow> Py_Int i | None \<Rightarrow> Py_ValueError)"
| "py_int _ = Py_ValueError"

section \<open>Instants\<close>

text \<open>
  The civil date of a day count since 1970-01-01, in the proleptic Gregorian calendar, and
  the ISO form of an instant in microseconds.
\<close>

definition civil_of_days :: "int \<Rightarrow> int \<times> int \<times> int" where
  "civil_of_days z =
     (let z' = z + 719468;
          era = z' div 146097;
          doe = z' mod 146097;
          yoe = (doe - doe div 1460 + doe div 36524 - doe div 146096) div 365;
          doy = doe - (365 * yoe + yoe div 4 - yoe div 100);
          mp = (5 * doy + 2) div 153;
          d = doy - (153 * mp + 2) div 5 + 1;
          m = (if mp < 10 then mp + 3 else mp - 9)
      in (yoe + era * 400 + (if m \<le> 2 then 1 else 0), m, d))"

definition pad_int :: "nat \<Rightarrow> int \<Rightarrow> string" where
  "pad_int w i = (let s = show_int i in replicate (w - length s) (CHR ''0'') @ s)"

definition iso_wall :: "int \<Rightarrow> string" where
  "iso_wall t =
     (let (y, m, d) = civil_of_days (t div 86400000000);
          us = t mod 86400000000;
          s = us div 1000000;
          frac = us mod 1000000
      in pad_int 4 y @ ''-'' @ pad_int 2 m @ ''-'' @ pad_int 2 d @ ''T''
         @ pad_int 2 (s div 3600) @ '':'' @ pad_int 2 (s div 60 mod 60) @ '':'' @ pad_int 2 (s mod 60)
         @ (if frac = 0 then [] else ''.'' @ pad_int 6 frac))"

text \<open>A UTC offset in minutes, and an instant shown in it.\<close>

definition utc_offset :: "int \<Rightarrow> string" where
  "utc_offset off = (if off < 0 then ''-'' else ''+'') @ pad_int 2 (\<bar>off\<bar> div 60) @ '':'' @ pad_int 2 (\<bar>off\<bar> mod 60)"

definition iso_aware :: "int \<times> int \<Rightarrow> string" where
  "iso_aware = (\<lambda>(t, off). iso_wall (t + off * 60000000) @ utc_offset off)"

definition iso_instant :: "int \<Rightarrow> string" where
  "iso_instant t = iso_wall t @ ''+00:00''"

definition iso_or_null :: "int option \<Rightarrow> json" where
  "iso_or_null t = (case t of None \<Rightarrow> JNull | Some t \<Rightarrow> JStr (iso_instant t))"

lemma utc_offset_zero: "utc_offset 0 = ''+00:00''"
  by code_simp

lemma iso_aware_utc [simp]: "iso_aware (t, 0) = iso_instant t"
  by (simp add: iso_aware_def iso_instant_def utc_offset_zero)

lemma pad_int_two:
  assumes "0 \<le> i" "i < 100"
  shows "length (pad_int 2 i) = 2 \<and> (pad_int 2 i = ''00'' \<longleftrightarrow> i = 0)"
proof -
  have "list_all (\<lambda>n. length (pad_int 2 (int n)) = 2 \<and> (pad_int 2 (int n) = ''00'' \<longleftrightarrow> n = 0)) [0..<100]"
    by code_simp
  then have "\<forall>n < 100. length (pad_int 2 (int n)) = 2 \<and> (pad_int 2 (int n) = ''00'' \<longleftrightarrow> n = 0)"
    by (simp add: list_all_iff)
  moreover have "nat i < 100" "int (nat i) = i" "nat i = 0 \<longleftrightarrow> i = 0" using assms by auto
  ultimately show ?thesis by metis
qed

text \<open>A time shown in another offset than UTC is another text, whatever the instants.\<close>

lemma iso_aware_not_utc:
  assumes "-1440 < off" "off < 1440" "off \<noteq> 0"
  shows "iso_aware (t, off) \<noteq> iso_instant t'"
proof
  assume "iso_aware (t, off) = iso_instant t'"
  then have eq: "iso_wall (t + off * 60000000) @ utc_offset off = iso_wall t' @ ''+00:00''"
    by (simp add: iso_aware_def iso_instant_def)
  have h: "0 \<le> \<bar>off\<bar> div 60" "\<bar>off\<bar> div 60 < 100" and m: "0 \<le> \<bar>off\<bar> mod 60" "\<bar>off\<bar> mod 60 < 100"
    using assms by auto
  have "length (utc_offset off) = 6"
    using pad_int_two [OF h] pad_int_two [OF m] by (simp add: utc_offset_def)
  with eq have "utc_offset off = ''+00:00''" by (simp add: append_eq_append_conv)
  then have all: "pad_int 2 (\<bar>off\<bar> div 60) @ '':'' @ pad_int 2 (\<bar>off\<bar> mod 60) = ''00'' @ '':'' @ ''00''"
    by (simp add: utc_offset_def split: if_splits)
  have "pad_int 2 (\<bar>off\<bar> div 60) = ''00''" "pad_int 2 (\<bar>off\<bar> mod 60) = ''00''"
    using arg_cong [OF all, of "take 2"] arg_cong [OF all, of "drop 3"]
      pad_int_two [OF h] pad_int_two [OF m] by simp_all
  then have "\<bar>off\<bar> div 60 = 0" "\<bar>off\<bar> mod 60 = 0"
    using pad_int_two [OF h] pad_int_two [OF m] by blast+
  then have "\<bar>off\<bar> = 0" by (metis div_mult_mod_eq mult_zero_left add_0)
  with assms(3) show False by simp
qed

section \<open>Texts of values\<close>

text \<open>
  \<^verbatim>\<open>repr\<close> and \<^verbatim>\<open>str\<close> of a decoded value: strings are quoted inside
  containers only; characters that do not print are escaped.
\<close>

definition repr_char :: "char \<Rightarrow> char \<Rightarrow> string" where
  "repr_char quote c =
     (let n = of_char c :: nat
      in if c = quote \<or> c = CHR 0x5C then [CHR 0x5C, c]
         else if n = 9 then [CHR 0x5C, CHR ''t''] else if n = 10 then [CHR 0x5C, CHR ''n'']
         else if n = 13 then [CHR 0x5C, CHR ''r'']
         else if n < 32 \<or> (127 \<le> n \<and> n \<le> 160) \<or> n = 173
         then [CHR 0x5C, CHR ''x'', hex_digits ! (n div 16), hex_digits ! (n mod 16)]
         else [c])"

definition py_repr_string :: "string \<Rightarrow> string" where
  "py_repr_string s =
     (let quote = (if CHR 0x27 \<in> set s \<and> CHR 0x22 \<notin> set s then CHR 0x22 else CHR 0x27)
      in quote # concat (map (repr_char quote) s) @ [quote])"

fun py_repr :: "json \<Rightarrow> string" where
  "py_repr JNull = ''None''"
| "py_repr (JBool b) = (if b then ''True'' else ''False'')"
| "py_repr (JInt i) = show_int i"
| "py_repr (JFloat r) = r"
| "py_repr (JStr s) = py_repr_string s"
| "py_repr (JArr xs) = ''['' @ join_with '', '' (map py_repr xs) @ '']''"
| "py_repr (JObj kvs) = ''{'' @ join_with '', '' (map (\<lambda>(k, v). py_repr_string k @ '': '' @ py_repr v) kvs) @ ''}''"

fun py_str :: "json \<Rightarrow> string" where
  "py_str (JStr s) = s"
| "py_str j = py_repr j"

section \<open>Objects with fixed keys\<close>

text \<open>Two objects with the same keys have the same content when their values do, one by one.\<close>

lemma json_norm_fields:
  assumes "distinct (map fst kvs)" "map fst kvs = map fst kws"
  shows "json_norm (JObj kvs) = json_norm (JObj kws) \<longleftrightarrow>
    map (json_norm \<circ> snd) kvs = map (json_norm \<circ> snd) kws"
proof
  let ?A = "map (\<lambda>(k, v). (k, json_norm v)) kvs" and ?B = "map (\<lambda>(k, v). (k, json_norm v)) kws"
  have keys: "map fst ?A = map fst kvs" "map fst ?B = map fst kws"
    by (simp_all add: comp_def case_prod_beta)
  assume "json_norm (JObj kvs) = json_norm (JObj kws)"
  then have "sort_key fst ?A = sort_key fst ?B" by (simp only: json_norm.simps json.inject)
  then have sets: "set ?A = set ?B" by (metis set_sort)
  have rebuild: "xs = map (\<lambda>k. (k, the (map_of xs k))) (map fst xs)" if "distinct (map fst xs)" for xs :: "dict"
  proof -
    have "map (\<lambda>p. (fst p, the (map_of xs (fst p)))) xs = xs"
      by (rule map_idI) (use that in \<open>auto dest: map_of_is_SomeI\<close>)
    then show ?thesis by (simp add: comp_def)
  qed
  have "map_of ?A = map_of ?B"
    using map_of_inject_set [of ?A ?B] assms sets unfolding keys by simp
  then have "?A = ?B"
    using rebuild [of ?A] rebuild [of ?B] assms keys by metis
  then have "map snd ?A = map snd ?B" by simp
  then show "map (json_norm \<circ> snd) kvs = map (json_norm \<circ> snd) kws"
    by (simp add: comp_def case_prod_beta)
next
  assume vals: "map (json_norm \<circ> snd) kvs = map (json_norm \<circ> snd) kws"
  have "map (\<lambda>(k, v). (k, json_norm v)) xs = zip (map fst xs) (map (json_norm \<circ> snd) xs)" for xs
    by (induction xs) auto
  then have "map (\<lambda>(k, v). (k, json_norm v)) kvs = map (\<lambda>(k, v). (k, json_norm v)) kws"
    using assms(2) vals by metis
  then show "json_norm (JObj kvs) = json_norm (JObj kws)" by (simp only: json_norm.simps)
qed

end
