(* ===== verification/Sync_Queue.thy ===== *)
theory Sync_Queue
  imports Py_Json "HOL-Library.Product_Lexorder"
begin

text \<open>
  The offline sync queue: \<^verbatim>\<open>apps/sync/models.py\<close> (a row of the journal),
  \<^verbatim>\<open>apps/sync/appliers.py\<close> (what may be queued) and \<^verbatim>\<open>apps/sync/services.py\<close>
  (enqueue, claim, flush, report). The journal is a table of rows; every operation takes
  it and returns the new one. The effect of an applier on the other tables is a parameter:
  a function on an abstract world that either refuses or returns the new world, inside the
  transaction of the flush. The clock is read once per operation and is an argument.
\<close>

section \<open>Rows and settings\<close>

datatype sync_status = Sq_Pending | Sq_Processing | Sq_Synced | Sq_Failed

record sync_item =
  si_id :: nat
  si_reference :: string
  si_inspector :: nat
  si_client_item_id :: string
  si_entity_type :: string
  si_entity_id :: string
  si_action :: string
  si_payload :: json
  si_payload_hash :: string
  si_status :: sync_status
  si_retry_count :: nat
  si_last_error :: string
  si_target_model :: string
  si_target_id :: string
  si_queued_at :: int
  si_claimed_at :: "int option"
  si_processed_at :: "int option"
  si_synced_at :: "int option"
  si_updated_at :: int

record sync_db =
  sd_items :: "sync_item list"
  sd_next_id :: nat

text \<open>\<^verbatim>\<open>SYNC_MAX_RETRIES\<close> and \<^verbatim>\<open>SYNC_CLAIM_TIMEOUT_SECONDS\<close>.\<close>

record sync_settings =
  ss_max_retries :: int
  ss_claim_timeout_s :: int

definition default_sync_settings :: sync_settings where
  "default_sync_settings = \<lparr>ss_max_retries = 5, ss_claim_timeout_s = 300\<rparr>"

definition compute_payload_hash :: "(string \<Rightarrow> string) \<Rightarrow> json \<Rightarrow> string" where
  "compute_payload_hash H payload = H (canonical_json payload)"

definition si_exhausted :: "sync_settings \<Rightarrow> sync_item \<Rightarrow> bool" where
  "si_exhausted cfg i \<longleftrightarrow> si_status i = Sq_Failed \<and> ss_max_retries cfg \<le> int (si_retry_count i)"

section \<open>What may be queued\<close>

datatype apply_refusal =
    MissingFields "string list" string string
  | TelemetryOnlyCreate
  | PacketsNotAList

text \<open>\<^verbatim>\<open>payload.get(k) in (None, '', [], {})\<close>\<close>

definition absent_value :: "json \<Rightarrow> bool" where
  "absent_value v \<longleftrightarrow> v \<in> {JNull, JStr [], JArr [], JObj []}"

definition require_keys ::
    "json \<Rightarrow> string list \<Rightarrow> string \<Rightarrow> string \<Rightarrow> apply_refusal + unit" where
  "require_keys payload keys entity_type action =
     (let missing = filter (\<lambda>k. absent_value (json_get payload k)) keys
      in check (missing = []) (MissingFields missing entity_type action))"

definition validate_inspection :: "json \<Rightarrow> string \<Rightarrow> apply_refusal + unit" where
  "validate_inspection payload action =
     (if action = ''CREATE''
      then require_keys payload [''project'', ''inspection_type''] ''INSPECTION'' action
      else Inr ())"

definition validate_finding :: "json \<Rightarrow> string \<Rightarrow> apply_refusal + unit" where
  "validate_finding payload action =
     (if action = ''CREATE''
      then require_keys payload [''inspection'', ''title'', ''description''] ''FINDING'' action
      else Inr ())"

definition validate_stop_work_order :: "json \<Rightarrow> string \<Rightarrow> apply_refusal + unit" where
  "validate_stop_work_order payload action =
     (if action = ''CREATE''
      then require_keys payload [''project'', ''reason''] ''STOP_WORK_ORDER'' action
      else Inr ())"

definition validate_evidence :: "json \<Rightarrow> string \<Rightarrow> apply_refusal + unit" where
  "validate_evidence payload action =
     require_keys payload [''project'', ''source_type'', ''source_model'', ''source_id'']
       ''EVIDENCE'' action"

definition validate_telemetry :: "json \<Rightarrow> string \<Rightarrow> apply_refusal + unit" where
  "validate_telemetry payload action =
     (if action \<noteq> ''CREATE'' then Inl TelemetryOnlyCreate
      else bind_r (require_keys payload [''device'', ''project'', ''data_type'', ''packets'']
                     ''TELEMETRY'' action)
             (\<lambda>_. check (json_is_list (json_get payload ''packets'')) PacketsNotAList))"

record applier =
  ap_entity_type :: string
  ap_model_label :: string
  ap_actions :: "string list"
  ap_validate :: "json \<Rightarrow> string \<Rightarrow> apply_refusal + unit"

definition sync_registry :: "(string \<times> applier) list" where
  "sync_registry =
    [(''INSPECTION'', \<lparr>ap_entity_type = ''INSPECTION'', ap_model_label = ''inspections.Inspection'',
        ap_actions = [''CREATE'', ''UPDATE''], ap_validate = validate_inspection\<rparr>),
     (''FINDING'', \<lparr>ap_entity_type = ''FINDING'', ap_model_label = ''inspections.Finding'',
        ap_actions = [''CREATE'', ''UPDATE''], ap_validate = validate_finding\<rparr>),
     (''STOP_WORK_ORDER'', \<lparr>ap_entity_type = ''STOP_WORK_ORDER'',
        ap_model_label = ''inspections.StopWorkOrder'',
        ap_actions = [''CREATE'', ''UPDATE''], ap_validate = validate_stop_work_order\<rparr>),
     (''EVIDENCE'', \<lparr>ap_entity_type = ''EVIDENCE'', ap_model_label = ''evidence.EvidenceRecord'',
        ap_actions = [''CREATE'', ''UPDATE''], ap_validate = validate_evidence\<rparr>),
     (''TELEMETRY'', \<lparr>ap_entity_type = ''TELEMETRY'',
        ap_model_label = ''telemetry.TelemetrySession'',
        ap_actions = [''CREATE''], ap_validate = validate_telemetry\<rparr>)]"

definition known_actions :: "string list" where
  "known_actions = [''CREATE'', ''UPDATE'', ''DELETE'']"

section \<open>Enqueue\<close>

datatype sync_error =
    ClientItemIdRequired
  | ClientItemIdTooLong
  | NotQueueable string
  | UnknownAction string
  | ActionNotSupported string string
  | PayloadNotObject
  | PayloadRefused apply_refusal
  | UpdateNeedsEntityId string
  | DifferentPayload string
  | DifferentOperation string string string
  | EntityIdTooLong

fun sync_error_status :: "sync_error \<Rightarrow> nat" where
  "sync_error_status (DifferentPayload _) = 409"
| "sync_error_status (DifferentOperation _ _ _) = 409"
| "sync_error_status EntityIdTooLong = 500"
| "sync_error_status _ = 400"

record enqueue_request =
  er_client_item_id :: "string option"
  er_entity_type :: "string option"
  er_action :: "string option"
  er_payload :: json
  er_entity_id :: "string option"

definition er_client :: "enqueue_request \<Rightarrow> string" where
  "er_client r = py_strip (or_empty (er_client_item_id r))"

definition er_type :: "enqueue_request \<Rightarrow> string" where
  "er_type r = py_upper (py_strip (or_empty (er_entity_type r)))"

definition er_act :: "enqueue_request \<Rightarrow> string" where
  "er_act r = py_upper (py_strip (or_empty (er_action r)))"

definition er_eid :: "enqueue_request \<Rightarrow> string" where
  "er_eid r = py_strip (or_empty (er_entity_id r))"

text \<open>The checks of \<^verbatim>\<open>SyncService.enqueue\<close> that precede the database, in their order.\<close>

definition enqueue_checks :: "enqueue_request \<Rightarrow> sync_error + unit" where
  "enqueue_checks r =
     bind_r (check (er_client r \<noteq> []) ClientItemIdRequired) (\<lambda>_.
     bind_r (check (length (er_client r) \<le> 128) ClientItemIdTooLong) (\<lambda>_.
     case map_of sync_registry (er_type r) of
       None \<Rightarrow> Inl (NotQueueable (er_type r))
     | Some ap \<Rightarrow>
         bind_r (check (er_act r \<in> set known_actions) (UnknownAction (er_act r))) (\<lambda>_.
         bind_r (check (er_act r \<in> set (ap_actions ap))
                   (ActionNotSupported (er_act r) (er_type r))) (\<lambda>_.
         bind_r (check (json_is_object (er_payload r)) PayloadNotObject) (\<lambda>_.
         case ap_validate ap (er_payload r) (er_act r) of
           Inl e \<Rightarrow> Inl (PayloadRefused e)
         | Inr _ \<Rightarrow>
             check (\<not> (er_act r = ''UPDATE'' \<and> er_eid r = [])) (UpdateNeedsEntityId (er_type r)))))))"

definition same_key :: "nat \<Rightarrow> string \<Rightarrow> sync_item \<Rightarrow> bool" where
  "same_key user cid i \<longleftrightarrow> si_inspector i = user \<and> si_client_item_id i = cid"

definition new_item ::
    "(string \<Rightarrow> string) \<Rightarrow> int \<Rightarrow> string \<Rightarrow> nat \<Rightarrow> nat \<Rightarrow> enqueue_request \<Rightarrow> sync_item" where
  "new_item H now ref pk user r =
     \<lparr>si_id = pk, si_reference = ref, si_inspector = user, si_client_item_id = er_client r,
      si_entity_type = er_type r, si_entity_id = er_eid r, si_action = er_act r,
      si_payload = er_payload r, si_payload_hash = compute_payload_hash H (er_payload r),
      si_status = Sq_Pending, si_retry_count = 0, si_last_error = [], si_target_model = [],
      si_target_id = [], si_queued_at = now, si_claimed_at = None, si_processed_at = None,
      si_synced_at = None, si_updated_at = now\<rparr>"

text \<open>
  \<^verbatim>\<open>get_or_create\<close> on the unique key (inspector, client item id), then the comparison
  with the row that was already there. The result is the row, whether it was created, and
  the journal; a refusal returns no journal, so the stored rows stay as they were. An
  \<^verbatim>\<open>entity_id\<close> over 64 characters passes every check of the service and is refused by the
  column when the row is inserted: not a \<^verbatim>\<open>SyncError\<close> but an error of the database.
\<close>

definition enqueue ::
    "(string \<Rightarrow> string) \<Rightarrow> int \<Rightarrow> string \<Rightarrow> nat \<Rightarrow> enqueue_request \<Rightarrow> sync_db
     \<Rightarrow> sync_error + (sync_item \<times> bool \<times> sync_db)" where
  "enqueue H now ref user r db =
     bind_r (enqueue_checks r) (\<lambda>_.
       case first_where (same_key user (er_client r)) (sd_items db) of
         None \<Rightarrow>
           if 64 < length (er_eid r) then Inl EntityIdTooLong
           else
             let item = new_item H now ref (sd_next_id db) user r
             in Inr (item, True, db\<lparr>sd_items := sd_items db @ [item], sd_next_id := Suc (sd_next_id db)\<rparr>)
       | Some item \<Rightarrow>
           if si_payload_hash item \<noteq> compute_payload_hash H (er_payload r)
           then Inl (DifferentPayload (er_client r))
           else if si_entity_type item \<noteq> er_type r \<or> si_action item \<noteq> er_act r
           then Inl (DifferentOperation (er_client r) (si_entity_type item) (si_action item))
           else Inr (item, False, db))"

section \<open>Claiming and marking\<close>

text \<open>
  The filter shared by \<^verbatim>\<open>claimable\<close> and \<^verbatim>\<open>_claim\<close>: pending, or claimed by
  a worker whose claim went stale, or failed and still under the retry cap (or any failed
  row, when the caller asks for exhausted ones too).
\<close>

definition claimed_before :: "sync_settings \<Rightarrow> int \<Rightarrow> int option \<Rightarrow> bool" where
  "claimed_before cfg now claimed =
     (case claimed of None \<Rightarrow> False
      | Some t \<Rightarrow> t < now - ss_claim_timeout_s cfg * 1000000)"

definition claim_condition :: "sync_settings \<Rightarrow> int \<Rightarrow> bool \<Rightarrow> sync_item \<Rightarrow> bool" where
  "claim_condition cfg now include_exhausted i \<longleftrightarrow>
     si_status i = Sq_Pending
     \<or> (si_status i = Sq_Processing \<and> claimed_before cfg now (si_claimed_at i))
     \<or> (si_status i = Sq_Failed
        \<and> (include_exhausted \<or> int (si_retry_count i) < ss_max_retries cfg))"

text \<open>
  The property \<^verbatim>\<open>claim_is_stale\<close> of a loaded row. It is not what the flush filters on: a
  row that is not being processed, or carries no time of its claim, counts as stale.
\<close>

definition claim_is_stale :: "sync_settings \<Rightarrow> int \<Rightarrow> sync_item \<Rightarrow> bool" where
  "claim_is_stale cfg now i =
     (if si_status i \<noteq> Sq_Processing then True
      else case si_claimed_at i of
             None \<Rightarrow> True
           | Some t \<Rightarrow> ss_claim_timeout_s cfg * 1000000 < now - t)"

lemma claim_is_stale_claimable:
  assumes "si_status i = Sq_Processing" "si_claimed_at i \<noteq> None"
  shows "claim_is_stale cfg now i \<longleftrightarrow> claim_condition cfg now ie i"
  using assms by (auto simp: claim_is_stale_def claim_condition_def claimed_before_def)

definition replay_key :: "sync_item \<Rightarrow> int \<times> nat" where
  "replay_key i = (si_queued_at i, si_id i)"

definition claimable ::
    "sync_settings \<Rightarrow> int \<Rightarrow> nat \<Rightarrow> bool \<Rightarrow> sync_item list \<Rightarrow> sync_item list" where
  "claimable cfg now user include_exhausted items =
     sort_key replay_key
       (filter (\<lambda>i. si_inspector i = user \<and> claim_condition cfg now include_exhausted i) items)"

definition claim ::
    "sync_settings \<Rightarrow> int \<Rightarrow> bool \<Rightarrow> nat \<Rightarrow> sync_item list \<Rightarrow> bool \<times> sync_item list" where
  "claim cfg now include_exhausted pk items =
     (let P = (\<lambda>i. si_id i = pk \<and> claim_condition cfg now include_exhausted i)
      in (rows_where P items = 1,
          update_where P (\<lambda>i. i\<lparr>si_status := Sq_Processing, si_claimed_at := Some now,
                                 si_updated_at := now\<rparr>) items))"

text \<open>
  \<^verbatim>\<open>mark_synced\<close> and \<^verbatim>\<open>mark_failed\<close> change the loaded object and write the named
  columns of its row: the retry count written is the one loaded, plus one.
\<close>

definition save_row :: "nat \<Rightarrow> (sync_item \<Rightarrow> sync_item) \<Rightarrow> sync_item list \<Rightarrow> sync_item list" where
  "save_row pk f items = update_where (\<lambda>i. si_id i = pk) f items"

definition mark_synced ::
    "int \<Rightarrow> string \<Rightarrow> string \<Rightarrow> sync_item \<Rightarrow> sync_item list \<Rightarrow> sync_item list" where
  "mark_synced now target_model target_id item items =
     save_row (si_id item)
       (\<lambda>i. i\<lparr>si_status := Sq_Synced, si_target_model := target_model, si_target_id := target_id,
              si_last_error := [], si_claimed_at := None, si_processed_at := Some now,
              si_synced_at := Some now, si_updated_at := now\<rparr>) items"

definition mark_failed ::
    "int \<Rightarrow> string \<Rightarrow> sync_item \<Rightarrow> sync_item list \<Rightarrow> sync_item list" where
  "mark_failed now message item items =
     save_row (si_id item)
       (\<lambda>i. i\<lparr>si_status := Sq_Failed, si_retry_count := si_retry_count item + 1,
              si_last_error := take 2000 message, si_claimed_at := None,
              si_processed_at := Some now, si_updated_at := now\<rparr>) items"

section \<open>The flush\<close>

record apply_result =
  ar_model_label :: string
  ar_target_id :: string

text \<open>
  An applier either raises \<^verbatim>\<open>SyncApplyError\<close> or any other exception (both end in
  \<^verbatim>\<open>mark_failed\<close>; the message of the second is \<^verbatim>\<open>describe_drf_error\<close>'s), or
  returns where the write landed and the new world.
\<close>

datatype apply_exception = SyncApplyError string | OtherException string

fun exception_message :: "apply_exception \<Rightarrow> string" where
  "exception_message (SyncApplyError m) = m"
| "exception_message (OtherException m) = m"

type_synonym 'w apply_fn = "sync_item \<Rightarrow> 'w \<Rightarrow> apply_exception + (apply_result \<times> 'w)"

definition apply_item :: "'w apply_fn \<Rightarrow> 'w apply_fn" where
  "apply_item app item w =
     (case map_of sync_registry (si_entity_type item) of
        None \<Rightarrow> Inl (SyncApplyError (si_entity_type item @ '' is no longer a supported entity type.''))
      | Some _ \<Rightarrow> app item w)"

record flush =
  fl_processed :: nat
  fl_synced :: nat
  fl_failed :: nat
  fl_skipped :: nat
  fl_applied :: "(string \<times> sync_status \<times> string) list"

definition empty_flush :: flush where
  "empty_flush = \<lparr>fl_processed = 0, fl_synced = 0, fl_failed = 0, fl_skipped = 0, fl_applied = []\<rparr>"

text \<open>
  One turn of the loop of \<^verbatim>\<open>process\<close>. The apply and \<^verbatim>\<open>mark_synced\<close> share a
  transaction: on an exception the world is the one before it.
\<close>

definition process_one ::
    "sync_settings \<Rightarrow> int \<Rightarrow> bool \<Rightarrow> 'w apply_fn \<Rightarrow> sync_item
     \<Rightarrow> flush \<times> sync_item list \<times> 'w \<Rightarrow> flush \<times> sync_item list \<times> 'w" where
  "process_one cfg now include_exhausted app item = (\<lambda>(fl, items, w).
     case claim cfg now include_exhausted (si_id item) items of
       (False, items1) \<Rightarrow> (fl\<lparr>fl_skipped := fl_skipped fl + 1\<rparr>, items1, w)
     | (True, items1) \<Rightarrow>
         (let fl1 = fl\<lparr>fl_processed := fl_processed fl + 1\<rparr>
          in case apply_item app item w of
               Inl exc \<Rightarrow>
                 (let msg = exception_message exc
                  in (fl1\<lparr>fl_failed := fl_failed fl1 + 1,
                          fl_applied := fl_applied fl1 @ [(si_reference item, Sq_Failed, take 2000 msg)]\<rparr>,
                      mark_failed now msg item items1, w))
             | Inr (res, w1) \<Rightarrow>
                 (fl1\<lparr>fl_synced := fl_synced fl1 + 1,
                      fl_applied := fl_applied fl1 @ [(si_reference item, Sq_Synced, [])]\<rparr>,
                  mark_synced now (ar_model_label res) (ar_target_id res) item items1, w1)))"

definition flush_limit :: "int \<Rightarrow> nat" where
  "flush_limit limit = nat (max 1 (min (if limit = 0 then 50 else limit) 200))"

text \<open>The result: the counters, how many claimable items remain, the journal and the world.\<close>

definition process ::
    "sync_settings \<Rightarrow> int \<Rightarrow> 'w apply_fn \<Rightarrow> nat \<Rightarrow> int \<Rightarrow> bool \<Rightarrow> sync_item list \<Rightarrow> 'w
     \<Rightarrow> flush \<times> nat \<times> sync_item list \<times> 'w" where
  "process cfg now app user limit include_exhausted items w =
     (case fold (process_one cfg now include_exhausted app)
             (take (flush_limit limit) (claimable cfg now user include_exhausted items))
             (empty_flush, items, w) of
        (fl, items', w') \<Rightarrow>
          (fl, length (claimable cfg now user include_exhausted items'), items', w'))"

section \<open>Reporting\<close>

record queue_status =
  qs_pending :: nat
  qs_failed :: nat
  qs_synced :: nat
  qs_processing :: nat
  qs_oldest_pending_at :: "int option"
  qs_last_synced_at :: "int option"
  qs_max_retries :: int
  qs_exhausted :: "sync_item list"

definition least_of :: "int list \<Rightarrow> int option" where
  "least_of xs = (case sort xs of [] \<Rightarrow> None | x # _ \<Rightarrow> Some x)"

definition greatest_of :: "int list \<Rightarrow> int option" where
  "greatest_of xs = (case rev (sort xs) of [] \<Rightarrow> None | x # _ \<Rightarrow> Some x)"

definition queue_status ::
    "sync_settings \<Rightarrow> nat \<Rightarrow> nat \<Rightarrow> sync_item list \<Rightarrow> queue_status" where
  "queue_status cfg user exhausted_limit items =
     (let mine = filter (\<lambda>i. si_inspector i = user) items;
          count = (\<lambda>st. rows_where (\<lambda>i. si_status i = st) mine)
      in \<lparr>qs_pending = count Sq_Pending, qs_failed = count Sq_Failed, qs_synced = count Sq_Synced,
          qs_processing = count Sq_Processing,
          qs_oldest_pending_at =
            least_of (map si_queued_at (filter (\<lambda>i. si_status i = Sq_Pending) mine)),
          qs_last_synced_at =
            greatest_of (List.map_filter si_synced_at (filter (\<lambda>i. si_status i = Sq_Synced) mine)),
          qs_max_retries = ss_max_retries cfg,
          qs_exhausted = take exhausted_limit (sort_key si_queued_at (filter (si_exhausted cfg) mine))\<rparr>)"

section \<open>What enqueue accepts\<close>

lemma enqueue_checks_Inr:
  "enqueue_checks r = Inr u \<longleftrightarrow>
     er_client r \<noteq> [] \<and> length (er_client r) \<le> 128
     \<and> (\<exists>ap. map_of sync_registry (er_type r) = Some ap
           \<and> er_act r \<in> set known_actions \<and> er_act r \<in> set (ap_actions ap)
           \<and> json_is_object (er_payload r) \<and> ap_validate ap (er_payload r) (er_act r) = Inr ()
           \<and> (er_act r = ''UPDATE'' \<longrightarrow> er_eid r \<noteq> []))"
  by (auto simp: enqueue_checks_def split: option.splits sum.splits)

text \<open>A row the queue may hold: it passed the checks, and its columns agree.\<close>

definition row_ok :: "(string \<Rightarrow> string) \<Rightarrow> sync_item \<Rightarrow> bool" where
  "row_ok H i \<longleftrightarrow>
     si_payload_hash i = compute_payload_hash H (si_payload i)
     \<and> si_client_item_id i \<noteq> [] \<and> length (si_client_item_id i) \<le> 128
     \<and> (\<exists>ap. map_of sync_registry (si_entity_type i) = Some ap
           \<and> si_action i \<in> set (ap_actions ap)
           \<and> ap_validate ap (si_payload i) (si_action i) = Inr ())
     \<and> (si_action i = ''UPDATE'' \<longrightarrow> si_entity_id i \<noteq> []) \<and> length (si_entity_id i) \<le> 64
     \<and> (si_status i = Sq_Synced \<longleftrightarrow> si_synced_at i \<noteq> None)
     \<and> (si_status i = Sq_Processing \<longleftrightarrow> si_claimed_at i \<noteq> None)"

definition sync_inv :: "(string \<Rightarrow> string) \<Rightarrow> sync_db \<Rightarrow> bool" where
  "sync_inv H db \<longleftrightarrow>
     distinct (map si_id (sd_items db))
     \<and> (\<forall>i \<in> set (sd_items db). si_id i < sd_next_id db)
     \<and> distinct (map (\<lambda>i. (si_inspector i, si_client_item_id i)) (sd_items db))
     \<and> (\<forall>i \<in> set (sd_items db). row_ok H i)"

lemma registry_actions:
  "map_of sync_registry t = Some ap \<Longrightarrow> a \<in> set (ap_actions ap) \<Longrightarrow> a \<in> {''CREATE'', ''UPDATE''}"
  by (auto simp: sync_registry_def split: if_splits)

lemma row_ok_new_item:
  assumes "enqueue_checks r = Inr u" "length (er_eid r) \<le> 64"
  shows "row_ok H (new_item H now ref pk user r)"
  using assms by (auto simp: enqueue_checks_Inr row_ok_def new_item_def)

lemma enqueue_InrE:
  assumes "enqueue H now ref user r db = Inr (item, created, db')"
  obtains (created) "created" "enqueue_checks r = Inr ()"
      "\<forall>i \<in> set (sd_items db). \<not> same_key user (er_client r) i" "length (er_eid r) \<le> 64"
      "item = new_item H now ref (sd_next_id db) user r"
      "db' = db\<lparr>sd_items := sd_items db @ [item], sd_next_id := Suc (sd_next_id db)\<rparr>"
  | (retry) "\<not> created" "enqueue_checks r = Inr ()" "db' = db" "item \<in> set (sd_items db)"
      "same_key user (er_client r) item" "si_payload_hash item = compute_payload_hash H (er_payload r)"
      "si_entity_type item = er_type r" "si_action item = er_act r"
proof -
  have chk: "enqueue_checks r = Inr ()"
    using assms by (auto simp: enqueue_def bind_r_Inr_iff)
  show thesis
  proof (cases "first_where (same_key user (er_client r)) (sd_items db)")
    case None
    with assms chk show ?thesis
      by (intro created) (auto simp: enqueue_def Let_def first_where_None split: if_splits)
  next
    case (Some i)
    with assms chk show ?thesis
      using first_where_Some [OF Some] by (intro retry) (auto simp: enqueue_def split: if_splits)
  qed
qed

lemma enqueue_inv:
  assumes "sync_inv H db" "enqueue H now ref user r db = Inr (item, created, db')"
  shows "sync_inv H db' \<and> item \<in> set (sd_items db')"
  using assms(2)
proof (cases rule: enqueue_InrE)
  case created
  then have "row_ok H item" using row_ok_new_item by blast
  moreover have "si_id item = sd_next_id db" "same_key user (er_client r) item"
    using created by (simp_all add: new_item_def same_key_def)
  moreover from this have "\<forall>j \<in> set (sd_items db).
      (si_inspector j, si_client_item_id j) \<noteq> (si_inspector item, si_client_item_id item)"
    using created(3) by (auto simp: same_key_def)
  moreover have "\<forall>j \<in> set (sd_items db). si_id j < Suc (sd_next_id db) \<and> si_id j \<noteq> si_id item"
    using assms(1) created(5) by (auto simp: sync_inv_def new_item_def)
  ultimately show ?thesis
    using assms(1) created(6) by (simp add: sync_inv_def image_iff) metis
next
  case retry
  with assms(1) show ?thesis by simp
qed

text \<open>The unique key has at most one row, and looking it up finds that row.\<close>

lemma first_where_key:
  assumes "sync_inv H db" "i \<in> set (sd_items db)" "same_key user cid i"
  shows "first_where (same_key user cid) (sd_items db) = Some i"
proof (cases "first_where (same_key user cid) (sd_items db)")
  case None
  with assms show ?thesis by (auto simp: first_where_None)
next
  case (Some j)
  then have "j \<in> set (sd_items db)" "same_key user cid j" by (auto dest: first_where_Some)
  moreover have "distinct (map (\<lambda>i. (si_inspector i, si_client_item_id i)) (sd_items db))"
    using assms(1) by (simp add: sync_inv_def)
  ultimately have "j = i"
    using assms(2,3) by (intro distinct_map_key [of "\<lambda>i. (si_inspector i, si_client_item_id i)" "sd_items db" j i]) (auto simp: same_key_def)
  with Some show ?thesis by simp
qed

section \<open>Claims\<close>

lemma claim_fst:
  assumes "distinct (map si_id items)" "i \<in> set items"
  shows "fst (claim cfg now ie (si_id i) items) \<longleftrightarrow> claim_condition cfg now ie i"
  using rows_where_key [OF assms, of "claim_condition cfg now ie"]
  by (simp add: claim_def Let_def)

lemma claim_preserves [table_simps]:
  "map si_id (snd (claim cfg now ie pk items)) = map si_id items"
  by (simp add: claim_def Let_def map_update_where)

lemma claim_then_save:
  assumes "\<And>i. f (i\<lparr>si_status := Sq_Processing, si_claimed_at := Some now, si_updated_at := now\<rparr>) = f i"
    "distinct (map si_id items)"
    "i \<in> set items" "claim_condition cfg now ie i"
  shows "save_row (si_id i) f (snd (claim cfg now ie (si_id i) items)) = save_row (si_id i) f items"
proof -
  have "r = i" if "r \<in> set items" "si_id r = si_id i" for r
    using that assms(2,3) by (auto dest: distinct_map_key)
  with assms(1,4) show ?thesis
    by (auto simp: claim_def Let_def save_row_def update_where_def)
qed

section \<open>The flush refines a plain replay\<close>

text \<open>
  The abstract flush knows nothing of claims: it applies the chosen items one after the
  other, and each ends with the message of its failure or with where it landed.
\<close>

fun replay :: "'w apply_fn \<Rightarrow> sync_item list \<Rightarrow> 'w \<Rightarrow> (sync_item \<times> (string + apply_result)) list \<times> 'w" where
  "replay app [] w = ([], w)"
| "replay app (i # is) w =
     (case apply_item app i w of
        Inl exc \<Rightarrow> (case replay app is w of (outs, w') \<Rightarrow> ((i, Inl (exception_message exc)) # outs, w'))
      | Inr (res, w1) \<Rightarrow> (case replay app is w1 of (outs, w') \<Rightarrow> ((i, Inr res) # outs, w')))"

fun settle_one :: "int \<Rightarrow> sync_item \<times> (string + apply_result) \<Rightarrow> sync_item list \<Rightarrow> sync_item list" where
  "settle_one now (i, Inl msg) items = mark_failed now msg i items"
| "settle_one now (i, Inr res) items =
     mark_synced now (ar_model_label res) (ar_target_id res) i items"

definition settle ::
    "int \<Rightarrow> (sync_item \<times> (string + apply_result)) list \<Rightarrow> sync_item list \<Rightarrow> sync_item list" where
  "settle now outs items = fold (settle_one now) outs items"

fun outcome_entry :: "sync_item \<times> (string + apply_result) \<Rightarrow> string \<times> sync_status \<times> string" where
  "outcome_entry (i, Inl msg) = (si_reference i, Sq_Failed, take 2000 msg)"
| "outcome_entry (i, Inr res) = (si_reference i, Sq_Synced, [])"

fun outcome_ok :: "sync_item \<times> (string + apply_result) \<Rightarrow> bool" where
  "outcome_ok (i, Inl msg) = False"
| "outcome_ok (i, Inr res) = True"

definition add_outcomes :: "flush \<Rightarrow> (sync_item \<times> (string + apply_result)) list \<Rightarrow> flush" where
  "add_outcomes fl outs =
     \<lparr>fl_processed = fl_processed fl + length outs,
      fl_synced = fl_synced fl + length (filter outcome_ok outs),
      fl_failed = fl_failed fl + length (filter (\<lambda>p. \<not> outcome_ok p) outs),
      fl_skipped = fl_skipped fl,
      fl_applied = fl_applied fl @ map outcome_entry outs\<rparr>"

lemma replay_fst: "map fst (fst (replay app is w)) = is"
  by (induction "is" arbitrary: w) (auto split: sum.splits prod.splits, (metis fst_conv)+)

lemma save_row_other [table_simps]:
  "(\<And>i. si_id (f i) = si_id i) \<Longrightarrow> x \<in> set (save_row pk f items) \<Longrightarrow> si_id x \<noteq> pk \<Longrightarrow> x \<in> set items"
  by (auto simp: save_row_def elim!: in_update_whereE)

lemma save_row_keeps_other:
  "x \<in> set items \<Longrightarrow> si_id x \<noteq> pk \<Longrightarrow> x \<in> set (save_row pk f items)"
  by (auto simp: save_row_def set_update_where)

lemma mark_ids [simp]:
  "map si_id (mark_failed now msg i items) = map si_id items"
  "map si_id (mark_synced now m t i items) = map si_id items"
  by (simp_all add: mark_failed_def mark_synced_def save_row_def map_update_where)

lemma settle_one_ids [simp]: "map si_id (settle_one now out items) = map si_id items"
  by (cases "(now, out, items)" rule: settle_one.cases) auto

lemma settle_one_keeps:
  "x \<in> set items \<Longrightarrow> si_id x \<noteq> si_id (fst out) \<Longrightarrow> x \<in> set (settle_one now out items)"
  by (cases "(now, out, items)" rule: settle_one.cases)
    (auto simp: mark_failed_def mark_synced_def intro: save_row_keeps_other)

lemma process_one_eq:
  assumes "distinct (map si_id items)" "i \<in> set items" "claim_condition cfg now ie i"
  shows "process_one cfg now ie app i (fl, items, w) =
     (case replay app [i] w of (outs, w') \<Rightarrow>
        (add_outcomes fl outs, settle now outs items, w'))"
proof -
  obtain items1 where claim: "claim cfg now ie (si_id i) items = (True, items1)"
    using claim_fst [OF assms(1,2)] assms(3) by (metis prod.collapse)
  have "mark_failed now msg i items1 = mark_failed now msg i items"
    and "mark_synced now m t i items1 = mark_synced now m t i items" for msg m t
    using claim_then_save [OF _ assms] claim by (simp_all add: mark_failed_def mark_synced_def)
  with claim show ?thesis
    by (auto simp: process_one_def Let_def add_outcomes_def settle_def split: sum.splits)
qed

lemma settle_Cons: "settle now (p # outs) items = settle now outs (settle_one now p items)"
  by (simp add: settle_def)

lemma add_outcomes_Cons:
  "add_outcomes (add_outcomes fl [p]) outs = add_outcomes fl (p # outs)"
  by (simp add: add_outcomes_def)

lemma replay_single: "\<exists>p. fst (replay app [i] w) = [p] \<and> fst p = i"
  by (auto split: sum.splits)

lemma replay_Cons:
  "replay app (i # is) w =
     (case replay app [i] w of (outs1, w1) \<Rightarrow> case replay app is w1 of (outs, w') \<Rightarrow> (outs1 @ outs, w'))"
  by (auto split: sum.splits prod.splits)

lemma fold_process_one:
  assumes "distinct (map si_id items)" "distinct (map si_id todo)" "set todo \<subseteq> set items"
    "\<forall>i \<in> set todo. claim_condition cfg now ie i"
  shows "fold (process_one cfg now ie app) todo (fl, items, w) =
     (case replay app todo w of (outs, w') \<Rightarrow> (add_outcomes fl outs, settle now outs items, w'))"
  using assms
proof (induction todo arbitrary: fl items w)
  case Nil
  then show ?case by (simp add: add_outcomes_def settle_def)
next
  case (Cons i todo)
  obtain p w1 where rep: "replay app [i] w = ([p], w1)" and p: "fst p = i"
    using replay_single [of app i w] by (metis prod.collapse)
  let ?items1 = "settle_one now p items"
  have "set todo \<subseteq> set ?items1"
  proof
    fix x assume "x \<in> set todo"
    with Cons.prems p show "x \<in> set ?items1"
      by (intro settle_one_keeps) (auto simp: image_iff)
  qed
  then have IH: "fold (process_one cfg now ie app) todo (add_outcomes fl [p], ?items1, w1) =
     (case replay app todo w1 of (outs, w') \<Rightarrow>
        (add_outcomes (add_outcomes fl [p]) outs, settle now outs ?items1, w'))"
    using Cons.prems by (intro Cons.IH) simp_all
  have "process_one cfg now ie app i (fl, items, w) = (add_outcomes fl [p], ?items1, w1)"
    using process_one_eq [of items i cfg now ie app fl w] Cons.prems rep by (simp add: settle_def)
  with IH show ?case
    unfolding replay_Cons [of app i todo w] rep
    by (simp add: add_outcomes_Cons settle_Cons split: prod.splits)
qed

lemma claimable_props:
  assumes "distinct (map si_id items)"
  shows "distinct (map si_id (take n (claimable cfg now user ie items)))"
    and "set (take n (claimable cfg now user ie items))
       \<subseteq> {i \<in> set items. si_inspector i = user \<and> claim_condition cfg now ie i}"
proof -
  have "distinct (map si_id (claimable cfg now user ie items))"
    using assms by (auto simp: claimable_def distinct_map intro: inj_on_subset)
  then show "distinct (map si_id (take n (claimable cfg now user ie items)))"
    by (simp add: take_map [symmetric])
  show "set (take n (claimable cfg now user ie items))
       \<subseteq> {i \<in> set items. si_inspector i = user \<and> claim_condition cfg now ie i}"
    by (auto simp: claimable_def dest!: in_set_takeD)
qed

lemma process_eq_replay:
  assumes "distinct (map si_id items)"
  shows "process cfg now app user limit ie items w =
    (case replay app (take (flush_limit limit) (claimable cfg now user ie items)) w of
       (outs, w') \<Rightarrow> (add_outcomes empty_flush outs,
          length (claimable cfg now user ie (settle now outs items)), settle now outs items, w'))"
proof -
  let ?todo = "take (flush_limit limit) (claimable cfg now user ie items)"
  have "set ?todo \<subseteq> set items" "\<forall>i \<in> set ?todo. claim_condition cfg now ie i"
    using claimable_props(2) [OF assms, of "flush_limit limit" cfg now user ie] by auto
  then have "fold (process_one cfg now ie app) ?todo (empty_flush, items, w) =
      (case replay app ?todo w of (outs, w') \<Rightarrow> (add_outcomes empty_flush outs, settle now outs items, w'))"
    by (rule fold_process_one [OF assms claimable_props(1) [OF assms]])
  then show ?thesis by (simp add: process_def split: prod.splits)
qed

section \<open>What a flush leaves of the journal\<close>

lemma mark_failed_row_ok:
  assumes "\<forall>r \<in> set items. row_ok H r" "x \<in> set (mark_failed now msg i items)"
    "si_status i \<noteq> Sq_Synced" "distinct (map si_id items)" "i \<in> set items"
  shows "row_ok H x"
proof -
  have "r = i" if "r \<in> set items" "si_id r = si_id i" for r
    using that assms(4,5) by (auto dest: distinct_map_key)
  note same = this
  have ok: "row_ok H i" using assms(1,5) by blast
  from assms(2) show ?thesis
    unfolding mark_failed_def save_row_def
  proof (cases rule: in_update_whereE)
    case (1 r)
    then have "r = i" using same by blast
    with 1(3) ok assms(3) show ?thesis by (simp add: row_ok_def)
  next
    case 2
    with assms(1) show ?thesis by blast
  qed
qed

lemma mark_synced_row_ok:
  assumes "\<forall>r \<in> set items. row_ok H r" "x \<in> set (mark_synced now m t i items)"
  shows "row_ok H x"
  using assms by (auto simp: mark_synced_def save_row_def row_ok_def elim!: in_update_whereE)

lemma settle_one_row_ok:
  assumes "\<forall>r \<in> set items. row_ok H r" "x \<in> set (settle_one now p items)"
    "si_status (fst p) \<noteq> Sq_Synced" "distinct (map si_id items)" "fst p \<in> set items"
  shows "row_ok H x"
  using assms by (cases "(now, p, items)" rule: settle_one.cases)
    (auto intro: mark_failed_row_ok mark_synced_row_ok)

lemma settle_row_ok:
  assumes "\<forall>r \<in> set items. row_ok H r" "distinct (map si_id items)"
    "distinct (map (si_id \<circ> fst) outs)" "fst ` set outs \<subseteq> set items"
    "\<forall>p \<in> set outs. si_status (fst p) \<noteq> Sq_Synced"
  shows "\<forall>x \<in> set (settle now outs items). row_ok H x"
  using assms
proof (induction outs arbitrary: items)
  case Nil
  then show ?case by (simp add: settle_def)
next
  case (Cons p outs)
  have "\<forall>x \<in> set (settle_one now p items). row_ok H x"
    using settle_one_row_ok [OF Cons.prems(1)] Cons.prems(2,4,5) by simp
  moreover have "fst ` set outs \<subseteq> set (settle_one now p items)"
  proof
    fix x assume x: "x \<in> fst ` set outs"
    then have "si_id x \<noteq> si_id (fst p)" using Cons.prems(3) by (auto simp: image_iff)
    with x Cons.prems(4) show "x \<in> set (settle_one now p items)"
      by (intro settle_one_keeps) auto
  qed
  ultimately show ?case
    unfolding settle_Cons using Cons.prems by (intro Cons.IH) simp_all
qed

text \<open>Columns no flush writes, and rows a flush did not choose.\<close>

definition si_frame :: "sync_item \<Rightarrow> nat \<times> nat \<times> string \<times> string \<times> string \<times> string \<times> json \<times> string \<times> int" where
  "si_frame i = (si_id i, si_inspector i, si_client_item_id i, si_entity_type i, si_entity_id i,
     si_action i, si_payload i, si_payload_hash i, si_queued_at i)"

lemma settle_one_frame [simp]: "map si_frame (settle_one now p items) = map si_frame items"
  by (cases "(now, p, items)" rule: settle_one.cases)
    (simp_all add: mark_failed_def mark_synced_def save_row_def map_update_where si_frame_def)

lemma settle_frame [simp]: "map si_frame (settle now outs items) = map si_frame items"
  by (induction outs arbitrary: items) (simp_all add: settle_def)

lemma settle_keeps:
  "x \<in> set items \<Longrightarrow> si_id x \<notin> set (map (si_id \<circ> fst) outs) \<Longrightarrow> x \<in> set (settle now outs items)"
  by (induction outs arbitrary: items) (auto simp: settle_def settle_one_keeps)

lemma map_frameD:
  "map si_frame xs = map si_frame ys \<Longrightarrow> map (g \<circ> si_frame) xs = map (g \<circ> si_frame) ys"
  by (metis map_map)

lemma frame_ids:
  assumes "map si_frame xs = map si_frame ys"
  shows "map si_id xs = map si_id ys"
    and "map (\<lambda>i. (si_inspector i, si_client_item_id i)) xs
       = map (\<lambda>i. (si_inspector i, si_client_item_id i)) ys"
  using map_frameD [OF assms, of fst] map_frameD [OF assms, of "\<lambda>(_, u, c, _). (u, c)"]
  by (simp_all add: comp_def si_frame_def)

lemma claimable_not_synced: "claim_condition cfg now ie i \<Longrightarrow> si_status i \<noteq> Sq_Synced"
  by (auto simp: claim_condition_def)

lemma process_inv:
  assumes "sync_inv H db" "process cfg now app user limit ie (sd_items db) w = (fl, rest, items', w')"
  shows "sync_inv H (db\<lparr>sd_items := items'\<rparr>)"
proof -
  let ?todo = "take (flush_limit limit) (claimable cfg now user ie (sd_items db))"
  obtain outs where outs: "replay app ?todo w = (outs, w')" and items': "items' = settle now outs (sd_items db)"
    using assms process_eq_replay [of "sd_items db" cfg now app user limit ie w]
    by (auto simp: sync_inv_def split: prod.splits)
  have fst_outs: "map fst outs = ?todo" using replay_fst [of app ?todo w] outs by simp
  have props: "distinct (map si_id ?todo)"
    "set ?todo \<subseteq> {i \<in> set (sd_items db). si_inspector i = user \<and> claim_condition cfg now ie i}"
    using assms(1) by (simp_all add: claimable_props sync_inv_def)
  have frame: "map si_frame items' = map si_frame (sd_items db)" by (simp add: items')
  have todo: "fst ` set outs = set ?todo" using fst_outs by (metis set_map)
  with props(2) have sub: "fst ` set outs \<subseteq> set (sd_items db)" by auto
  have ns: "\<forall>p \<in> set outs. si_status (fst p) \<noteq> Sq_Synced"
  proof
    fix p assume "p \<in> set outs"
    with todo have "fst p \<in> set ?todo" by (metis imageI)
    with props(2) show "si_status (fst p) \<noteq> Sq_Synced" by (auto dest: claimable_not_synced)
  qed
  have "\<forall>x \<in> set items'. row_ok H x"
    unfolding items'
    using assms(1) props(1) fst_outs sub ns
    by (intro settle_row_ok) (auto simp: sync_inv_def simp flip: map_map)
  moreover have "\<forall>i \<in> set items'. si_id i < sd_next_id db"
    using frame_ids(1) [OF frame] assms(1) unfolding sync_inv_def
    by (metis (no_types, lifting) image_eqI image_iff list.set_map)
  ultimately show ?thesis
    using assms(1) frame_ids [OF frame] by (simp add: sync_inv_def)
qed

section \<open>Shared facts of the properties\<close>

lemma sync_inv_distinct: "sync_inv H db \<Longrightarrow> distinct (map si_id (sd_items db))"
  by (simp add: sync_inv_def)

lemma process_eq_replayE:
  assumes "sync_inv H db" "process cfg now app user limit ie (sd_items db) w = (fl, rest, items', w')"
  obtains outs where
    "replay app (take (flush_limit limit) (claimable cfg now user ie (sd_items db))) w = (outs, w')"
    "map fst outs = take (flush_limit limit) (claimable cfg now user ie (sd_items db))"
    "items' = settle now outs (sd_items db)" "fl = add_outcomes empty_flush outs"
proof -
  obtain outs w1 where rep:
    "replay app (take (flush_limit limit) (claimable cfg now user ie (sd_items db))) w = (outs, w1)"
    by (metis prod.collapse)
  moreover from this have "map fst outs = take (flush_limit limit) (claimable cfg now user ie (sd_items db))"
    by (metis fst_conv replay_fst)
  ultimately show thesis
    using that process_eq_replay [OF sync_inv_distinct [OF assms(1)], of cfg now app user limit ie w] assms(2)
    by simp
qed

lemma frame_mem:
  assumes "map si_frame xs = map si_frame ys" "x \<in> set xs"
  obtains y where "y \<in> set ys" "si_frame y = si_frame x"
  using assms by (metis (no_types, lifting) image_iff list.set_map)

lemma process_frame:
  assumes "sync_inv H db" "process cfg now app user limit ie (sd_items db) w = (fl, rest, items', w')"
  shows "map si_frame items' = map si_frame (sd_items db)"
  using assms by (rule process_eq_replayE) simp

lemma enqueue_on_existing:
  assumes "sync_inv H db" "enqueue_checks r = Inr ()"
    "item \<in> set (sd_items db)" "same_key user (er_client r) item"
  shows "enqueue H now ref user r db =
     (if si_payload_hash item \<noteq> compute_payload_hash H (er_payload r)
      then Inl (DifferentPayload (er_client r))
      else if si_entity_type item \<noteq> er_type r \<or> si_action item \<noteq> er_act r
      then Inl (DifferentOperation (er_client r) (si_entity_type item) (si_action item))
      else Inr (item, False, db))"
  using assms(2) first_where_key [OF assms(1,3,4)] by (simp add: enqueue_def)

lemma flush_counts:
  "length (filter outcome_ok outs) + length (filter (\<lambda>p. \<not> outcome_ok p) outs) = length outs"
  by (rule sum_length_filter_compl)

lemma length_replay: "length (fst (replay app is w)) = length is"
  by (metis length_map replay_fst)

lemma settle_one_retry:
  assumes "x \<in> set (settle_one now p items)"
  shows "x \<in> set items \<or> si_retry_count x = si_retry_count (fst p) + 1
     \<or> (\<exists>r \<in> set items. si_retry_count x = si_retry_count r)"
  using assms by (cases "(now, p, items)" rule: settle_one.cases)
    (auto simp: mark_failed_def mark_synced_def save_row_def elim!: in_update_whereE)

definition retry_capped :: "sync_settings \<Rightarrow> sync_item \<Rightarrow> bool" where
  "retry_capped cfg i \<longleftrightarrow>
     int (si_retry_count i) \<le> ss_max_retries cfg
     \<and> (si_status i \<in> {Sq_Pending, Sq_Processing} \<longrightarrow> int (si_retry_count i) < ss_max_retries cfg)"

lemma settle_one_capped:
  assumes "\<forall>i \<in> set items. retry_capped cfg i" "int (si_retry_count (fst p)) < ss_max_retries cfg"
    "x \<in> set (settle_one now p items)"
  shows "retry_capped cfg x"
  using assms by (cases "(now, p, items)" rule: settle_one.cases)
    (auto simp: mark_failed_def mark_synced_def save_row_def retry_capped_def elim!: in_update_whereE)

lemma settle_capped:
  assumes "\<forall>i \<in> set items. retry_capped cfg i"
    "\<forall>p \<in> set outs. int (si_retry_count (fst p)) < ss_max_retries cfg"
  shows "\<forall>x \<in> set (settle now outs items). retry_capped cfg x"
  using assms
proof (induction outs arbitrary: items)
  case Nil
  then show ?case by (simp add: settle_def)
next
  case (Cons p outs)
  have "\<forall>x \<in> set (settle_one now p items). retry_capped cfg x"
    using settle_one_capped [OF Cons.prems(1), of p] Cons.prems(2) by simp
  with Cons show ?case by (simp add: settle_Cons)
qed

lemma chosen_row:
  assumes "sync_inv H db"
    and "i \<in> set (take n (claimable cfg now user ie (sd_items db)))"
  shows "i \<in> set (sd_items db)" "si_inspector i = user" "claim_condition cfg now ie i"
  using claimable_props(2) [OF sync_inv_distinct [OF assms(1)], of n cfg now user ie] assms(2) by auto

lemma settle_keeps_unchosen:
  assumes "sync_inv H db" "map fst outs = take n (claimable cfg now user ie (sd_items db))"
    and "i \<in> set (sd_items db)" "si_inspector i \<noteq> user \<or> \<not> claim_condition cfg now ie i"
  shows "i \<in> set (settle t outs (sd_items db))"
proof (rule settle_keeps [OF assms(3)])
  show "si_id i \<notin> set (map (si_id \<circ> fst) outs)"
  proof
    assume "si_id i \<in> set (map (si_id \<circ> fst) outs)"
    then have "si_id i \<in> si_id ` set (take n (claimable cfg now user ie (sd_items db)))"
      using assms(2) by (metis image_set map_map)
    then obtain j where j: "j \<in> set (take n (claimable cfg now user ie (sd_items db)))" "si_id j = si_id i"
      by auto
    have "j = i"
      using distinct_map_key [OF sync_inv_distinct [OF assms(1)] _ assms(3)] j chosen_row [OF assms(1) j(1)] by blast
    with chosen_row [OF assms(1) j(1)] assms(4) show False by simp
  qed
qed

section \<open>Properties\<close>

text \<open>
  C5. Enqueueing is idempotent. Once a request has been accepted, sending it again is a
  retry of the same row whatever a flush did to the row in the meantime: the journal is
  unchanged and the answer says nothing was created.
\<close>

theorem enqueue_idempotent:
  assumes "sync_inv H db" "enqueue H now ref user r db = Inr (item, created, db1)"
    and "process cfg now1 app user1 limit ie (sd_items db1) w = (fl, rest, items2, w2)"
  shows "\<exists>item2. enqueue H now2 ref2 user r (db1\<lparr>sd_items := items2\<rparr>)
            = Inr (item2, False, db1\<lparr>sd_items := items2\<rparr>) \<and> si_frame item2 = si_frame item"
proof -
  have inv1: "sync_inv H db1" and mem: "item \<in> set (sd_items db1)"
    using enqueue_inv assms(1,2) by blast+
  have chk: "enqueue_checks r = Inr ()" and key: "same_key user (er_client r) item"
    and same: "si_payload_hash item = compute_payload_hash H (er_payload r)"
      "si_entity_type item = er_type r" "si_action item = er_act r"
    using assms(2) by (cases rule: enqueue_InrE; simp add: new_item_def same_key_def)+
  obtain item2 where mem2: "item2 \<in> set items2" and fr: "si_frame item2 = si_frame item"
    using frame_mem [OF process_frame [OF inv1 assms(3), symmetric] mem] .
  have "same_key user (er_client r) item2" "si_payload_hash item2 = si_payload_hash item"
    "si_entity_type item2 = si_entity_type item" "si_action item2 = si_action item"
    using fr key by (simp_all add: si_frame_def same_key_def)
  then show ?thesis
    using enqueue_on_existing [OF process_inv [OF inv1 assms(3)] chk, of item2 user] mem2 fr same
    by auto
qed

text \<open>
  C3. A reused key with other content never overwrites. Against a journal that already has
  a row under the key, a well-formed request is a retry exactly when it repeats the content
  (up to the order of keys) and the operation of that row; otherwise it is refused with 409
  and no journal is returned, so the stored row stays. The only assumption on the digest is
  that it tells these two payloads apart.
\<close>

theorem enqueue_conflict:
  assumes "sync_inv H db" "enqueue_checks r = Inr ()"
    and "item \<in> set (sd_items db)" "same_key user (er_client r) item"
    and "wf_json (si_payload item)" "wf_json (er_payload r)"
    and "inj_on H {canonical_json (si_payload item), canonical_json (er_payload r)}"
  shows "if json_norm (si_payload item) = json_norm (er_payload r)
            \<and> si_entity_type item = er_type r \<and> si_action item = er_act r
         then enqueue H now ref user r db = Inr (item, False, db)
         else \<exists>e. enqueue H now ref user r db = Inl e \<and> sync_error_status e = 409"
proof -
  have "si_payload_hash item = compute_payload_hash H (si_payload item)"
    using assms(1,3) by (simp add: sync_inv_def row_ok_def)
  moreover have "compute_payload_hash H (si_payload item) = compute_payload_hash H (er_payload r)
      \<longleftrightarrow> json_norm (si_payload item) = json_norm (er_payload r)"
    using inj_on_eq_iff [OF assms(7)] canonical_json_eq_iff [OF assms(5,6)]
    by (simp add: compute_payload_hash_def)
  ultimately show ?thesis using enqueue_on_existing [OF assms(1-4)] by auto
qed

text \<open>
  C4. The journal's invariant: keys are unique, identifiers only grow, every row holds the
  digest of its own payload, and every row is one the server can apply (its type and action
  are in the registry and its payload passed that type's check; never a DELETE). Every
  enqueue and every flush keeps it.
\<close>

theorem journal_invariant:
  assumes "sync_inv H db"
  shows "(enqueue H now ref user r db = Inr (item, created, db1) \<longrightarrow>
            sync_inv H db1 \<and> si_action item \<in> {''CREATE'', ''UPDATE''})
    \<and> (process cfg now app user limit ie (sd_items db) w = (fl, rest, items', w') \<longrightarrow>
            sync_inv H (db\<lparr>sd_items := items'\<rparr>))"
proof (intro conjI impI)
  assume "enqueue H now ref user r db = Inr (item, created, db1)"
  then have "sync_inv H db1 \<and> item \<in> set (sd_items db1)" by (rule enqueue_inv [OF assms])
  moreover from this have "row_ok H item" by (simp add: sync_inv_def)
  then have "si_action item \<in> {''CREATE'', ''UPDATE''}"
    using registry_actions unfolding row_ok_def by blast
  ultimately show "sync_inv H db1" "si_action item \<in> {''CREATE'', ''UPDATE''}" by simp_all
qed (rule process_inv [OF assms])

text \<open>
  C2. A flush refines the plain replay of the oldest claimable rows: run alone, no claim is
  lost, so it applies exactly the first \<open>limit\<close> claimable rows in capture order, one
  after the other on the same world, and every row ends with the outcome of its own apply.
\<close>

theorem process_refines_replay:
  assumes "sync_inv H db"
  shows "process cfg now app user limit ie (sd_items db) w =
    (case replay app (take (flush_limit limit) (claimable cfg now user ie (sd_items db))) w of
       (outs, w') \<Rightarrow> (add_outcomes empty_flush outs,
          length (claimable cfg now user ie (settle now outs (sd_items db))),
          settle now outs (sd_items db), w'))"
  by (rule process_eq_replay [OF sync_inv_distinct [OF assms]])

text \<open>
  A flush loses nothing and touches nothing it did not choose: between 1 and 200 rows
  are taken, the counters add up, no row disappears or changes identity, owner, key,
  operation or payload, and a row that is already synced, another inspector's, or not
  claimable is the same row afterwards.
\<close>

theorem flush_accounting:
  assumes "sync_inv H db" "process cfg now app user limit ie (sd_items db) w = (fl, rest, items', w')"
  shows "fl_processed fl = fl_synced fl + fl_failed fl \<and> fl_skipped fl = 0
    \<and> fl_processed fl = min (flush_limit limit) (length (claimable cfg now user ie (sd_items db)))
    \<and> fl_processed fl \<le> 200 \<and> length (fl_applied fl) = fl_processed fl
    \<and> map si_frame items' = map si_frame (sd_items db)
    \<and> {i \<in> set (sd_items db). si_inspector i \<noteq> user \<or> \<not> claim_condition cfg now ie i} \<subseteq> set items'"
proof -
  obtain outs where out: "map fst outs = take (flush_limit limit) (claimable cfg now user ie (sd_items db))"
    and items': "items' = settle now outs (sd_items db)" and fl: "fl = add_outcomes empty_flush outs"
    using assms by (rule process_eq_replayE)
  have "length outs = min (flush_limit limit) (length (claimable cfg now user ie (sd_items db)))"
    using arg_cong [OF out, of length] by (simp add: min.commute)
  moreover have "flush_limit limit \<le> 200" by (simp add: flush_limit_def)
  moreover have "{i \<in> set (sd_items db). si_inspector i \<noteq> user \<or> \<not> claim_condition cfg now ie i} \<subseteq> set items'"
    using settle_keeps_unchosen [OF assms(1) out] by (auto simp: items')
  ultimately show ?thesis
    using flush_counts [of outs] process_frame [OF assms]
    by (simp add: fl add_outcomes_def empty_flush_def)
qed

text \<open>
  The report lists the rows that used up their retries, up to fifty of them and the oldest
  first.
\<close>

lemma exhausted_listed:
  assumes "i \<in> set items" "si_exhausted cfg i"
  shows "i \<in> set (qs_exhausted (queue_status cfg (si_inspector i) n items))
    \<or> (length (qs_exhausted (queue_status cfg (si_inspector i) n items)) = n
        \<and> (\<forall>j \<in> set (qs_exhausted (queue_status cfg (si_inspector i) n items)).
              si_queued_at j \<le> si_queued_at i))"
proof -
  let ?l = "sort_key si_queued_at (filter (si_exhausted cfg)
    (filter (\<lambda>j. si_inspector j = si_inspector i) items))"
  have q: "qs_exhausted (queue_status cfg (si_inspector i) n items) = take n ?l"
    by (simp add: queue_status_def Let_def)
  have "i \<in> set ?l" using assms by simp
  then have split: "i \<in> set (take n ?l) \<or> i \<in> set (drop n ?l)"
    by (metis UnE append_take_drop_id set_append)
  have "sorted (map si_queued_at (take n ?l) @ map si_queued_at (drop n ?l))"
    unfolding map_append [symmetric] append_take_drop_id by (rule sorted_sort_key)
  then have ord: "si_queued_at j \<le> si_queued_at i" if "j \<in> set (take n ?l)" "i \<in> set (drop n ?l)" for j
    using that by (auto simp: sorted_append)
  have "length (take n ?l) = n" if "i \<in> set (drop n ?l)"
  proof -
    have "drop n ?l \<noteq> []" using that by auto
    then show ?thesis by (simp add: min_absorb2)
  qed
  with split ord show ?thesis unfolding q by blast
qed

lemma exhausted_counted:
  "length (filter (\<lambda>j. si_inspector j = user \<and> si_exhausted cfg j) items)
     \<le> qs_failed (queue_status cfg user n items)"
  by (induction items) (auto simp: queue_status_def Let_def rows_where_def si_exhausted_def)

text \<open>How an attempt changes the retries of a row of the journal.\<close>

definition retry_step :: "sync_settings \<Rightarrow> int \<Rightarrow> sync_item \<Rightarrow> sync_item \<Rightarrow> bool" where
  "retry_step cfg now j i \<longleftrightarrow>
     si_id i = si_id j
     \<and> (si_retry_count i = si_retry_count j
        \<or> (si_status i = Sq_Failed \<and> si_retry_count i = si_retry_count j + 1
           \<and> claim_condition cfg now False j))"

lemma settle_one_row:
  assumes "x \<in> set (settle_one now p items)"
  shows "x \<in> set items \<or> (\<exists>r \<in> set items. si_id x = si_id r \<and> si_id r = si_id (fst p)
     \<and> (si_retry_count x = si_retry_count r
        \<or> (si_status x = Sq_Failed \<and> si_retry_count x = si_retry_count (fst p) + 1)))"
  using assms by (cases "(now, p, items)" rule: settle_one.cases)
    (force simp: mark_failed_def mark_synced_def save_row_def elim!: in_update_whereE)+

lemma settle_rows:
  assumes "distinct (map si_id items)" "distinct (map (si_id \<circ> fst) outs)"
    and "\<forall>p \<in> set outs. fst p \<in> set items" "x \<in> set (settle now outs items)"
  shows "\<exists>r \<in> set items. si_id x = si_id r
     \<and> (si_retry_count x = si_retry_count r
        \<or> (si_status x = Sq_Failed \<and> si_retry_count x = si_retry_count r + 1
            \<and> r \<in> set (map fst outs)))"
  using assms
proof (induction outs arbitrary: x rule: rev_induct)
  case Nil
  then show ?case by (auto simp: settle_def)
next
  case (snoc p outs)
  let ?s = "settle now outs items"
  have ids: "map si_id ?s = map si_id items"
    by (rule frame_ids(1) [OF settle_frame])
  have "x \<in> set (settle_one now p ?s)" using snoc.prems(4) by (simp add: settle_def)
  from settle_one_row [OF this] show ?case
  proof
    assume "x \<in> set ?s"
    with snoc.IH [of x] snoc.prems show ?thesis by auto
  next
    assume "\<exists>r \<in> set ?s. si_id x = si_id r \<and> si_id r = si_id (fst p)
     \<and> (si_retry_count x = si_retry_count r
        \<or> (si_status x = Sq_Failed \<and> si_retry_count x = si_retry_count (fst p) + 1))"
    then obtain r where r: "r \<in> set ?s" "si_id x = si_id r" "si_id r = si_id (fst p)"
      "si_retry_count x = si_retry_count r
        \<or> (si_status x = Sq_Failed \<and> si_retry_count x = si_retry_count (fst p) + 1)" by blast
    have p: "fst p \<in> set items" using snoc.prems(3) by simp
    have "si_id (fst p) \<notin> set (map (si_id \<circ> fst) outs)" using snoc.prems(2) by auto
    then have "fst p \<in> set ?s" using settle_keeps [OF p] by simp
    then have "r = fst p"
      using distinct_map_key [of si_id ?s r "fst p"] r snoc.prems(1) ids by metis
    with r p show ?thesis by auto
  qed
qed


section \<open>Witnesses\<close>

text \<open>
  An inspector queues one inspection on an empty journal and flushes it with an applier
  that always lands; the digest of the example leaves its text as it is.
\<close>

definition demo_request :: enqueue_request where
  "demo_request = \<lparr>er_client_item_id = Some '' k1 '', er_entity_type = Some ''inspection'',
     er_action = Some ''create'', er_payload = JObj [(''project'', JStr ''p1''), (''inspection_type'', JStr ''t'')],
     er_entity_id = None\<rparr>"

definition demo_db0 :: sync_db where
  "demo_db0 = \<lparr>sd_items = [], sd_next_id = 1\<rparr>"

definition demo_item :: sync_item where
  "demo_item = new_item (\<lambda>s. s) 10 ''r1'' 1 7 demo_request"

definition demo_db1 :: sync_db where
  "demo_db1 = \<lparr>sd_items = [demo_item], sd_next_id = 2\<rparr>"

definition demo_apply :: "nat apply_fn" where
  "demo_apply i w = Inr (\<lparr>ar_model_label = ''inspections.Inspection'', ar_target_id = ''x''\<rparr>, Suc w)"

definition demo_flush :: "flush \<times> nat \<times> sync_item list \<times> nat" where
  "demo_flush = process default_sync_settings 20 demo_apply 7 0 False (sd_items demo_db1) 0"

lemma demo_checks: "enqueue_checks demo_request = Inr ()"
  by code_simp

lemma demo_enqueue: "enqueue (\<lambda>s. s) 10 ''r1'' 7 demo_request demo_db0 = Inr (demo_item, True, demo_db1)"
proof -
  have "er_eid demo_request = []" by code_simp
  then show ?thesis
    by (simp add: enqueue_def demo_checks demo_db0_def demo_db1_def demo_item_def Let_def first_where_def)
qed

lemma demo_inv0: "sync_inv (\<lambda>s. s) demo_db0"
  by (simp add: sync_inv_def demo_db0_def)

lemma demo_inv1: "sync_inv (\<lambda>s. s) demo_db1"
  using enqueue_inv [OF demo_inv0 demo_enqueue] by blast

lemma demo_flush_eq:
  "process default_sync_settings 20 demo_apply 7 0 False (sd_items demo_db1) 0
   = (fst demo_flush, fst (snd demo_flush), fst (snd (snd demo_flush)), snd (snd (snd demo_flush)))"
  by (simp add: demo_flush_def)

lemma demo_key: "same_key 7 (er_client demo_request) demo_item"
  by (simp add: demo_item_def new_item_def same_key_def)

theorem enqueue_idempotent_witness:
  "\<exists>item2. enqueue (\<lambda>s. s) 30 ''r2'' 7 demo_request (demo_db1\<lparr>sd_items := fst (snd (snd demo_flush))\<rparr>)
     = Inr (item2, False, demo_db1\<lparr>sd_items := fst (snd (snd demo_flush))\<rparr>)
     \<and> si_frame item2 = si_frame demo_item"
  by (rule enqueue_idempotent [OF demo_inv0 demo_enqueue demo_flush_eq])

definition demo_other :: enqueue_request where
  "demo_other = demo_request\<lparr>er_payload := JObj [(''inspection_type'', JStr ''t''), (''project'', JStr ''p2'')]\<rparr>"

theorem enqueue_conflict_witness:
  "\<exists>e. enqueue (\<lambda>s. s) 30 ''r2'' 7 demo_other demo_db1 = Inl e \<and> sync_error_status e = 409"
proof -
  have "enqueue_checks demo_other = Inr ()" by code_simp
  moreover have "demo_item \<in> set (sd_items demo_db1)" by (simp add: demo_db1_def)
  moreover have "same_key 7 (er_client demo_other) demo_item"
    using demo_key by (simp add: demo_other_def er_client_def)
  moreover have "wf_json (si_payload demo_item)" "wf_json (er_payload demo_other)"
    by (simp_all add: demo_item_def new_item_def demo_request_def demo_other_def)
  moreover have "json_norm (si_payload demo_item) \<noteq> json_norm (er_payload demo_other)"
    by code_simp
  ultimately show ?thesis
    using enqueue_conflict [OF demo_inv1, of demo_other demo_item 7 30 "''r2''"] by simp
qed

theorem journal_invariant_witness:
  "sync_inv (\<lambda>s. s) demo_db1 \<and> sync_inv (\<lambda>s. s) (demo_db1\<lparr>sd_items := fst (snd (snd demo_flush))\<rparr>)"
proof -
  have 1: "sync_inv (\<lambda>s. s) demo_db1"
    using journal_invariant [OF demo_inv0, THEN conjunct1, THEN mp, OF demo_enqueue] by simp
  with journal_invariant [OF this, THEN conjunct2, THEN mp, OF demo_flush_eq] show ?thesis by simp
qed

theorem process_refines_replay_witness:
  "snd (snd (snd demo_flush)) = 1 \<and>
   process default_sync_settings 20 demo_apply 7 0 False (sd_items demo_db1) 0 =
    (case replay demo_apply (take (flush_limit 0) (claimable default_sync_settings 20 7 False (sd_items demo_db1))) 0 of
       (outs, w') \<Rightarrow> (add_outcomes empty_flush outs,
          length (claimable default_sync_settings 20 7 False (settle 20 outs (sd_items demo_db1))),
          settle 20 outs (sd_items demo_db1), w'))"
proof -
  have "snd (snd (snd demo_flush)) = 1" by code_simp
  with process_refines_replay [OF demo_inv1, of default_sync_settings 20 demo_apply 7 0 False 0]
  show ?thesis by blast
qed

theorem flush_accounting_witness:
  "fl_processed (fst demo_flush) = 1 \<and> fl_synced (fst demo_flush) = 1
   \<and> fl_processed (fst demo_flush) \<le> 200"
proof -
  have "fl_processed (fst demo_flush) = 1" "fl_synced (fst demo_flush) = 1" by code_simp+
  with flush_accounting [OF demo_inv1 demo_flush_eq] show ?thesis by simp
qed

text \<open>
  A row that failed four times fails once more: it has then used up its five retries, is
  listed, and the next flush leaves it as it is.
\<close>

definition worn_item :: sync_item where
  "worn_item = demo_item\<lparr>si_status := Sq_Failed, si_retry_count := 4\<rparr>"

definition worn_db :: sync_db where
  "worn_db = \<lparr>sd_items = [worn_item], sd_next_id = 2\<rparr>"

definition refuse_apply :: "nat apply_fn" where
  "refuse_apply i w = Inl (SyncApplyError ''no such project'')"

definition worn_flush :: "flush \<times> nat \<times> sync_item list \<times> nat" where
  "worn_flush = process default_sync_settings 20 refuse_apply 7 0 False (sd_items worn_db) 0"

definition spent_db :: sync_db where
  "spent_db = worn_db\<lparr>sd_items := fst (snd (snd worn_flush))\<rparr>"

definition spent_flush :: "flush \<times> nat \<times> sync_item list \<times> nat" where
  "spent_flush = process default_sync_settings 30 refuse_apply 7 0 False (sd_items spent_db) 0"

lemma worn_inv: "sync_inv (\<lambda>s. s) worn_db"
  using demo_inv1 by (simp add: sync_inv_def worn_db_def worn_item_def demo_db1_def row_ok_def
      demo_item_def new_item_def)

lemma worn_flush_eq:
  "process default_sync_settings 20 refuse_apply 7 0 False (sd_items worn_db) 0
   = (fst worn_flush, fst (snd worn_flush), fst (snd (snd worn_flush)), snd (snd (snd worn_flush)))"
  by (simp add: worn_flush_def)

lemma spent_inv: "sync_inv (\<lambda>s. s) spent_db"
  unfolding spent_db_def using process_inv [OF worn_inv worn_flush_eq] by simp

lemma spent_flush_eq:
  "process default_sync_settings 30 refuse_apply 7 0 False (sd_items spent_db) 0
   = (fst spent_flush, fst (snd spent_flush), fst (snd (snd spent_flush)), snd (snd (snd spent_flush)))"
  by (simp add: spent_flush_def)


end
