(* ===== verification/Sync_Workers.thy ===== *)
theory Sync_Workers
  imports Sync_Queue
begin

text \<open>
  Concurrent flushes of the sync queue. Several workers run \<^verbatim>\<open>SyncService.process\<close>
  at once: each selects its claimable rows, then claims them one by one with the conditional
  UPDATE, applies and marks. A step of the relation is one database interaction of one
  worker, the clock moving, a row arriving, or a worker being killed; any interleaving is a
  run. The claim is a lease: the interface \<open>lease\<close> states what a worker may rely on, and
  the conditional UPDATE of \<^verbatim>\<open>_claim\<close> provides it.
\<close>

section \<open>Leases\<close>

locale lease =
  fixes try_claim :: "int \<Rightarrow> 'k \<Rightarrow> 't \<Rightarrow> bool \<times> 't"
    and lease_of :: "'k \<Rightarrow> 't \<Rightarrow> int option"
    and ok :: "'t \<Rightarrow> bool"
    and period :: int
  assumes claim_ok: "ok tb \<Longrightarrow> ok (snd (try_claim now k tb))"
    and claim_won: "ok tb \<Longrightarrow> fst (try_claim now k tb) \<Longrightarrow>
          lease_of k (snd (try_claim now k tb)) = Some (now + period)"
    and claim_lost: "ok tb \<Longrightarrow> \<not> fst (try_claim now k tb) \<Longrightarrow>
          lease_of k (snd (try_claim now k tb)) = lease_of k tb"
    and claim_other: "ok tb \<Longrightarrow> j \<noteq> k \<Longrightarrow>
          lease_of j (snd (try_claim now k tb)) = lease_of j tb"
    and claim_live: "ok tb \<Longrightarrow> lease_of k tb = Some u \<Longrightarrow> now \<le> u \<Longrightarrow> \<not> fst (try_claim now k tb)"
begin

fun claims :: "(int \<times> 'k) list \<Rightarrow> 't \<Rightarrow> 't" where
  "claims [] tb = tb"
| "claims ((now, k) # rest) tb = claims rest (snd (try_claim now k tb))"

lemma claim_keeps_lease:
  assumes "ok tb" "lease_of k tb = Some u" "now \<le> u"
  shows "lease_of k (snd (try_claim now j tb)) = Some u"
proof (cases "j = k")
  case True
  with assms claim_live claim_lost show ?thesis by metis
next
  case False
  with assms claim_other show ?thesis by metis
qed

text \<open>Until a lease runs out nobody else's claims can take or move it.\<close>

lemma claims_keep_lease:
  "ok tb \<Longrightarrow> lease_of k tb = Some u \<Longrightarrow> \<forall>(now, j) \<in> set cs. now \<le> u \<Longrightarrow>
   ok (claims cs tb) \<and> lease_of k (claims cs tb) = Some u"
proof (induction cs arbitrary: tb)
  case (Cons c cs)
  then show ?case by (cases c) (auto simp: claim_ok claim_keeps_lease)
qed simp

lemma exclusive_until:
  assumes "ok tb" "fst (try_claim t k tb)" "\<forall>(now, j) \<in> set cs. now \<le> t + period" "t' \<le> t + period"
  shows "\<not> fst (try_claim t' k (claims cs (snd (try_claim t k tb))))"
proof -
  have "ok (claims cs (snd (try_claim t k tb)))
      \<and> lease_of k (claims cs (snd (try_claim t k tb))) = Some (t + period)"
    using assms by (intro claims_keep_lease) (simp_all add: claim_ok claim_won)
  with assms(4) claim_live show ?thesis by blast
qed

end

definition sync_lease_of :: "sync_settings \<Rightarrow> nat \<Rightarrow> sync_item list \<Rightarrow> int option" where
  "sync_lease_of cfg pk items =
     (case first_where (\<lambda>i. si_id i = pk \<and> si_status i = Sq_Processing) items of
        None \<Rightarrow> None
      | Some i \<Rightarrow> map_option (\<lambda>t. t + ss_claim_timeout_s cfg * 1000000) (si_claimed_at i))"

definition distinct_ids :: "sync_item list \<Rightarrow> bool" where
  "distinct_ids items \<longleftrightarrow> distinct (map si_id items)"

lemma distinct_idsD:
  "distinct_ids items \<Longrightarrow> i \<in> set items \<Longrightarrow> j \<in> set items \<Longrightarrow> si_id i = si_id j \<Longrightarrow> i = j"
  by (auto simp: distinct_ids_def dest: distinct_map_key)

lemma sync_lease_row:
  assumes "distinct_ids items" "i \<in> set items" "si_status i = Sq_Processing"
  shows "sync_lease_of cfg (si_id i) items
       = map_option (\<lambda>t. t + ss_claim_timeout_s cfg * 1000000) (si_claimed_at i)"
proof (cases "first_where (\<lambda>j. si_id j = si_id i \<and> si_status j = Sq_Processing) items")
  case None
  with assms show ?thesis by (auto simp: first_where_None)
next
  case (Some j)
  then have "j \<in> set items" "si_id j = si_id i" using first_where_Some [OF Some] by simp_all
  then have "j = i" by (rule distinct_idsD [OF assms(1) _ assms(2)])
  with Some show ?thesis by (simp add: sync_lease_of_def)
qed

lemma sync_lease_Some:
  assumes "sync_lease_of cfg pk items = Some u"
  obtains i t where "i \<in> set items" "si_id i = pk" "si_status i = Sq_Processing"
    "si_claimed_at i = Some t" "u = t + ss_claim_timeout_s cfg * 1000000"
  using assms by (auto simp: sync_lease_of_def split: option.splits dest!: first_where_Some)

lemma sync_lease_None:
  "distinct_ids items \<Longrightarrow> \<forall>i \<in> set items. si_id i = pk \<longrightarrow> si_status i \<noteq> Sq_Processing \<Longrightarrow>
   sync_lease_of cfg pk items = None"
  by (auto simp: sync_lease_of_def split: option.splits dest!: first_where_Some)

lemma claim_row_other:
  assumes "x \<in> set items" "si_id x \<noteq> pk \<or> \<not> claim_condition cfg now ie x"
  shows "x \<in> set (snd (claim cfg now ie pk items))"
  using assms by (auto simp: claim_def Let_def set_update_where)

lemma claim_row_won:
  assumes "x \<in> set items" "si_id x = pk" "claim_condition cfg now ie x"
  shows "x\<lparr>si_status := Sq_Processing, si_claimed_at := Some now, si_updated_at := now\<rparr>
    \<in> set (snd (claim cfg now ie pk items))"
  using assms by (auto simp: claim_def Let_def set_update_where)

lemma claim_distinct: "distinct_ids items \<Longrightarrow> distinct_ids (snd (claim cfg now ie pk items))"
  by (simp add: distinct_ids_def claim_preserves)

lemma claim_lost_same:
  assumes "distinct_ids items" "\<not> fst (claim cfg now ie pk items)"
  shows "snd (claim cfg now ie pk items) = items"
proof -
  have "\<forall>i \<in> set items. \<not> (si_id i = pk \<and> claim_condition cfg now ie i)"
    using assms claim_fst unfolding distinct_ids_def by blast
  then show ?thesis by (simp add: claim_def Let_def update_where_none)
qed

lemma claim_wonE:
  assumes "distinct_ids items" "fst (claim cfg now ie pk items)"
  obtains i where "i \<in> set items" "si_id i = pk" "claim_condition cfg now ie i"
proof -
  from assms(2) have "filter (\<lambda>i. si_id i = pk \<and> claim_condition cfg now ie i) items \<noteq> []"
    by (auto simp: claim_def Let_def rows_where_def)
  with that show thesis by (auto simp: filter_empty_conv)
qed

interpretation sync: lease "\<lambda>now. claim cfg now ie" "sync_lease_of cfg" distinct_ids
  "ss_claim_timeout_s cfg * 1000000" for cfg ie
proof unfold_locales
  fix tb :: "sync_item list" and now :: int and k :: nat
  assume ok: "distinct_ids tb" and won: "fst (claim cfg now ie k tb)"
  from claim_wonE [OF this] obtain i where i: "i \<in> set tb" "si_id i = k" "claim_condition cfg now ie i" .
  from sync_lease_row [OF claim_distinct [OF ok] claim_row_won [OF i]] i(2)
  show "sync_lease_of cfg k (snd (claim cfg now ie k tb)) = Some (now + ss_claim_timeout_s cfg * 1000000)"
    by simp
next
  fix tb :: "sync_item list" and j k :: nat and now
  assume ok: "distinct_ids tb" and jk: "j \<noteq> k"
  show "sync_lease_of cfg j (snd (claim cfg now ie k tb)) = sync_lease_of cfg j tb"
  proof -
    have "first_where (\<lambda>i. si_id i = j \<and> si_status i = Sq_Processing) (snd (claim cfg now ie k tb))
        = first_where (\<lambda>i. si_id i = j \<and> si_status i = Sq_Processing) tb"
      using jk by (induction tb) (auto simp: claim_def Let_def first_where_def)
    then show ?thesis by (simp add: sync_lease_of_def)
  qed
next
  fix tb :: "sync_item list" and k :: nat and u now :: int
  assume ok: "distinct_ids tb" and "sync_lease_of cfg k tb = Some u" and live: "now \<le> u"
  then obtain i t where i: "i \<in> set tb" "si_id i = k" "si_status i = Sq_Processing"
    "si_claimed_at i = Some t" "u = t + ss_claim_timeout_s cfg * 1000000"
    by (auto elim: sync_lease_Some)
  with live have "\<not> claim_condition cfg now ie i"
    by (simp add: claim_condition_def claimed_before_def)
  then show "\<not> fst (claim cfg now ie k tb)"
    using claim_fst [of tb i] ok i by (simp add: distinct_ids_def)
qed (auto simp: claim_distinct claim_lost_same)

section \<open>Workers\<close>

text \<open>
  \<open>sy_queue w\<close> is what worker \<open>w\<close> still has of its selection and \<open>sy_held w\<close>
  the row object it has claimed and is applying; \<open>sy_log\<close> lists the rows whose apply
  transaction committed, latest first.
\<close>

record sys =
  sy_items :: "sync_item list"
  sy_now :: int
  sy_queue :: "nat \<Rightarrow> sync_item list"
  sy_held :: "nat \<Rightarrow> sync_item option"
  sy_log :: "nat list"

definition init_sys :: "sync_item list \<Rightarrow> int \<Rightarrow> sys" where
  "init_sys items now = \<lparr>sy_items = items, sy_now = now, sy_queue = (\<lambda>_. []),
     sy_held = (\<lambda>_. None), sy_log = []\<rparr>"

text \<open>
  Does the clock reading \<open>t\<close> come before every held claim times out? A system is
  \<^emph>\<open>prompt\<close> when the clock only moves so: every worker marks its row (or dies) within
  \<open>SYNC_CLAIM_TIMEOUT_SECONDS\<close> of claiming it.
\<close>

definition within_leases :: "sync_settings \<Rightarrow> sys \<Rightarrow> int \<Rightarrow> bool" where
  "within_leases cfg s t \<longleftrightarrow>
     (\<forall>w i r c. sy_held s w = Some i \<longrightarrow> r \<in> set (sy_items s) \<longrightarrow> si_id r = si_id i \<longrightarrow>
        si_claimed_at r = Some c \<longrightarrow> t \<le> c + ss_claim_timeout_s cfg * 1000000)"

inductive wstep :: "bool \<Rightarrow> sync_settings \<Rightarrow> sys \<Rightarrow> sys \<Rightarrow> bool" for prompt cfg where
  tick: "sy_now s \<le> t \<Longrightarrow> (prompt \<Longrightarrow> within_leases cfg s t) \<Longrightarrow>
     wstep prompt cfg s (s\<lparr>sy_now := t\<rparr>)"
| arrive: "si_id i \<notin> si_id ` set (sy_items s) \<Longrightarrow> si_status i = Sq_Pending \<Longrightarrow>
     wstep prompt cfg s (s\<lparr>sy_items := sy_items s @ [i]\<rparr>)"
| select: "sy_queue s w = [] \<Longrightarrow> sy_held s w = None \<Longrightarrow>
     wstep prompt cfg s (s\<lparr>sy_queue := (sy_queue s)(w :=
       take (flush_limit limit) (claimable cfg (sy_now s) user ie (sy_items s)))\<rparr>)"
| won: "sy_queue s w = i # q \<Longrightarrow> sy_held s w = None \<Longrightarrow>
     claim cfg (sy_now s) ie (si_id i) (sy_items s) = (True, items') \<Longrightarrow>
     wstep prompt cfg s (s\<lparr>sy_items := items', sy_queue := (sy_queue s)(w := q),
       sy_held := (sy_held s)(w := Some i)\<rparr>)"
| lost: "sy_queue s w = i # q \<Longrightarrow> sy_held s w = None \<Longrightarrow>
     claim cfg (sy_now s) ie (si_id i) (sy_items s) = (False, items') \<Longrightarrow>
     wstep prompt cfg s (s\<lparr>sy_items := items', sy_queue := (sy_queue s)(w := q)\<rparr>)"
| applied: "sy_held s w = Some i \<Longrightarrow>
     wstep prompt cfg s (s\<lparr>sy_items := mark_synced (sy_now s) m tgt i (sy_items s),
       sy_held := (sy_held s)(w := None), sy_log := si_id i # sy_log s\<rparr>)"
| failed: "sy_held s w = Some i \<Longrightarrow>
     wstep prompt cfg s (s\<lparr>sy_items := mark_failed (sy_now s) msg i (sy_items s),
       sy_held := (sy_held s)(w := None)\<rparr>)"
| killed: "wstep prompt cfg s (s\<lparr>sy_queue := (sy_queue s)(w := []), sy_held := (sy_held s)(w := None)\<rparr>)"

inductive wreach :: "bool \<Rightarrow> sync_settings \<Rightarrow> sync_item list \<Rightarrow> sys \<Rightarrow> bool"
  for prompt cfg items where
  start: "wreach prompt cfg items (init_sys items now)"
| step: "wreach prompt cfg items s \<Longrightarrow> wstep prompt cfg s s' \<Longrightarrow> wreach prompt cfg items s'"

section \<open>The claim invariant\<close>

text \<open>
  A worker that holds a row holds a live lease on it, no two workers hold one row, and an
  applied row is synced, so nobody can claim it again.
\<close>

definition worker_inv :: "sync_settings \<Rightarrow> sys \<Rightarrow> bool" where
  "worker_inv cfg s \<longleftrightarrow>
     distinct_ids (sy_items s)
     \<and> (\<forall>w i. sy_held s w = Some i \<longrightarrow>
          (\<exists>u. sync_lease_of cfg (si_id i) (sy_items s) = Some u \<and> sy_now s \<le> u))
     \<and> (\<forall>w v i j. sy_held s w = Some i \<longrightarrow> sy_held s v = Some j \<longrightarrow> si_id i = si_id j \<longrightarrow> w = v)
     \<and> (\<forall>pk \<in> set (sy_log s). \<exists>r \<in> set (sy_items s). si_id r = pk \<and> si_status r = Sq_Synced)
     \<and> distinct (sy_log s)"

lemma lease_not_synced:
  assumes "distinct_ids items" "sync_lease_of cfg pk items = Some u"
    "r \<in> set items" "si_id r = pk"
  shows "si_status r = Sq_Processing"
  using sync_lease_Some [OF assms(2)] assms(1,3,4) distinct_idsD by metis

lemma claim_keeps_synced:
  "r \<in> set items \<Longrightarrow> si_status r = Sq_Synced \<Longrightarrow> r \<in> set (snd (claim cfg now ie pk items))"
  by (rule claim_row_other) (auto simp: claim_condition_def)

lemma save_row_lease_other:
  assumes "distinct_ids items" "j \<noteq> pk" "\<And>i. si_id (f i) = si_id i"
  shows "sync_lease_of cfg j (save_row pk f items) = sync_lease_of cfg j items"
proof -
  have "first_where (\<lambda>i. si_id i = j \<and> si_status i = Sq_Processing) (save_row pk f items)
      = first_where (\<lambda>i. si_id i = j \<and> si_status i = Sq_Processing) items"
    using assms(2,3) by (induction items) (auto simp: save_row_def first_where_def)
  then show ?thesis by (simp add: sync_lease_of_def)
qed

lemma mark_lease_other:
  assumes "distinct_ids items" "j \<noteq> si_id i"
  shows "sync_lease_of cfg j (mark_synced now m t i items) = sync_lease_of cfg j items"
    and "sync_lease_of cfg j (mark_failed now msg i items) = sync_lease_of cfg j items"
  using assms by (simp_all add: mark_synced_def mark_failed_def save_row_lease_other)

lemma mark_distinct_ids [simp]:
  "distinct_ids (mark_synced now m t i items) = distinct_ids items"
  "distinct_ids (mark_failed now msg i items) = distinct_ids items"
  by (simp_all add: distinct_ids_def)

lemma append_lease:
  assumes "si_id i \<noteq> pk \<or> si_status i \<noteq> Sq_Processing"
  shows "sync_lease_of cfg pk (items @ [i]) = sync_lease_of cfg pk items"
proof -
  have "first_where (\<lambda>i. si_id i = pk \<and> si_status i = Sq_Processing) [i] = None"
    using assms by (auto simp: first_where_def)
  then show ?thesis by (simp add: sync_lease_of_def first_where_append split: option.splits)
qed

lemma lease_tick:
  assumes "distinct_ids (sy_items s)" "within_leases cfg s t" "sy_held s w = Some i"
    "sync_lease_of cfg (si_id i) (sy_items s) = Some u"
  shows "t \<le> u"
  using sync_lease_Some [OF assms(4)] assms(2,3) unfolding within_leases_def by metis

lemma won_not_held:
  assumes "worker_inv cfg s" "fst (claim cfg (sy_now s) ie (si_id i) (sy_items s))"
    "sy_held s w = Some j"
  shows "si_id j \<noteq> si_id i"
  using assms sync.claim_live unfolding worker_inv_def by metis

lemma won_not_logged:
  assumes "worker_inv cfg s" "fst (claim cfg now ie pk (sy_items s))"
  shows "pk \<notin> set (sy_log s)"
proof
  assume "pk \<in> set (sy_log s)"
  then obtain r where r: "r \<in> set (sy_items s)" "si_id r = pk" "si_status r = Sq_Synced"
    using assms(1) by (auto simp: worker_inv_def)
  from claim_wonE assms obtain i where i: "i \<in> set (sy_items s)" "si_id i = pk" "claim_condition cfg now ie i"
    unfolding worker_inv_def by metis
  then have "i = r" using r assms(1) unfolding worker_inv_def by (metis distinct_idsD)
  with i(3) r(3) show False by (simp add: claim_condition_def)
qed

lemma worker_inv_tick:
  assumes "worker_inv cfg s" "within_leases cfg s t"
  shows "worker_inv cfg (s\<lparr>sy_now := t\<rparr>)"
  using assms lease_tick [OF _ assms(2)] unfolding worker_inv_def by (simp, blast)

lemma worker_inv_arrive:
  assumes "worker_inv cfg s" "si_id i \<notin> si_id ` set (sy_items s)" "si_status i = Sq_Pending"
  shows "worker_inv cfg (s\<lparr>sy_items := sy_items s @ [i]\<rparr>)"
proof -
  have "sync_lease_of cfg pk (sy_items s @ [i]) = sync_lease_of cfg pk (sy_items s)" for pk
    using assms(3) by (simp add: append_lease)
  with assms(1,2) show ?thesis by (simp add: worker_inv_def distinct_ids_def image_iff)
qed

lemma worker_inv_won:
  assumes inv: "worker_inv cfg s" and free: "sy_held s w = None"
    and won: "claim cfg (sy_now s) ie (si_id i) (sy_items s) = (True, items')"
    and pos: "0 \<le> ss_claim_timeout_s cfg"
  shows "worker_inv cfg (s\<lparr>sy_items := items', sy_queue := q, sy_held := (sy_held s)(w := Some i)\<rparr>)"
proof -
  have fst: "fst (claim cfg (sy_now s) ie (si_id i) (sy_items s))"
    and items': "items' = snd (claim cfg (sy_now s) ie (si_id i) (sy_items s))"
    using won by simp_all
  have d: "distinct_ids (sy_items s)" using inv by (simp add: worker_inv_def)
  have "sync_lease_of cfg (si_id i) items' = Some (sy_now s + ss_claim_timeout_s cfg * 1000000)"
    unfolding items' by (rule sync.claim_won [OF d fst])
  moreover have "sync_lease_of cfg (si_id j) items' = sync_lease_of cfg (si_id j) (sy_items s)"
    and "si_id j \<noteq> si_id i" if "sy_held s v = Some j" for v j
    using won_not_held [OF inv fst that] sync.claim_other [OF d] by (simp_all add: items')
  moreover have "\<exists>r \<in> set items'. si_id r = pk \<and> si_status r = Sq_Synced" if "pk \<in> set (sy_log s)" for pk
    using that inv claim_keeps_synced unfolding worker_inv_def items' by blast
  moreover have "distinct_ids items'" unfolding items' by (rule claim_distinct [OF d])
  ultimately show ?thesis
    using inv free pos unfolding worker_inv_def by (auto, metis+)
qed

lemma worker_inv_lost:
  assumes "worker_inv cfg s"
    and "claim cfg (sy_now s) ie (si_id i) (sy_items s) = (False, items')"
  shows "worker_inv cfg (s\<lparr>sy_items := items', sy_queue := q\<rparr>)"
proof -
  have "items' = sy_items s"
    using claim_lost_same [of "sy_items s" cfg "sy_now s" ie "si_id i"] assms
    by (simp add: worker_inv_def)
  with assms(1) show ?thesis by (simp add: worker_inv_def)
qed

lemma held_row:
  assumes "worker_inv cfg s" "sy_held s w = Some i"
  obtains r where "r \<in> set (sy_items s)" "si_id r = si_id i" "si_status r = Sq_Processing"
  using assms sync_lease_Some unfolding worker_inv_def by metis

lemma held_not_logged:
  assumes "worker_inv cfg s" "sy_held s w = Some i"
  shows "si_id i \<notin> set (sy_log s)"
proof
  assume "si_id i \<in> set (sy_log s)"
  then obtain r where "r \<in> set (sy_items s)" "si_id r = si_id i" "si_status r = Sq_Synced"
    using assms(1) unfolding worker_inv_def by metis
  moreover obtain r' where "r' \<in> set (sy_items s)" "si_id r' = si_id i" "si_status r' = Sq_Processing"
    using held_row [OF assms] .
  moreover have "distinct_ids (sy_items s)" using assms(1) by (simp add: worker_inv_def)
  ultimately show False using distinct_idsD by (metis sync_status.distinct(7))
qed

lemma mark_keeps_other:
  assumes "x \<in> set items" "si_id x \<noteq> si_id i"
  shows "x \<in> set (mark_synced now m t i items)" "x \<in> set (mark_failed now msg i items)"
  using assms by (auto simp: mark_synced_def mark_failed_def intro: save_row_keeps_other)

lemma mark_synced_row:
  assumes "x \<in> set items" "si_id x = si_id i"
  shows "\<exists>r \<in> set (mark_synced now m t i items). si_id r = si_id i \<and> si_status r = Sq_Synced"
  using assms by (induction items) (auto simp: mark_synced_def save_row_def)

lemma worker_inv_marked:
  assumes inv: "worker_inv cfg s" and held: "sy_held s w = Some i"
    and items': "distinct_ids items'"
      "\<And>j. j \<noteq> si_id i \<Longrightarrow> sync_lease_of cfg j items' = sync_lease_of cfg j (sy_items s)"
      "\<And>x. x \<in> set (sy_items s) \<Longrightarrow> si_id x \<noteq> si_id i \<Longrightarrow> x \<in> set items'"
    and log: "log = sy_log s \<or> log = si_id i # sy_log s
      \<and> (\<exists>r \<in> set items'. si_id r = si_id i \<and> si_status r = Sq_Synced)"
  shows "worker_inv cfg (s\<lparr>sy_items := items', sy_held := (sy_held s)(w := None), sy_log := log\<rparr>)"
proof -
  have other: "si_id j \<noteq> si_id i" if "sy_held s v = Some j" "v \<noteq> w" for v j
    using inv held that unfolding worker_inv_def by metis
  have "\<exists>u. sync_lease_of cfg (si_id j) items' = Some u \<and> sy_now s \<le> u"
    if "sy_held s v = Some j" "v \<noteq> w" for v j
    using items'(2) [OF other [OF that]] inv that unfolding worker_inv_def by metis
  moreover have nl: "si_id i \<notin> set (sy_log s)" by (rule held_not_logged [OF inv held])
  moreover have "\<exists>r \<in> set items'. si_id r = pk \<and> si_status r = Sq_Synced" if "pk \<in> set (sy_log s)" for pk
    using that inv nl items'(3) unfolding worker_inv_def by metis
  moreover have "distinct log" using log nl inv by (auto simp: worker_inv_def)
  ultimately show ?thesis
    using inv items'(1) log unfolding worker_inv_def by (auto split: if_splits)
qed

lemma worker_inv_killed:
  "worker_inv cfg s \<Longrightarrow>
   worker_inv cfg (s\<lparr>sy_queue := q, sy_held := (sy_held s)(w := None)\<rparr>)"
  unfolding worker_inv_def by (auto split: if_splits)

lemma wstep_inv:
  assumes "wstep True cfg s s'" "worker_inv cfg s" "0 \<le> ss_claim_timeout_s cfg"
  shows "worker_inv cfg s'"
  using assms(1)
proof cases
  case (tick t)
  with assms(2) show ?thesis by (simp add: worker_inv_tick)
next
  case (arrive i)
  with assms(2) show ?thesis by (simp add: worker_inv_arrive)
next
  case (select w limit user ie)
  with assms(2) show ?thesis by (simp add: worker_inv_def)
next
  case (won w i q ie items')
  with assms(2,3) show ?thesis by (simp add: worker_inv_won)
next
  case (lost w i q ie items')
  with assms(2) show ?thesis by (simp add: worker_inv_lost)
next
  case (applied w i m tgt)
  have d: "distinct_ids (sy_items s)" using assms(2) by (simp add: worker_inv_def)
  obtain r where "r \<in> set (sy_items s)" "si_id r = si_id i"
    using held_row [OF assms(2) applied(2)] .
  then have "\<exists>r \<in> set (mark_synced (sy_now s) m tgt i (sy_items s)). si_id r = si_id i \<and> si_status r = Sq_Synced"
    by (rule mark_synced_row)
  with applied d show ?thesis
    using worker_inv_marked [OF assms(2) applied(2), of "mark_synced (sy_now s) m tgt i (sy_items s)"]
    by (simp add: mark_lease_other mark_keeps_other)
next
  case (failed w i msg)
  have "distinct_ids (sy_items s)" using assms(2) by (simp add: worker_inv_def)
  with failed show ?thesis
    using worker_inv_marked [OF assms(2) failed(2), of "mark_failed (sy_now s) msg i (sy_items s)" "sy_log s"]
    by (simp add: mark_lease_other mark_keeps_other)
next
  case (killed w)
  with assms(2) show ?thesis by (simp add: worker_inv_killed)
qed

lemma wreach_inv:
  assumes "wreach True cfg items s" "distinct_ids items" "0 \<le> ss_claim_timeout_s cfg"
  shows "worker_inv cfg s"
  using assms
proof (induction rule: wreach.induct)
  case (start now)
  then show ?case by (simp add: worker_inv_def init_sys_def)
next
  case (step s s')
  then show ?case by (blast intro: wstep_inv)
qed

section \<open>Properties\<close>

text \<open>
  C1. No double apply. However many flushes interleave, whichever workers are killed and
  whatever arrives, as long as every worker finishes with a row within the claim timeout no
  row's write is ever committed twice, and no two workers ever hold the same row.
\<close>

theorem no_double_apply:
  assumes "wreach True cfg items s" "distinct_ids items" "0 \<le> ss_claim_timeout_s cfg"
  shows "distinct (sy_log s) \<and>
    (\<forall>w v i j. sy_held s w = Some i \<and> sy_held s v = Some j \<and> si_id i = si_id j \<longrightarrow> w = v)"
  using wreach_inv [OF assms] unfolding worker_inv_def by blast

text \<open>
  The lease is what the claim gives, and all of it: after one worker's claim succeeds
  no other claim of that row succeeds until the timeout has passed, whatever claims are
  tried in between.
\<close>

theorem claim_is_exclusive:
  assumes "distinct_ids items" "claim cfg t ie pk items = (True, items')"
    and "\<forall>(now, j) \<in> set cs. now \<le> t + ss_claim_timeout_s cfg * 1000000"
    and "t' \<le> t + ss_claim_timeout_s cfg * 1000000"
  shows "\<not> fst (claim cfg t' ie pk
      (fold (\<lambda>(now, j) tb. snd (claim cfg now ie j tb)) cs items'))"
proof -
  have "fold (\<lambda>(now, j) tb. snd (claim cfg now ie j tb)) cs tb = lease.claims (\<lambda>now. claim cfg now ie) cs tb" for tb
    by (induction cs arbitrary: tb) (auto simp: sync.claims.simps)
  with sync.exclusive_until [OF assms(1) _ assms(3,4), of ie pk] assms(2) show ?thesis by simp
qed

section \<open>A slow worker\<close>

text \<open>Worker 0 claims the only row, stalls past the timeout, worker 1 takes over, both apply.\<close>

definition slow_row :: sync_item where
  "slow_row = demo_item\<lparr>si_id := 1\<rparr>"

definition claimed_row :: "int \<Rightarrow> sync_item" where
  "claimed_row t = slow_row\<lparr>si_status := Sq_Processing, si_claimed_at := Some t, si_updated_at := t\<rparr>"

definition late :: int where
  "late = 300000001"

lemma late_nonneg: "0 \<le> late"
  by (simp add: late_def)

lemma slow_row_simps [simp]:
  "si_id slow_row = Suc 0" "si_status slow_row = Sq_Pending" "si_inspector slow_row = 7"
  by (simp_all add: slow_row_def demo_item_def new_item_def)

lemma claimed_row_simps [simp]:
  "si_id (claimed_row t) = Suc 0" "si_status (claimed_row t) = Sq_Processing"
  "si_inspector (claimed_row t) = 7" "si_claimed_at (claimed_row t) = Some t"
  by (simp_all add: claimed_row_def)

lemma slow_selects:
  "take (flush_limit 0) (claimable default_sync_settings 0 7 False [slow_row]) = [slow_row]"
  "take (flush_limit 0) (claimable default_sync_settings late 7 False [claimed_row 0]) = [claimed_row 0]"
  by (simp_all add: flush_limit_def claimable_def claim_condition_def claimed_before_def
      default_sync_settings_def late_def)

lemma slow_claims:
  "claim default_sync_settings 0 False (Suc 0) [slow_row] = (True, [claimed_row 0])"
  "claim default_sync_settings late False (Suc 0) [claimed_row 0] = (True, [claimed_row late])"
  by (simp_all add: claim_def claim_condition_def claimed_before_def rows_where_def
      default_sync_settings_def late_def claimed_row_def)

definition slow_run :: "nat \<Rightarrow> sys" where
  "slow_run n =
    (let s0 = init_sys [slow_row] 0;
         s1 = s0\<lparr>sy_queue := (sy_queue s0)(0 := [slow_row])\<rparr>;
         s2 = s1\<lparr>sy_items := [claimed_row 0], sy_queue := (sy_queue s1)(0 := []),
                sy_held := (sy_held s1)(0 := Some slow_row)\<rparr>;
         s3 = s2\<lparr>sy_now := late\<rparr>;
         s4 = s3\<lparr>sy_queue := (sy_queue s3)(1 := [claimed_row 0])\<rparr>;
         s5 = s4\<lparr>sy_items := [claimed_row late], sy_queue := (sy_queue s4)(1 := []),
                sy_held := (sy_held s4)(1 := Some (claimed_row 0))\<rparr>;
         s6 = s5\<lparr>sy_items := mark_synced late [] [] slow_row (sy_items s5),
                sy_held := (sy_held s5)(0 := None), sy_log := [1]\<rparr>;
         s7 = s6\<lparr>sy_items := mark_synced late [] [] (claimed_row 0) (sy_items s6),
                sy_held := (sy_held s6)(1 := None), sy_log := [1, 1]\<rparr>
     in [s0, s1, s2, s3, s4, s5, s6, s7] ! n)"

lemma slow_steps:
  "wstep False default_sync_settings (slow_run 0) (slow_run 1)"
  "wstep False default_sync_settings (slow_run 1) (slow_run 2)"
  "wstep False default_sync_settings (slow_run 2) (slow_run 3)"
  "wstep False default_sync_settings (slow_run 3) (slow_run 4)"
  "wstep False default_sync_settings (slow_run 4) (slow_run 5)"
  "wstep False default_sync_settings (slow_run 5) (slow_run 6)"
  "wstep False default_sync_settings (slow_run 6) (slow_run 7)"
  using
    wstep.select [of "slow_run 0" 0 False default_sync_settings 0 7 False]
    wstep.won [of "slow_run 1" 0 slow_row "[]" default_sync_settings False "[claimed_row 0]" False]
    wstep.tick [of "slow_run 2" late False default_sync_settings]
    wstep.select [of "slow_run 3" 1 False default_sync_settings 0 7 False]
    wstep.won [of "slow_run 4" 1 "claimed_row 0" "[]" default_sync_settings False "[claimed_row late]" False]
    wstep.applied [of "slow_run 5" 0 slow_row False default_sync_settings "[]" "[]"]
    wstep.applied [of "slow_run 6" 1 "claimed_row 0" False default_sync_settings "[]" "[]"]
  by (simp_all add: slow_run_def init_sys_def Let_def slow_selects slow_claims late_nonneg)

lemma slow_reach: "wreach False default_sync_settings [slow_row] (slow_run 7)"
proof -
  have "wreach False default_sync_settings [slow_row] (slow_run 0)"
    using wreach.start [of False default_sync_settings "[slow_row]" 0]
    by (simp add: slow_run_def Let_def)
  from this [THEN wreach.step, OF slow_steps(1), THEN wreach.step, OF slow_steps(2),
    THEN wreach.step, OF slow_steps(3), THEN wreach.step, OF slow_steps(4),
    THEN wreach.step, OF slow_steps(5), THEN wreach.step, OF slow_steps(6),
    THEN wreach.step, OF slow_steps(7)]
  show ?thesis .
qed

text \<open>
  The promptness condition cannot be dropped: a worker that is slow rather than dead
  still applies after its claim went stale and was taken over, so there is a run in which
  one row's write is committed twice. \<^verbatim>\<open>mark_synced\<close> writes unconditionally.
\<close>

theorem slow_worker_applies_twice:
  "\<exists>s. wreach False default_sync_settings [slow_row] s \<and> sy_log s = [1, 1]"
proof -
  have "sy_log (slow_run 7) = [1, 1]" by (simp add: slow_run_def Let_def)
  with slow_reach show ?thesis by blast
qed

section \<open>Witnesses\<close>

definition one_run :: sys where
  "one_run = (init_sys [slow_row] 0)\<lparr>sy_queue := (\<lambda>_. [])(0 := [slow_row])\<rparr>"

lemma one_reach:
  "wreach True default_sync_settings [slow_row]
     (one_run\<lparr>sy_items := [claimed_row 0], sy_queue := (sy_queue one_run)(0 := []),
        sy_held := (sy_held one_run)(0 := Some slow_row)\<rparr>)"
proof -
  have "wreach True default_sync_settings [slow_row] one_run"
    using wreach.step [OF wreach.start wstep.select [of "init_sys [slow_row] 0" 0 True default_sync_settings 0 7 False]]
    by (simp add: one_run_def init_sys_def slow_selects fun_upd_def)
  then show ?thesis
    by (rule wreach.step)
      (rule wstep.won [of _ _ _ _ _ False], simp_all add: one_run_def init_sys_def slow_claims)
qed

theorem no_double_apply_witness:
  "distinct (sy_log (one_run\<lparr>sy_items := [claimed_row 0], sy_queue := (sy_queue one_run)(0 := []),
        sy_held := (sy_held one_run)(0 := Some slow_row)\<rparr>))"
proof -
  have "distinct_ids [slow_row]" "0 \<le> ss_claim_timeout_s default_sync_settings"
    by (simp_all add: distinct_ids_def default_sync_settings_def)
  from no_double_apply [OF one_reach this] show ?thesis by blast
qed

theorem claim_is_exclusive_witness:
  "\<not> fst (claim default_sync_settings 299 False 1
      (fold (\<lambda>(now, j) tb. snd (claim default_sync_settings now False j tb)) [(5, 1)] [claimed_row 0]))"
proof -
  have "distinct_ids [slow_row]" by (simp add: distinct_ids_def)
  from claim_is_exclusive [OF this slow_claims(1), of "[(5, 1)]" 299]
  show ?thesis by (simp add: default_sync_settings_def)
qed

end
