(* ===== verification/Access.thy ===== *)
theory Access
  imports Nexucon_Prelude
begin

text \<open>
  Who sees which project: \<^verbatim>\<open>common/permissions/__init__.py\<close> (roles, the scope of a
  user, the permission classes), \<^verbatim>\<open>apps/government/permissions.py\<close> (the government
  permission classes) and the inspector assignment of \<^verbatim>\<open>apps/projects/models.py\<close>
  (\<^verbatim>\<open>resolve_inspector_user\<close>, \<^verbatim>\<open>sync_assigned_inspector\<close>,
  \<^verbatim>\<open>Project.save\<close>). An anonymous or missing user is \<open>None\<close>. The modelled columns
  of a project are the ones these rules read and write.
\<close>

section \<open>Users, profiles, projects\<close>

record profile =
  pf_role :: "string option"
  pf_state_hq :: bool
  pf_district :: "nat option"
  pf_agency :: "nat option"

record acc_user =
  ac_id :: nat
  ac_first :: string
  ac_last :: string
  ac_email :: string
  ac_active :: bool
  ac_superuser :: bool
  ac_profile :: "profile option"

record project =
  pj_id :: nat
  pj_district :: "nat option"
  pj_developer :: "string option"
  pj_inspector_name :: "string option"
  pj_inspector_user :: "nat option"

record access_db =
  ad_users :: "acc_user list"
  ad_projects :: "project list"
  ad_developers :: "(nat option \<times> string) list"
  ad_inspections :: "(nat \<times> nat option) list"

definition full_name :: "acc_user \<Rightarrow> string" where
  "full_name u = py_strip (ac_first u @ '' '' @ ac_last u)"

definition display_name :: "acc_user \<Rightarrow> string" where
  "display_name u = or_default (full_name u) (ac_email u)"

section \<open>Roles\<close>

definition role_agency_head :: string where "role_agency_head = ''Agency Head''"
definition role_director :: string where "role_director = ''Director''"
definition role_inspector :: string where "role_inspector = ''Inspector''"

definition get_profile :: "acc_user option \<Rightarrow> profile option" where
  "get_profile usr = (case usr of None \<Rightarrow> None | Some u \<Rightarrow> ac_profile u)"

definition user_role_name :: "acc_user option \<Rightarrow> string" where
  "user_role_name usr = (case get_profile usr of None \<Rightarrow> [] | Some p \<Rightarrow> or_empty (pf_role p))"

definition user_is_agency_head :: "acc_user option \<Rightarrow> bool" where
  "user_is_agency_head usr \<longleftrightarrow> user_role_name usr = role_agency_head"

definition user_is_director :: "acc_user option \<Rightarrow> bool" where
  "user_is_director usr \<longleftrightarrow> user_role_name usr = role_director
     \<or> (case usr of None \<Rightarrow> False | Some u \<Rightarrow> ac_superuser u)"

definition user_is_inspector :: "acc_user option \<Rightarrow> bool" where
  "user_is_inspector usr \<longleftrightarrow> user_role_name usr = role_inspector"

definition user_is_state_hq :: "acc_user option \<Rightarrow> bool" where
  "user_is_state_hq usr = (case get_profile usr of
      None \<Rightarrow> user_is_director usr
    | Some p \<Rightarrow> pf_state_hq p \<or> user_is_director usr)"

definition user_district :: "acc_user option \<Rightarrow> nat option" where
  "user_district usr = (case get_profile usr of None \<Rightarrow> None | Some p \<Rightarrow> pf_district p)"

definition user_agency :: "acc_user option \<Rightarrow> nat option" where
  "user_agency usr = (case get_profile usr of None \<Rightarrow> None | Some p \<Rightarrow> pf_agency p)"

text \<open>\<^verbatim>\<open>needle in text\<close>\<close>

fun starts_with :: "string \<Rightarrow> string \<Rightarrow> bool" where
  "starts_with [] s = True"
| "starts_with (c # cs) [] = False"
| "starts_with (c # cs) (d # s) = (c = d \<and> starts_with cs s)"

fun text_contains :: "string \<Rightarrow> string \<Rightarrow> bool" where
  "text_contains needle [] = (needle = [])"
| "text_contains needle (c # s) = (starts_with needle (c # s) \<or> text_contains needle s)"

definition acts_as_inspector :: "acc_user option \<Rightarrow> bool" where
  "acts_as_inspector usr \<longleftrightarrow>
     user_role_name usr = role_inspector
     \<or> (user_role_name usr \<noteq> [] \<and> text_contains ''inspector'' (py_lower (user_role_name usr)))"

section \<open>The scope of a user\<close>

definition sees_everything :: "acc_user option \<Rightarrow> bool" where
  "sees_everything usr \<longleftrightarrow>
     (case usr of None \<Rightarrow> False | Some u \<Rightarrow> ac_superuser u)
     \<or> user_is_state_hq usr \<or> user_is_agency_head usr"

definition in_district :: "nat option \<Rightarrow> project \<Rightarrow> bool" where
  "in_district d p \<longleftrightarrow> d \<noteq> None \<and> pj_district p = d"

definition inspector_sees :: "access_db \<Rightarrow> acc_user \<Rightarrow> project \<Rightarrow> bool" where
  "inspector_sees db u p \<longleftrightarrow>
     list_ex (\<lambda>(pj, insp). pj = pj_id p \<and> insp = Some (ac_id u)) (ad_inspections db)
     \<or> pj_inspector_user p = Some (ac_id u)
     \<or> in_district (user_district (Some u)) p"

definition scoped_projects :: "access_db \<Rightarrow> acc_user option \<Rightarrow> project list" where
  "scoped_projects db usr =
     (case usr of
        None \<Rightarrow> []
      | Some u \<Rightarrow>
          if sees_everything usr then ad_projects db
          else if acts_as_inspector usr then filter (inspector_sees db u) (ad_projects db)
          else case first_where (\<lambda>(owner, _). owner = Some (ac_id u)) (ad_developers db) of
                 Some (_, name) \<Rightarrow> filter (\<lambda>p. pj_developer p = Some name) (ad_projects db)
               | None \<Rightarrow> filter (in_district (user_district usr)) (ad_projects db))"

definition in_scope :: "access_db \<Rightarrow> acc_user option \<Rightarrow> nat \<Rightarrow> bool" where
  "in_scope db usr pid \<longleftrightarrow> list_ex (\<lambda>p. pj_id p = pid) (scoped_projects db usr)"

section \<open>Permission classes\<close>

datatype http_method = GET | HEAD | OPTIONS | POST | PUT | PATCH | DELETE

definition safe_method :: "http_method \<Rightarrow> bool" where
  "safe_method m \<longleftrightarrow> m \<in> {GET, HEAD, OPTIONS}"

definition common_is_director :: "acc_user option \<Rightarrow> bool" where
  "common_is_director usr \<longleftrightarrow> user_is_director usr \<or> user_is_agency_head usr"

definition is_government_staff :: "acc_user option \<Rightarrow> bool" where
  "is_government_staff usr \<longleftrightarrow> get_profile usr \<noteq> None
     \<or> (case usr of None \<Rightarrow> False | Some u \<Rightarrow> ac_superuser u)"

definition is_director_or_read_only :: "acc_user option \<Rightarrow> http_method \<Rightarrow> bool" where
  "is_director_or_read_only usr m =
     (if safe_method m then usr \<noteq> None else user_is_director usr)"

definition has_project_scope :: "access_db \<Rightarrow> acc_user option \<Rightarrow> nat option \<Rightarrow> bool" where
  "has_project_scope db usr pid = (case pid of None \<Rightarrow> False | Some k \<Rightarrow> in_scope db usr k)"

text \<open>The classes of \<^verbatim>\<open>apps/government/permissions.py\<close>.\<close>

definition gov_role :: "acc_user option \<Rightarrow> string option" where
  "gov_role usr = (case get_profile usr of None \<Rightarrow> None | Some p \<Rightarrow> pf_role p)"

definition gov_is_agency_head :: "acc_user option \<Rightarrow> bool" where
  "gov_is_agency_head usr \<longleftrightarrow> usr \<noteq> None \<and> gov_role usr = Some role_agency_head"

definition gov_is_director :: "acc_user option \<Rightarrow> http_method \<Rightarrow> bool" where
  "gov_is_director usr m \<longleftrightarrow> usr \<noteq> None
     \<and> gov_role usr \<in> {Some role_director, Some role_agency_head}
     \<and> \<not> (m = DELETE \<and> gov_role usr = Some role_director)"

definition gov_is_inspector :: "acc_user option \<Rightarrow> http_method \<Rightarrow> bool" where
  "gov_is_inspector usr m \<longleftrightarrow> usr \<noteq> None
     \<and> gov_role usr \<in> {Some role_inspector, Some role_director, Some role_agency_head}
     \<and> m \<noteq> DELETE"

text \<open>
  The object check of \<^verbatim>\<open>IsInspector\<close>: \<open>owners\<close> are the values of those of the
  fields \<^verbatim>\<open>created_by\<close>, \<^verbatim>\<open>inspector\<close>, \<^verbatim>\<open>user\<close>, \<^verbatim>\<open>applicant\<close> that
  the object has, in that order.
\<close>

definition gov_inspector_object ::
    "acc_user option \<Rightarrow> http_method \<Rightarrow> nat option list \<Rightarrow> bool" where
  "gov_inspector_object usr m owners =
     (if gov_role usr \<in> {Some role_agency_head, Some role_director} then True
      else case (m \<in> {PUT, PATCH}, owners) of
             (True, x # _) \<Rightarrow> x = map_option ac_id usr \<and> usr \<noteq> None
           | _ \<Rightarrow> safe_method m)"

section \<open>Assigning an inspector\<close>

definition name_matches :: "string \<Rightarrow> acc_user \<Rightarrow> bool" where
  "name_matches wanted u \<longleftrightarrow> ac_active u \<and> (wanted = full_name u \<or> wanted = ac_email u)"

definition resolve_inspector_user ::
    "acc_user list \<Rightarrow> string option \<Rightarrow> acc_user option \<times> nat" where
  "resolve_inspector_user users wanted =
     (let w = py_strip (or_empty wanted)
      in if w = [] then (None, 0)
         else case filter (name_matches w) users of
                [u] \<Rightarrow> (Some u, 1)
              | us \<Rightarrow> (None, length us))"

text \<open>\<^verbatim>\<open>Project.sync_assigned_inspector\<close>: the project afterwards and the user.\<close>

definition sync_assigned_inspector ::
    "acc_user list \<Rightarrow> project \<Rightarrow> project \<times> acc_user option" where
  "sync_assigned_inspector users p =
     (case pj_inspector_user p of
        Some k \<Rightarrow>
          (case first_where (\<lambda>u. ac_id u = k) users of
             Some u \<Rightarrow> (p\<lparr>pj_inspector_name := Some (display_name u)\<rparr>, Some u)
           | None \<Rightarrow> (p, None))
      | None \<Rightarrow>
          if py_strip (or_empty (pj_inspector_name p)) = [] then (p, None)
          else case resolve_inspector_user users (pj_inspector_name p) of
                 (Some u, _) \<Rightarrow> (p\<lparr>pj_inspector_user := Some (ac_id u)\<rparr>, Some u)
               | (None, _) \<Rightarrow> (p, None))"

type_synonym assignment = "string option \<times> nat option"

definition assignment_of :: "project \<Rightarrow> assignment" where
  "assignment_of p = (pj_inspector_name p, pj_inspector_user p)"

definition assignment_columns :: "string list" where
  "assignment_columns = [''assigned_inspector'', ''assigned_inspector_user'']"

text \<open>
  \<^verbatim>\<open>Model.save\<close>: the columns that are written, all of them when none is named.
\<close>

definition write_columns :: "string list option \<Rightarrow> project \<Rightarrow> project \<Rightarrow> project" where
  "write_columns named p row =
     (case named of None \<Rightarrow> p
      | Some cols \<Rightarrow> row\<lparr>
          pj_district := (if ''district'' \<in> set cols then pj_district p else pj_district row),
          pj_developer := (if ''developer_organization'' \<in> set cols then pj_developer p else pj_developer row),
          pj_inspector_name := (if ''assigned_inspector'' \<in> set cols then pj_inspector_name p else pj_inspector_name row),
          pj_inspector_user := (if ''assigned_inspector_user'' \<in> set cols then pj_inspector_user p else pj_inspector_user row)\<rparr>)"

text \<open>
  \<^verbatim>\<open>Project.save\<close> on the object \<open>p\<close> whose assignment was \<open>loaded\<close>: the object
  afterwards and the table.
\<close>

definition save_project ::
    "acc_user list \<Rightarrow> assignment \<Rightarrow> string list option \<Rightarrow> project \<Rightarrow> project list
     \<Rightarrow> project \<times> project list" where
  "save_project users loaded update_fields p rows =
     (let named = (case update_fields of None \<Rightarrow> [] | Some cols \<Rightarrow> cols);
          touched = (assignment_of p \<noteq> loaded
                     \<or> list_ex (\<lambda>c. c \<in> set assignment_columns) named);
          p' = (if touched then fst (sync_assigned_inspector users p) else p);
          cols = (if touched \<and> update_fields \<noteq> None
                  then Some (remdups (named @ assignment_columns)) else update_fields)
      in (p', update_where (\<lambda>r. pj_id r = pj_id p) (write_columns cols p') rows))"

section \<open>Facts about scopes\<close>

text \<open>The scope as a condition on one project.\<close>

definition project_visible :: "access_db \<Rightarrow> acc_user option \<Rightarrow> project \<Rightarrow> bool" where
  "project_visible db usr p = (case usr of None \<Rightarrow> False
     | Some u \<Rightarrow> sees_everything usr
         \<or> (if acts_as_inspector usr then inspector_sees db u p
            else case first_where (\<lambda>(owner, _). owner = Some (ac_id u)) (ad_developers db) of
                   Some (_, name) \<Rightarrow> pj_developer p = Some name
                 | None \<Rightarrow> in_district (user_district usr) p))"

lemma scoped_projects_filter:
  "scoped_projects db usr = filter (project_visible db usr) (ad_projects db)"
proof (cases usr)
  case (Some u)
  then show ?thesis
    by (simp add: scoped_projects_def project_visible_def [abs_def] split: option.splits)
qed (simp add: scoped_projects_def project_visible_def [abs_def])

lemma project_visible_cong:
  assumes "ad_developers db = ad_developers db'" "ad_inspections db = ad_inspections db'"
    and "pj_id p = pj_id q" "pj_district p = pj_district q" "pj_developer p = pj_developer q"
      "pj_inspector_user p = pj_inspector_user q"
  shows "project_visible db usr p = project_visible db' usr q"
  unfolding project_visible_def inspector_sees_def in_district_def assms by (rule refl)

lemma in_scope_iff:
  "in_scope db usr pid \<longleftrightarrow> (\<exists>p \<in> set (ad_projects db). pj_id p = pid \<and> project_visible db usr p)"
  by (auto simp: in_scope_def scoped_projects_filter list_ex_iff)

lemma resolve_inspector_Some:
  "resolve_inspector_user users wanted = (Some u, n) \<Longrightarrow>
   filter (name_matches (py_strip (or_empty wanted))) users = [u] \<and> n = 1"
  by (auto simp: resolve_inspector_user_def Let_def split: if_splits list.splits)

lemma resolve_inspector_unique:
  "filter (name_matches w) users = [u] \<Longrightarrow> w = py_strip (or_empty wanted) \<Longrightarrow> w \<noteq> [] \<Longrightarrow>
   resolve_inspector_user users wanted = (Some u, 1)"
  by (simp add: resolve_inspector_user_def)

lemma sync_with_key:
  "pj_inspector_user p = Some k \<Longrightarrow> pj_inspector_user (fst (sync_assigned_inspector users p)) = Some k"
  by (simp add: sync_assigned_inspector_def split: option.splits)

lemma sync_without_key:
  "pj_inspector_user p = None \<Longrightarrow>
   pj_inspector_user (fst (sync_assigned_inspector users p)) =
     map_option ac_id (fst (resolve_inspector_user users (pj_inspector_name p)))"
  by (auto simp: sync_assigned_inspector_def resolve_inspector_user_def Let_def
      split: option.splits list.splits)

lemma sync_frame:
  "pj_id (fst (sync_assigned_inspector users p)) = pj_id p"
  "pj_district (fst (sync_assigned_inspector users p)) = pj_district p"
  "pj_developer (fst (sync_assigned_inspector users p)) = pj_developer p"
  by (auto simp: sync_assigned_inspector_def split: option.splits prod.splits)

section \<open>Properties\<close>

text \<open>
  Access follows keys, never text. Whatever is written into the display names of the
  projects, every user sees the same projects; a state headquarters, director or agency head
  account sees all of them, an account without profile or developer record sees none, and
  nobody sees a project that is not in the registry.
\<close>

theorem scope_ignores_display_names:
  "map pj_id (scoped_projects (db\<lparr>ad_projects := map (\<lambda>p. p\<lparr>pj_inspector_name := f p\<rparr>) (ad_projects db)\<rparr>) usr)
     = map pj_id (scoped_projects db usr)
   \<and> set (scoped_projects db usr) \<subseteq> set (ad_projects db)
   \<and> scoped_projects db None = []"
proof -
  have vis: "project_visible (db\<lparr>ad_projects := ps\<rparr>) usr (p\<lparr>pj_inspector_name := n\<rparr>) = project_visible db usr p"
    for ps p n by (rule project_visible_cong) simp_all
  have "map pj_id (filter (project_visible (db\<lparr>ad_projects := ps\<rparr>) usr) (map (\<lambda>p. p\<lparr>pj_inspector_name := f p\<rparr>) qs))
      = map pj_id (filter (project_visible db usr) qs)" for ps qs
    by (induction qs) (simp_all add: vis)
  then show ?thesis by (auto simp: scoped_projects_filter) (simp add: project_visible_def)
qed

text \<open>
  Saving a project guesses nothing. The key it stores is the one it had, or that of the
  only active user the typed name or address matches; a name nobody or several users carry
  assigns nobody; and wherever the assignment was touched and a key is stored, the display
  name is that user's.
\<close>

theorem save_project_assignment:
  assumes "save_project users loaded update_fields p rows = (p', rows')"
  shows "(pj_inspector_user p' = pj_inspector_user p
      \<or> (pj_inspector_user p = None \<and> (\<exists>u. filter (name_matches (py_strip (or_empty (pj_inspector_name p)))) users = [u]
            \<and> pj_inspector_user p' = Some (ac_id u))))
    \<and> (assignment_of p \<noteq> loaded \<longrightarrow> pj_inspector_user p \<noteq> None \<longrightarrow>
        (\<forall>u. first_where (\<lambda>u. Some (ac_id u) = pj_inspector_user p) users = Some u \<longrightarrow>
          pj_inspector_name p' = Some (display_name u)))
    \<and> filter (\<lambda>r. pj_id r \<noteq> pj_id p) rows' = filter (\<lambda>r. pj_id r \<noteq> pj_id p) rows"
proof -
  define touched where "touched = (assignment_of p \<noteq> loaded
      \<or> list_ex (\<lambda>c. c \<in> set assignment_columns) (case update_fields of None \<Rightarrow> [] | Some cols \<Rightarrow> cols))"
  define cols where "cols = (if touched \<and> update_fields \<noteq> None
      then Some (remdups ((case update_fields of None \<Rightarrow> [] | Some cols \<Rightarrow> cols) @ assignment_columns)) else update_fields)"
  have p': "p' = (if touched then fst (sync_assigned_inspector users p) else p)"
    and rows': "rows' = update_where (\<lambda>r. pj_id r = pj_id p) (write_columns cols p') rows"
    using assms by (auto simp: save_project_def touched_def cols_def Let_def split: prod.splits)
  have "pj_id p' = pj_id p" by (simp add: p' sync_frame)
  then have "filter (\<lambda>r. pj_id r \<noteq> pj_id p) rows' = filter (\<lambda>r. pj_id r \<noteq> pj_id p) rows"
    unfolding rows' by (intro filter_update_where_disjoint) (auto simp: write_columns_def split: option.splits)
  moreover have "pj_inspector_user p' = pj_inspector_user p
      \<or> (pj_inspector_user p = None \<and> (\<exists>u. filter (name_matches (py_strip (or_empty (pj_inspector_name p)))) users = [u]
            \<and> pj_inspector_user p' = Some (ac_id u)))"
  proof (cases "pj_inspector_user p")
    case None
    then show ?thesis
      using resolve_inspector_Some [of users "pj_inspector_name p"]
      by (cases "resolve_inspector_user users (pj_inspector_name p)"; cases "fst (resolve_inspector_user users (pj_inspector_name p))")
        (auto simp: p' sync_without_key)
  qed (use sync_with_key in \<open>simp add: p'\<close>)
  moreover have "pj_inspector_name p' = Some (display_name u)"
    if "assignment_of p \<noteq> loaded" "pj_inspector_user p \<noteq> None"
      "first_where (\<lambda>u. Some (ac_id u) = pj_inspector_user p) users = Some u" for u
    using that by (auto simp: p' touched_def sync_assigned_inspector_def)
  ultimately show ?thesis by blast
qed

text \<open>
  Taking an assignment away does not last. When a project is assigned and its display
  name is that inspector's (which every save sees to) and nobody else carries the name,
  clearing the key and saving looks the name up again: the inspector is assigned as before
  and keeps the project in scope.
\<close>

theorem clearing_the_assignment_is_undone:
  assumes "p \<in> set (ad_projects db)"
    and "pj_inspector_user p = Some (ac_id u)" "pj_inspector_name p = Some (display_name u)"
    and "filter (name_matches (display_name u)) (ad_users db) = [u]"
    and "py_strip (display_name u) = display_name u" "display_name u \<noteq> []"
    and "acts_as_inspector (Some u)"
    and "save_project (ad_users db) (assignment_of p) named (p\<lparr>pj_inspector_user := None\<rparr>) (ad_projects db)
          = (p', rows')"
  shows "pj_inspector_user p' = Some (ac_id u)
    \<and> in_scope (db\<lparr>ad_projects := rows'\<rparr>) (Some u) (pj_id p)"
proof -
  let ?q = "p\<lparr>pj_inspector_user := None\<rparr>"
  have sync: "sync_assigned_inspector (ad_users db) ?q = (?q\<lparr>pj_inspector_user := Some (ac_id u)\<rparr>, Some u)"
    using assms(3-6) by (simp add: sync_assigned_inspector_def or_empty_def
        resolve_inspector_unique [of "display_name u"])
  have touched: "assignment_of ?q \<noteq> assignment_of p"
    using assms(2) by (simp add: assignment_of_def)
  from assms(8) have p': "p' = ?q\<lparr>pj_inspector_user := Some (ac_id u)\<rparr>"
    by (auto simp: save_project_def Let_def sync touched)
  define cols where "cols = (if named = None then None
      else Some (remdups ((case named of None \<Rightarrow> [] | Some cs \<Rightarrow> cs) @ assignment_columns)))"
  have cols: "cols = None \<or> (\<exists>cs. cols = Some cs \<and> ''assigned_inspector_user'' \<in> set cs)"
    by (simp add: cols_def assignment_columns_def)
  have rows': "rows' = update_where (\<lambda>r. pj_id r = pj_id p) (write_columns cols p') (ad_projects db)"
    using assms(8) touched by (auto simp: save_project_def Let_def sync p' cols_def)
  let ?r = "write_columns cols p' p"
  have "?r \<in> set rows'"
    using assms(1) by (auto simp: rows' set_update_where)
  moreover have "pj_id ?r = pj_id p" "pj_inspector_user ?r = Some (ac_id u)"
    using cols by (auto simp: write_columns_def p')
  moreover from this assms(7) have "project_visible (db\<lparr>ad_projects := rows'\<rparr>) (Some u) ?r"
    by (simp add: project_visible_def inspector_sees_def)
  ultimately show ?thesis by (auto simp: in_scope_iff p')
qed

text \<open>
  Deleting is reserved to the agency head, in one of the two copies of the role checks.
  The government classes let nobody else delete and the inspector class nobody at all; the
  class of the same name in the common module, said to mirror them, admits a director for
  every method, and the read-or-director class refuses an agency head every write.
\<close>

theorem delete_standing:
  "(gov_is_director usr DELETE = gov_is_agency_head usr) \<and> \<not> gov_is_inspector usr DELETE
   \<and> (gov_role usr = Some role_director \<longrightarrow>
        gov_is_director usr PATCH \<and> \<not> gov_is_director usr DELETE \<and> common_is_director usr)
   \<and> (gov_role usr = Some role_agency_head \<longrightarrow>
        gov_is_director usr PATCH \<and> common_is_director usr
        \<and> (is_director_or_read_only usr PATCH = (\<exists>u. usr = Some u \<and> ac_superuser u)))"
proof -
  have "user_role_name usr = or_empty (gov_role usr)"
    by (simp add: user_role_name_def gov_role_def or_empty_def split: option.splits)
  moreover have "usr \<noteq> None" if "gov_role usr = Some r" for r
    using that by (auto simp: gov_role_def get_profile_def split: option.splits)
  moreover have "role_agency_head \<noteq> role_director" by (simp add: role_agency_head_def role_director_def)
  ultimately show ?thesis
    by (auto simp: gov_is_director_def gov_is_inspector_def gov_is_agency_head_def
        common_is_director_def user_is_director_def user_is_agency_head_def or_empty_def
        is_director_or_read_only_def safe_method_def
        split: option.splits)
qed

section \<open>Witnesses\<close>

definition demo_inspector :: acc_user where
  "demo_inspector = \<lparr>ac_id = 4, ac_first = ''Bello'', ac_last = ''Wahab'', ac_email = ''b@x'',
     ac_active = True, ac_superuser = False,
     ac_profile = Some \<lparr>pf_role = Some ''Inspector'', pf_state_hq = False, pf_district = None, pf_agency = None\<rparr>\<rparr>"

definition demo_project :: project where
  "demo_project = \<lparr>pj_id = 9, pj_district = Some 1, pj_developer = None,
     pj_inspector_name = Some ''Bello Wahab'', pj_inspector_user = Some 4\<rparr>"

definition demo_access :: access_db where
  "demo_access = \<lparr>ad_users = [demo_inspector], ad_projects = [demo_project], ad_developers = [], ad_inspections = []\<rparr>"

definition demo_saved :: "project \<times> project list" where
  "demo_saved = save_project (ad_users demo_access) (assignment_of demo_project) None
     (demo_project\<lparr>pj_inspector_user := None\<rparr>) (ad_projects demo_access)"

theorem clearing_the_assignment_is_undone_witness:
  "pj_inspector_user (fst demo_saved) = Some 4
   \<and> in_scope (demo_access\<lparr>ad_projects := snd demo_saved\<rparr>) (Some demo_inspector) 9"
proof -
  have "demo_project \<in> set (ad_projects demo_access)" by (simp add: demo_access_def)
  moreover have "pj_inspector_user demo_project = Some (ac_id demo_inspector)" by code_simp
  moreover have "pj_inspector_name demo_project = Some (display_name demo_inspector)" by code_simp
  moreover have "filter (name_matches (display_name demo_inspector)) (ad_users demo_access) = [demo_inspector]"
    by code_simp
  moreover have "py_strip (display_name demo_inspector) = display_name demo_inspector" by code_simp
  moreover have "display_name demo_inspector \<noteq> []" by code_simp
  moreover have "acts_as_inspector (Some demo_inspector)" by code_simp
  moreover have "save_project (ad_users demo_access) (assignment_of demo_project) None
     (demo_project\<lparr>pj_inspector_user := None\<rparr>) (ad_projects demo_access) = (fst demo_saved, snd demo_saved)"
    by (simp add: demo_saved_def)
  ultimately have "pj_inspector_user (fst demo_saved) = Some (ac_id demo_inspector)
      \<and> in_scope (demo_access\<lparr>ad_projects := snd demo_saved\<rparr>) (Some demo_inspector) (pj_id demo_project)"
    by (rule clearing_the_assignment_is_undone)
  then show ?thesis by (simp add: demo_inspector_def demo_project_def)
qed

theorem save_project_assignment_witness:
  "pj_inspector_user (fst demo_saved) = Some 4"
proof -
  have eq: "save_project (ad_users demo_access) (assignment_of demo_project) None
     (demo_project\<lparr>pj_inspector_user := None\<rparr>) (ad_projects demo_access) = (fst demo_saved, snd demo_saved)"
    by (simp add: demo_saved_def)
  have "pj_inspector_user (fst demo_saved) \<noteq> None" by code_simp
  with save_project_assignment [OF eq] show ?thesis
    by (auto simp: demo_access_def demo_inspector_def split: if_splits)
qed

theorem delete_standing_witness:
  "gov_role (Some demo_inspector) = Some role_inspector \<and> \<not> gov_is_director (Some demo_inspector) DELETE"
proof -
  have "gov_role (Some demo_inspector) = Some role_inspector" "\<not> gov_is_agency_head (Some demo_inspector)"
    by code_simp+
  with delete_standing [of "Some demo_inspector"] show ?thesis by simp
qed

end
