(* ===== verification/Telemetry_Sessions.thy ===== *)
theory Telemetry_Sessions
  imports Py_Json Access
begin

text \<open>
  Live capture: \<^verbatim>\<open>apps/telemetry/models.py\<close> (sessions, their packets, the packet
  chain) and the session half of \<^verbatim>\<open>apps/telemetry/services.py\<close>: start, append, end.
  What a promotion writes into the registries is a parameter here, a function on an
  abstract world that refuses or returns the new world; \<^verbatim>\<open>Telemetry_Promotion\<close> gives
  the service's own appliers. Row identifiers (UUIDs in the source) are numbers handed out
  by the table, printed in decimal where the source prints them; the clock is read once per
  operation.
\<close>

section \<open>Rows\<close>

datatype tel_status = Tel_Open | Tel_Ended | Tel_Aborted

datatype tel_sync = Tel_Pending | Tel_Synced | Tel_Failed

datatype tel_data_type = Gpr | Pundit | Gnss | Scan

datatype tel_transport = Not_Recorded | Ble | Wifi | Cloud | File_Export | Manual

fun data_type_value :: "tel_data_type \<Rightarrow> string" where
  "data_type_value Gpr = ''gpr''"
| "data_type_value Pundit = ''pundit''"
| "data_type_value Gnss = ''gnss''"
| "data_type_value Scan = ''scan''"

record tel_session =
  tx_id :: nat
  tx_reference :: string
  tx_device :: nat
  tx_project :: nat
  tx_operator :: "nat option"
  tx_operator_name :: string
  tx_data_type :: tel_data_type
  tx_transport :: tel_transport
  tx_status :: tel_status
  tx_sync :: tel_sync
  tx_start :: "int option"
  tx_end :: "int option"
  tx_packet_count :: nat
  tx_config :: json
  tx_data_payload :: "json option"
  tx_sha256 :: string
  tx_file_name :: string
  tx_file_sha256 :: string
  tx_file_storage :: string
  tx_sync_error :: string
  tx_promoted_at :: "int option"
  tx_created_at :: int
  tx_updated_at :: int

record tel_packet =
  tp_session :: nat
  tp_sequence :: int
  tp_payload :: json
  tp_previous :: string
  tp_hash :: string
  tp_recorded_at :: "int option"
  tp_received_at :: int

record tel_db =
  td_sessions :: "tel_session list"
  td_packets :: "tel_packet list"
  td_next_id :: nat

record field_device =
  fd_id :: nat
  fd_device_id :: string
  fd_active :: bool
  fd_assigned_project :: "nat option"
  fd_registered_by :: "nat option"

datatype tel_error =
    OpenSessionExists string string
  | SessionNotOpen string tel_status
  | PayloadRequired
  | SequenceNotInteger
  | SequenceBelowOne
  | SequenceOverflow
  | PacketAlreadyReceived int
  | SessionAborted string
  | AlreadyPromoted string
  | NoPackets
  | PromotionFailed string
  | LabelRequired

text \<open>
  An infinite float as a sequence number makes \<^verbatim>\<open>int\<close> raise \<^verbatim>\<open>OverflowError\<close>,
  which nothing catches: that one is a server error.
\<close>

fun tel_error_status :: "tel_error \<Rightarrow> nat" where
  "tel_error_status (OpenSessionExists _ _) = 409"
| "tel_error_status (SessionNotOpen _ _) = 409"
| "tel_error_status (PacketAlreadyReceived _) = 409"
| "tel_error_status (SessionAborted _) = 409"
| "tel_error_status (AlreadyPromoted _) = 409"
| "tel_error_status SequenceOverflow = 500"
| "tel_error_status _ = 400"

definition ts_is_open :: "tel_session \<Rightarrow> bool" where
  "ts_is_open s \<longleftrightarrow> tx_status s = Tel_Open"

section \<open>Starting a session\<close>

definition operator_id :: "acc_user option \<Rightarrow> nat option" where
  "operator_id usr = map_option ac_id usr"

definition operator_name :: "acc_user option \<Rightarrow> string" where
  "operator_name usr =
     (case usr of None \<Rightarrow> [] | Some u \<Rightarrow> display_name u)"

definition open_on_device :: "nat \<Rightarrow> tel_session \<Rightarrow> bool" where
  "open_on_device dev s \<longleftrightarrow> tx_device s = dev \<and> tx_status s = Tel_Open"

text \<open>A new row, with the model's defaults. An anonymous operator is \<open>None\<close>.\<close>

definition new_session ::
    "int \<Rightarrow> string \<Rightarrow> nat \<Rightarrow> nat \<Rightarrow> nat \<Rightarrow> acc_user option \<Rightarrow> tel_data_type \<Rightarrow> tel_transport
     \<Rightarrow> json \<Rightarrow> int option \<Rightarrow> tel_session" where
  "new_session now ref pk dev project usr dt transport config start =
     \<lparr>tx_id = pk, tx_reference = ref, tx_device = dev, tx_project = project,
      tx_operator = operator_id usr, tx_operator_name = operator_name usr,
      tx_data_type = dt, tx_transport = transport, tx_status = Tel_Open, tx_sync = Tel_Pending,
      tx_start = start, tx_end = None, tx_packet_count = 0, tx_config = config,
      tx_data_payload = None, tx_sha256 = [], tx_file_name = [], tx_file_sha256 = [],
      tx_file_storage = [], tx_sync_error = [], tx_promoted_at = None,
      tx_created_at = now, tx_updated_at = now\<rparr>"

definition start_session ::
    "int \<Rightarrow> string \<Rightarrow> field_device \<Rightarrow> nat \<Rightarrow> acc_user option \<Rightarrow> tel_data_type \<Rightarrow> json
     \<Rightarrow> int option \<Rightarrow> tel_transport \<Rightarrow> tel_db \<Rightarrow> tel_error + (tel_session \<times> tel_db)" where
  "start_session now ref dev project usr dt config start transport db =
     (case first_where (open_on_device (fd_id dev)) (rev (sort_key tx_created_at (td_sessions db))) of
        Some s \<Rightarrow> Inl (OpenSessionExists (fd_device_id dev) (tx_reference s))
      | None \<Rightarrow>
          let s = new_session now ref (td_next_id db) (fd_id dev) project usr dt transport
                    (json_or config (JObj [])) start
          in Inr (s, db\<lparr>td_sessions := td_sessions db @ [s], td_next_id := Suc (td_next_id db)\<rparr>))"

section \<open>Appending packets\<close>

definition packets_of :: "nat \<Rightarrow> tel_db \<Rightarrow> tel_packet list" where
  "packets_of sid db = sort_key tp_sequence (filter (\<lambda>p. tp_session p = sid) (td_packets db))"

text \<open>\<^verbatim>\<open>session.packets.order_by('-sequence').first()\<close>\<close>

definition highest_packet :: "nat \<Rightarrow> tel_db \<Rightarrow> tel_packet option" where
  "highest_packet sid db = (case rev (packets_of sid db) of [] \<Rightarrow> None | p # _ \<Rightarrow> Some p)"

definition packet_sequence :: "json \<Rightarrow> tel_packet option \<Rightarrow> tel_error + int" where
  "packet_sequence sequence highest =
     (if sequence = JNull then Inr ((case highest of None \<Rightarrow> 0 | Some p \<Rightarrow> tp_sequence p) + 1)
      else case py_int sequence of
        Py_Int n \<Rightarrow> bind_r (check (1 \<le> n) SequenceBelowOne) (\<lambda>_. Inr n)
      | Py_ValueError \<Rightarrow> Inl SequenceNotInteger
      | Py_OverflowError \<Rightarrow> Inl SequenceOverflow)"

text \<open>
  The reads of \<^verbatim>\<open>append_packet\<close> come before its transaction: they yield the position
  and the digest to chain to. \<open>s\<close> is the session object the caller loaded.
\<close>

definition append_prepare ::
    "tel_session \<Rightarrow> json \<Rightarrow> json \<Rightarrow> tel_db \<Rightarrow> tel_error + (int \<times> string)" where
  "append_prepare s payload sequence db =
     bind_r (check (ts_is_open s) (SessionNotOpen (tx_reference s) (tx_status s))) (\<lambda>_.
     bind_r (check (payload \<noteq> JNull) PayloadRequired) (\<lambda>_.
     bind_r (packet_sequence sequence (highest_packet (tx_id s) db)) (\<lambda>n.
     Inr (n, case highest_packet (tx_id s) db of None \<Rightarrow> [] | Some p \<Rightarrow> tp_hash p))))"

definition new_packet ::
    "(string \<Rightarrow> string) \<Rightarrow> int \<Rightarrow> nat \<Rightarrow> int \<Rightarrow> json \<Rightarrow> string \<Rightarrow> int option \<Rightarrow> tel_packet" where
  "new_packet H now sid n payload previous recorded_at =
     \<lparr>tp_session = sid, tp_sequence = n, tp_payload = payload, tp_previous = previous,
      tp_hash = chain_hash H previous n payload, tp_recorded_at = recorded_at, tp_received_at = now\<rparr>"

definition insert_packet :: "tel_packet \<Rightarrow> tel_db \<Rightarrow> tel_db" where
  "insert_packet p db =
     (let ps = td_packets db @ [p]
      in db\<lparr>td_packets := ps,
            td_sessions := update_where (\<lambda>s. tx_id s = tp_session p)
              (\<lambda>s. s\<lparr>tx_packet_count := rows_where (\<lambda>q. tp_session q = tp_session p) ps\<rparr>)
              (td_sessions db)\<rparr>)"

definition append_commit ::
    "(string \<Rightarrow> string) \<Rightarrow> int \<Rightarrow> nat \<Rightarrow> int \<times> string \<Rightarrow> json \<Rightarrow> int option \<Rightarrow> tel_db
     \<Rightarrow> tel_error + (tel_packet \<times> tel_db)" where
  "append_commit H now sid prepared payload recorded_at db =
     (let (n, previous) = prepared;
          p = new_packet H now sid n payload previous recorded_at
      in if list_ex (\<lambda>q. tp_session q = sid \<and> tp_sequence q = n) (td_packets db)
         then Inl (PacketAlreadyReceived n)
         else Inr (p, insert_packet p db))"

definition append_packet ::
    "(string \<Rightarrow> string) \<Rightarrow> int \<Rightarrow> tel_session \<Rightarrow> json \<Rightarrow> json \<Rightarrow> int option \<Rightarrow> tel_db
     \<Rightarrow> tel_error + (tel_packet \<times> tel_db)" where
  "append_packet H now s payload sequence recorded_at db =
     bind_r (append_prepare s payload sequence db) (\<lambda>prepared.
       append_commit H now (tx_id s) prepared payload recorded_at db)"

section \<open>The chain\<close>

fun chain_ok :: "(string \<Rightarrow> string) \<Rightarrow> string \<Rightarrow> tel_packet list \<Rightarrow> bool" where
  "chain_ok H previous [] = True"
| "chain_ok H previous (p # ps) =
     (tp_hash p = chain_hash H previous (tp_sequence p) (tp_payload p) \<and> chain_ok H (tp_hash p) ps)"

definition verify_chain :: "(string \<Rightarrow> string) \<Rightarrow> nat \<Rightarrow> tel_db \<Rightarrow> bool" where
  "verify_chain H sid db = chain_ok H [] (packets_of sid db)"

section \<open>Ending and promoting\<close>

definition packet_json :: "tel_packet \<Rightarrow> json" where
  "packet_json p = JObj [(''sequence'', JInt (tp_sequence p)), (''payload'', tp_payload p),
     (''recorded_at'', iso_or_null (tp_recorded_at p))]"

definition session_envelope :: "string \<Rightarrow> tel_session \<Rightarrow> tel_packet list \<Rightarrow> json" where
  "session_envelope device_id s ps =
     JObj [(''session_reference'', JStr (tx_reference s)),
           (''device'', JStr device_id),
           (''project'', JStr (show_nat (tx_project s))),
           (''data_type'', JStr (data_type_value (tx_data_type s))),
           (''session_config'', tx_config s),
           (''packets'', JArr (map packet_json ps))]"

text \<open>
  An applier sees the session object, its packets in order and the registries, and either
  raises (the text is \<^verbatim>\<open>describe_drf_error\<close>'s) or returns its report and the registries.
\<close>

type_synonym 'w promote = "tel_session \<Rightarrow> tel_packet list \<Rightarrow> 'w \<Rightarrow> string + (json \<times> 'w)"

definition update_session :: "nat \<Rightarrow> (tel_session \<Rightarrow> tel_session) \<Rightarrow> tel_db \<Rightarrow> tel_db" where
  "update_session sid f db =
     db\<lparr>td_sessions := update_where (\<lambda>s. tx_id s = sid) f (td_sessions db)\<rparr>"

definition or_now :: "int option \<Rightarrow> int \<Rightarrow> int option" where
  "or_now t now = (case t of None \<Rightarrow> Some now | Some x \<Rightarrow> Some x)"

definition session_promoted ::
    "(string \<Rightarrow> string) \<Rightarrow> int \<Rightarrow> tel_session \<Rightarrow> json \<Rightarrow> tel_session \<Rightarrow> tel_session" where
  "session_promoted H now s env row =
     row\<lparr>tx_status := Tel_Ended, tx_end := or_now (tx_end s) now, tx_data_payload := Some env,
         tx_sha256 := H (canonical_json env), tx_sync := Tel_Synced, tx_sync_error := [],
         tx_promoted_at := Some now, tx_updated_at := now\<rparr>"

definition session_failed :: "int \<Rightarrow> tel_session \<Rightarrow> string \<Rightarrow> tel_session \<Rightarrow> tel_session" where
  "session_failed now s reason row =
     row\<lparr>tx_status := Tel_Ended, tx_end := or_now (tx_end s) now, tx_sync := Tel_Failed,
         tx_sync_error := take 2000 reason, tx_updated_at := now\<rparr>"

definition end_checks :: "tel_session \<Rightarrow> tel_packet list \<Rightarrow> tel_error + unit" where
  "end_checks s ps =
     bind_r (check (tx_status s \<noteq> Tel_Aborted) (SessionAborted (tx_reference s))) (\<lambda>_.
     bind_r (check (tx_sync s \<noteq> Tel_Synced) (AlreadyPromoted (tx_reference s))) (\<lambda>_.
     check (ps \<noteq> []) NoPackets))"

text \<open>
  \<open>s\<close> is the session object the view loaded. The result is the answer, the session tables
  and the registries: on a failed promotion the registries are the old ones and the session
  keeps the reason.
\<close>

definition end_session ::
    "(string \<Rightarrow> string) \<Rightarrow> int \<Rightarrow> (tel_data_type \<Rightarrow> 'w promote) \<Rightarrow> (nat \<Rightarrow> string)
     \<Rightarrow> tel_session \<Rightarrow> tel_db \<Rightarrow> 'w \<Rightarrow> (tel_error + json) \<times> tel_db \<times> 'w" where
  "end_session H now appliers device_id s db w =
     (let ps = packets_of (tx_id s) db
      in case end_checks s ps of
           Inl e \<Rightarrow> (Inl e, db, w)
         | Inr _ \<Rightarrow>
             (let env = session_envelope (device_id (tx_device s)) s ps
              in case appliers (tx_data_type s) s ps w of
                   Inl reason \<Rightarrow>
                     (Inl (PromotionFailed reason),
                      update_session (tx_id s) (session_failed now s reason) db, w)
                 | Inr (promoted, w') \<Rightarrow>
                     (Inr promoted, update_session (tx_id s) (session_promoted H now s env) db, w')))"

section \<open>Sorting packets\<close>

lemma sort_key_insert:
  assumes "\<forall>y \<in> set xs. f y \<noteq> f x"
  shows "sort_key f (xs @ [x])
    = filter (\<lambda>y. f y < f x) (sort_key f xs) @ x # filter (\<lambda>y. f x < f y) (sort_key f xs)"
    (is "_ = ?lo @ x # ?hi")
proof (rule properties_for_sort_key)
  have lohi: "mset ?lo + mset ?hi = mset xs"
  proof -
    have "filter (\<lambda>y. f x < f y) (sort_key f xs) = filter (\<lambda>y. \<not> f y < f x) (sort_key f xs)"
      using assms by (intro filter_cong) force+
    then show ?thesis using multiset_partition [of "mset xs" "\<lambda>y. f y < f x"] by simp
  qed
  then show "mset (?lo @ x # ?hi) = mset (xs @ [x])" by simp
  show "filter (\<lambda>y. f k = f y) (?lo @ x # ?hi) = filter (\<lambda>y. f k = f y) (xs @ [x])"
    if "k \<in> set (?lo @ x # ?hi)" for k
  proof (cases "f k = f x")
    case True
    moreover from this assms have "filter (\<lambda>y. f k = f y) xs = []"
      "filter (\<lambda>y. f k = f y) ?lo = []" "filter (\<lambda>y. f k = f y) ?hi = []"
      by (auto simp: filter_empty_conv)
    ultimately show ?thesis by simp
  next
    case False
    have "filter (\<lambda>y. f k = f y) ?lo @ filter (\<lambda>y. f k = f y) ?hi
        = filter (\<lambda>y. f k = f y) (sort_key f xs)"
    proof (cases "f k < f x")
      case True
      then have "filter (\<lambda>y. f k = f y) ?hi = []"
        "filter (\<lambda>y. f k = f y) ?lo = filter (\<lambda>y. f k = f y) (sort_key f xs)"
        by (auto simp: filter_empty_conv intro!: filter_cong)
      then show ?thesis by (simp del: filter_filter)
    next
      case 2: False
      with False have "filter (\<lambda>y. f k = f y) ?lo = []"
        "filter (\<lambda>y. f k = f y) ?hi = filter (\<lambda>y. f k = f y) (sort_key f xs)"
        by (auto simp: filter_empty_conv intro!: filter_cong)
      then show ?thesis by (simp del: filter_filter)
    qed
    also have "\<dots> = filter (\<lambda>y. f k = f y) xs"
      using sort_key_stable [of f "f k" xs] by (simp only: eq_commute [of "f k"])
    finally show ?thesis using False by simp
  qed
  have "sorted (map f (sort_key f xs))" by simp
  then have "sorted (map f ?lo)" "sorted (map f ?hi)" by (rule sorted_filter)+
  moreover have "\<forall>a \<in> set ?lo. \<forall>b \<in> set ?hi. f a \<le> f b" by auto
  ultimately show "sorted (map f (?lo @ x # ?hi))" by (auto simp: sorted_append)
qed

section \<open>The chain of a session\<close>

definition last_hash :: "string \<Rightarrow> tel_packet list \<Rightarrow> string" where
  "last_hash previous ps = (if ps = [] then previous else tp_hash (last ps))"

lemma last_hash_simps [simp]:
  "last_hash previous [] = previous" "last_hash previous (p # ps) = last_hash (tp_hash p) ps"
  "last_hash previous (ps @ [p]) = tp_hash p"
  by (simp_all add: last_hash_def)

lemma chain_ok_append [simp]:
  "chain_ok H previous (ps @ qs) \<longleftrightarrow> chain_ok H previous ps \<and> chain_ok H (last_hash previous ps) qs"
  by (induction ps arbitrary: previous) auto

lemma highest_packet_eq:
  "highest_packet sid db = (if packets_of sid db = [] then None else Some (last (packets_of sid db)))"
  unfolding highest_packet_def
  by (cases "packets_of sid db" rule: rev_cases) simp_all

lemma set_packets_of: "set (packets_of sid db) = {p \<in> set (td_packets db). tp_session p = sid}"
  by (simp add: packets_of_def)

lemma sorted_packets_of: "sorted (map tp_sequence (packets_of sid db))"
  by (simp add: packets_of_def)

text \<open>Is the position \<open>n\<close> after everything the session holds?\<close>

definition in_order :: "nat \<Rightarrow> tel_db \<Rightarrow> int \<Rightarrow> bool" where
  "in_order sid db n \<longleftrightarrow> list_all (\<lambda>q. tp_sequence q < n) (packets_of sid db)"

lemma append_packetE:
  assumes "append_packet H now s payload sequence recorded_at db = Inr (p, db')"
  obtains "tx_status s = Tel_Open" "payload \<noteq> JNull"
    "packet_sequence sequence (highest_packet (tx_id s) db) = Inr (tp_sequence p)"
    "tp_session p = tx_id s" "tp_payload p = payload"
    "tp_previous p = last_hash [] (packets_of (tx_id s) db)"
    "tp_hash p = chain_hash H (last_hash [] (packets_of (tx_id s) db)) (tp_sequence p) payload"
    "\<forall>q \<in> set (td_packets db). tp_session q = tx_id s \<longrightarrow> tp_sequence q \<noteq> tp_sequence p"
    "db' = insert_packet p db"
proof -
  have "(case highest_packet (tx_id s) db of None \<Rightarrow> [] | Some p \<Rightarrow> tp_hash p)
      = last_hash [] (packets_of (tx_id s) db)"
    by (simp add: highest_packet_eq last_hash_def)
  with assms that show ?thesis
    by (auto simp: append_packet_def append_prepare_def append_commit_def Let_def bind_r_Inr_iff
        ts_is_open_def new_packet_def list_ex_iff split: if_splits)
qed

lemma packets_of_insert:
  assumes "\<forall>q \<in> set (td_packets db). tp_session q = tp_session p \<longrightarrow> tp_sequence q \<noteq> tp_sequence p"
  shows "packets_of (tp_session p) (insert_packet p db) =
    filter (\<lambda>q. tp_sequence q < tp_sequence p) (packets_of (tp_session p) db)
    @ p # filter (\<lambda>q. tp_sequence p < tp_sequence q) (packets_of (tp_session p) db)"
  using sort_key_insert [of "filter (\<lambda>q. tp_session q = tp_session p) (td_packets db)" tp_sequence p] assms
  by (simp add: packets_of_def insert_packet_def Let_def)

lemma packets_of_insert_other:
  "sid \<noteq> tp_session p \<Longrightarrow> packets_of sid (insert_packet p db) = packets_of sid db"
  by (simp add: packets_of_def insert_packet_def Let_def)

lemma packets_of_update_session [simp]: "packets_of sid (update_session k f db) = packets_of sid db"
  by (simp add: packets_of_def update_session_def)

lemma filter_split_sorted:
  fixes f :: "'a \<Rightarrow> int"
  assumes "sorted (map f xs)" "\<forall>x \<in> set xs. f x \<noteq> n"
  shows "xs = filter (\<lambda>x. f x < n) xs @ filter (\<lambda>x. n < f x) xs"
  using assms
proof (induction xs)
  case (Cons x xs)
  show ?case
  proof (cases "f x < n")
    case True
    with Cons show ?thesis by simp
  next
    case False
    with Cons.prems have "\<forall>y \<in> set (x # xs). n < f y" by force
    then have "filter (\<lambda>x. f x < n) (x # xs) = []" "filter (\<lambda>x. n < f x) (x # xs) = x # xs"
      by (auto simp: filter_empty_conv filter_id_conv)
    then show ?thesis by simp
  qed
qed simp

text \<open>
  Two links of one session are the same only if they are at the same position, for a digest
  that writes no colon and tells the two link texts apart.
\<close>

definition link_text :: "string \<Rightarrow> tel_packet \<Rightarrow> string" where
  "link_text previous p = chain_input previous (tp_sequence p) (tp_payload p)"

fun link_texts :: "string \<Rightarrow> tel_packet list \<Rightarrow> string list" where
  "link_texts previous [] = []"
| "link_texts previous (p # ps) = link_text previous p # link_texts (tp_hash p) ps"

definition plain_digest :: "(string \<Rightarrow> string) \<Rightarrow> bool" where
  "plain_digest H \<longleftrightarrow> (\<forall>s. H s \<noteq> [] \<and> CHR '':'' \<notin> set (H s))"

lemma plain_sha256: "plain_digest sha256_hex"
  using sha256.digest_no_colon sha256.digest_ne by (simp add: plain_digest_def)

lemma link_texts_append [simp]:
  "link_texts previous (ps @ qs) = link_texts previous ps @ link_texts (last_hash previous ps) qs"
  by (induction ps arbitrary: previous) auto

lemma chain_ok_colon_free:
  "plain_digest H \<Longrightarrow> CHR '':'' \<notin> set previous \<Longrightarrow> chain_ok H previous ps \<Longrightarrow>
   CHR '':'' \<notin> set (last_hash previous ps)"
  by (induction ps arbitrary: previous) (auto simp: plain_digest_def chain_hash_def)

lemma chain_head_colon_free:
  "plain_digest H \<Longrightarrow> chain_ok H [] ps \<Longrightarrow> CHR '':'' \<notin> set (last_hash [] ps)"
  by (rule chain_ok_colon_free) simp_all

lemma link_injD:
  assumes "plain_digest H" "inj_on H T" "link_text previous p \<in> T" "link_text previous' q \<in> T"
    and "CHR '':'' \<notin> set previous" "CHR '':'' \<notin> set previous'"
    and "wf_json (tp_payload p)" "wf_json (tp_payload q)"
    and "chain_hash H previous (tp_sequence p) (tp_payload p)
       = chain_hash H previous' (tp_sequence q) (tp_payload q)"
  shows "previous = previous' \<and> tp_sequence p = tp_sequence q
    \<and> json_norm (tp_payload p) = json_norm (tp_payload q)"
proof -
  have "link_text previous p = link_text previous' q"
    using assms(9) inj_onD [OF assms(2) _ assms(3,4)] by (simp add: chain_hash_def link_text_def)
  then show ?thesis
    using chain_input_inj assms(5-8) unfolding link_text_def by blast
qed

lemma chain_ok_snoc:
  "chain_ok H [] (ps @ [q]) \<Longrightarrow>
   tp_hash q = chain_hash H (last_hash [] ps) (tp_sequence q) (tp_payload q)
   \<and> link_text (last_hash [] ps) q \<in> set (link_texts [] (ps @ [q]))"
  by simp

lemma distinct_positions_distinct_links:
  assumes "plain_digest H" "chain_ok H [] (ps @ [p])" "chain_ok H [] (qs @ [q])"
    and "inj_on H T" "set (link_texts [] (ps @ [p])) \<subseteq> T" "set (link_texts [] (qs @ [q])) \<subseteq> T"
    and "wf_json (tp_payload p)" "wf_json (tp_payload q)"
    and "tp_hash p = tp_hash q"
  shows "last_hash [] ps = last_hash [] qs \<and> tp_sequence p = tp_sequence q
    \<and> json_norm (tp_payload p) = json_norm (tp_payload q)"
proof (rule link_injD [OF assms(1,4)])
  show "chain_hash H (last_hash [] ps) (tp_sequence p) (tp_payload p)
      = chain_hash H (last_hash [] qs) (tp_sequence q) (tp_payload q)"
    using assms(2,3,9) by simp
  show "CHR '':'' \<notin> set (last_hash [] ps)" "CHR '':'' \<notin> set (last_hash [] qs)"
    using assms(2,3) by (simp_all add: chain_head_colon_free [OF assms(1)])
qed (use assms in \<open>auto dest: chain_ok_snoc\<close>)

definition packet_content :: "tel_packet \<Rightarrow> int \<times> json" where
  "packet_content p = (tp_sequence p, json_norm (tp_payload p))"

lemma chain_head_content:
  assumes "plain_digest H" "inj_on H T"
  shows "chain_ok H [] ps \<Longrightarrow> chain_ok H [] qs \<Longrightarrow> last_hash [] ps = last_hash [] qs \<Longrightarrow>
    set (link_texts [] ps) \<subseteq> T \<Longrightarrow> set (link_texts [] qs) \<subseteq> T \<Longrightarrow>
    \<forall>p \<in> set ps \<union> set qs. wf_json (tp_payload p) \<Longrightarrow>
    map packet_content ps = map packet_content qs"
proof (induction ps arbitrary: qs rule: rev_induct)
  case Nil
  show ?case
  proof (cases qs rule: rev_cases)
    case (snoc qs' q)
    with Nil.prems have "chain_hash H (last_hash [] qs') (tp_sequence q) (tp_payload q) = []" by simp
    with assms(1) show ?thesis by (simp add: plain_digest_def chain_hash_def)
  qed simp
next
  case (snoc p ps)
  show ?case
  proof (cases qs rule: rev_cases)
    case Nil
    with snoc.prems have "chain_hash H (last_hash [] ps) (tp_sequence p) (tp_payload p) = []" by simp
    with assms(1) show ?thesis by (simp add: plain_digest_def chain_hash_def)
  next
    case qs: (snoc qs' q)
    have eq: "last_hash [] ps = last_hash [] qs' \<and> tp_sequence p = tp_sequence q
        \<and> json_norm (tp_payload p) = json_norm (tp_payload q)"
      by (rule distinct_positions_distinct_links [OF assms(1) _ _ assms(2)])
        (use snoc.prems qs in simp_all)
    with snoc.prems have "map packet_content ps = map packet_content qs'"
      by (intro snoc.IH) (simp_all add: qs)
    with eq show ?thesis unfolding qs by (simp add: packet_content_def [of p] packet_content_def [of q])
  qed
qed

text \<open>The texts that get digested when \<open>p\<close> joins its session.\<close>

definition append_texts :: "nat \<Rightarrow> tel_db \<Rightarrow> tel_packet \<Rightarrow> string set" where
  "append_texts sid db p = set (link_texts [] (packets_of sid db))
     \<union> (\<lambda>h. link_text h p) ` set ([] # map tp_hash (packets_of sid db))"

lemma last_hash_in: "last_hash [] ps \<in> set ([] # map tp_hash ps)"
  by (cases ps rule: rev_cases) simp_all

lemma late_packet_breaks_chain:
  assumes dig: "plain_digest H" and inj: "inj_on H (append_texts sid db p)"
    and ok: "chain_ok H [] (lo @ hi)" and ps: "packets_of sid db = lo @ hi" and hi: "hi \<noteq> []"
    and seq: "\<forall>q \<in> set lo. tp_sequence q < tp_sequence p" "\<forall>q \<in> set hi. tp_sequence p < tp_sequence q"
    and wf: "\<forall>q \<in> set (lo @ p # hi). wf_json (tp_payload q)"
    and hash: "tp_hash p = chain_hash H (last_hash [] (lo @ hi)) (tp_sequence p) (tp_payload p)"
  shows "\<not> chain_ok H [] (lo @ p # hi)"
proof
  let ?T = "append_texts sid db p"
  assume "chain_ok H [] (lo @ p # hi)"
  then have p: "tp_hash p = chain_hash H (last_hash [] lo) (tp_sequence p) (tp_payload p)" by simp
  have "last_hash [] lo \<in> set ([] # map tp_hash (packets_of sid db))"
    using last_hash_in [of lo] by (auto simp: ps)
  then have inT: "link_text (last_hash [] lo) p \<in> ?T" "link_text (last_hash [] (lo @ hi)) p \<in> ?T"
    using last_hash_in [of "lo @ hi"] unfolding append_texts_def ps by blast+
  have "CHR '':'' \<notin> set (last_hash [] lo)" "CHR '':'' \<notin> set (last_hash [] (lo @ hi))"
    using ok chain_head_colon_free [OF dig] chain_ok_append by blast+
  from link_injD [OF dig inj inT this] wf p hash
  have same: "last_hash [] lo = last_hash [] (lo @ hi)" by simp
  obtain hi' q where hi': "hi = hi' @ [q]" using hi by (cases hi rule: rev_cases) simp_all
  show False
  proof (cases lo rule: rev_cases)
    case Nil
    with same ok hi' have "chain_hash H (last_hash [] hi') (tp_sequence q) (tp_payload q) = []" by simp
    with dig show False by (simp add: plain_digest_def chain_hash_def)
  next
    case (snoc lo' r)
    have lo: "chain_ok H [] (lo' @ [r])" and all: "chain_ok H [] ((lo @ hi') @ [q])"
      and sub: "set (link_texts [] (lo' @ [r])) \<subseteq> ?T" "set (link_texts [] ((lo @ hi') @ [q])) \<subseteq> ?T"
      using ok by (auto simp: hi' snoc append_texts_def ps)
    have "tp_hash r = last_hash [] ((lo @ hi') @ [q])"
      using same by (simp only: snoc hi' append_assoc last_hash_simps)
    then have "tp_hash r = tp_hash q" by (simp only: last_hash_simps)
    moreover have "wf_json (tp_payload r)" "wf_json (tp_payload q)"
      using wf by (simp_all add: snoc hi')
    ultimately have "tp_sequence r = tp_sequence q"
      using distinct_positions_distinct_links [OF dig lo all inj sub] by blast
    moreover have "tp_sequence r < tp_sequence p" "tp_sequence p < tp_sequence q"
      using seq by (simp_all add: snoc hi')
    ultimately show False by simp
  qed
qed

section \<open>The invariant of the session tables\<close>

text \<open>
  A promoted session carries the envelope of what its rows still say, and its digest; a
  session that is not promoted carries none. Nothing in the source aborts a session.
\<close>

definition attested :: "(string \<Rightarrow> string) \<Rightarrow> json \<Rightarrow> tel_session \<Rightarrow> bool" where
  "attested H env s \<longleftrightarrow> tx_data_payload s = Some env \<and> tx_sha256 s = H (canonical_json env)
     \<and> tx_promoted_at s \<noteq> None"

definition session_ok :: "(string \<Rightarrow> string) \<Rightarrow> (nat \<Rightarrow> string) \<Rightarrow> tel_packet list \<Rightarrow> tel_session \<Rightarrow> bool" where
  "session_ok H device_id ps s \<longleftrightarrow>
     tx_packet_count s = length ps \<and> tx_status s \<noteq> Tel_Aborted
     \<and> (tx_sync s \<noteq> Tel_Pending \<longrightarrow> tx_status s = Tel_Ended)
     \<and> (if tx_sync s = Tel_Synced
        then ps \<noteq> [] \<and> attested H (session_envelope (device_id (tx_device s)) s ps) s
        else tx_data_payload s = None \<and> tx_sha256 s = [] \<and> tx_promoted_at s = None)"

definition packet_ok :: "(string \<Rightarrow> string) \<Rightarrow> tel_packet \<Rightarrow> bool" where
  "packet_ok H p \<longleftrightarrow> 1 \<le> tp_sequence p
     \<and> tp_hash p = chain_hash H (tp_previous p) (tp_sequence p) (tp_payload p)"

definition tel_inv :: "(string \<Rightarrow> string) \<Rightarrow> (nat \<Rightarrow> string) \<Rightarrow> tel_db \<Rightarrow> bool" where
  "tel_inv H device_id db \<longleftrightarrow>
     distinct (map tx_id (td_sessions db))
     \<and> (\<forall>s \<in> set (td_sessions db). tx_id s < td_next_id db)
     \<and> distinct (map tx_device (filter ts_is_open (td_sessions db)))
     \<and> (\<forall>p \<in> set (td_packets db). tp_session p \<in> tx_id ` set (td_sessions db) \<and> packet_ok H p)
     \<and> distinct (map (\<lambda>p. (tp_session p, tp_sequence p)) (td_packets db))
     \<and> (\<forall>s \<in> set (td_sessions db). session_ok H device_id (packets_of (tx_id s) db) s)"

lemma tel_invD:
  assumes "tel_inv H device_id db"
  shows "distinct (map tx_id (td_sessions db))"
    "s \<in> set (td_sessions db) \<Longrightarrow> tx_id s < td_next_id db"
    "distinct (map tx_device (filter ts_is_open (td_sessions db)))"
    "p \<in> set (td_packets db) \<Longrightarrow> tp_session p \<in> tx_id ` set (td_sessions db)"
    "p \<in> set (td_packets db) \<Longrightarrow> packet_ok H p"
    "distinct (map (\<lambda>p. (tp_session p, tp_sequence p)) (td_packets db))"
    "s \<in> set (td_sessions db) \<Longrightarrow> session_ok H device_id (packets_of (tx_id s) db) s"
  using assms unfolding tel_inv_def by blast+

lemma ids_below:
  assumes "map k xs = map k ys" "\<forall>y \<in> set ys. k y < n"
  shows "\<forall>x \<in> set xs. k x < n"
proof -
  have "k ` set xs = k ` set ys" using assms(1) by (metis list.set_map)
  with assms(2) show ?thesis by (metis image_iff)
qed

lemma next_id_fresh: "tel_inv H device_id db \<Longrightarrow> td_next_id db \<notin> tx_id ` set (td_sessions db)"
  unfolding tel_inv_def by force

lemma session_envelope_cong:
  "tx_reference s = tx_reference r \<Longrightarrow> tx_project s = tx_project r \<Longrightarrow>
   tx_data_type s = tx_data_type r \<Longrightarrow> tx_config s = tx_config r \<Longrightarrow>
   session_envelope d s ps = session_envelope d r ps"
  by (simp add: session_envelope_def)

lemma start_sessionE:
  assumes "start_session now ref dev project usr dt config start transport db = Inr (s, db')"
  obtains "\<forall>r \<in> set (td_sessions db). \<not> open_on_device (fd_id dev) r"
    "s = new_session now ref (td_next_id db) (fd_id dev) project usr dt transport
           (json_or config (JObj [])) start"
    "db' = db\<lparr>td_sessions := td_sessions db @ [s], td_next_id := Suc (td_next_id db)\<rparr>"
  using assms that
  by (auto simp: start_session_def Let_def first_where_None split: option.splits)

lemma packets_of_more_sessions [simp]:
  "packets_of sid (db\<lparr>td_sessions := ss, td_next_id := n\<rparr>) = packets_of sid db"
  by (simp add: packets_of_def)

lemma start_session_inv:
  assumes inv: "tel_inv H device_id db"
    and start: "start_session now ref dev project usr dt config start transport db = Inr (s, db')"
  shows "tel_inv H device_id db'"
proof -
  from start obtain none: "\<forall>r \<in> set (td_sessions db). \<not> open_on_device (fd_id dev) r"
    and s: "s = new_session now ref (td_next_id db) (fd_id dev) project usr dt transport
           (json_or config (JObj [])) start"
    and db': "db' = db\<lparr>td_sessions := td_sessions db @ [s], td_next_id := Suc (td_next_id db)\<rparr>"
    by (rule start_sessionE)
  have new: "tx_id s = td_next_id db" "ts_is_open s" "tx_device s = fd_id dev" "tx_sync s = Tel_Pending"
    by (simp_all add: s new_session_def ts_is_open_def)
  have "tp_session p \<noteq> td_next_id db" if "p \<in> set (td_packets db)" for p
    using tel_invD(4) [OF inv that] next_id_fresh [OF inv] by metis
  then have "packets_of (td_next_id db) db = []"
    by (simp add: packets_of_def filter_empty_conv)
  then have "session_ok H device_id (packets_of (tx_id s) db) s"
    by (simp add: new session_ok_def) (simp add: s new_session_def)
  moreover have "tx_id s \<notin> tx_id ` set (td_sessions db)"
    using next_id_fresh [OF inv] by (simp add: new)
  moreover have "fd_id dev \<notin> tx_device ` set (filter ts_is_open (td_sessions db))"
    using none by (auto simp: open_on_device_def ts_is_open_def)
  ultimately show ?thesis
    using inv by (auto simp: tel_inv_def db' new less_Suc_eq)
qed

lemma filter_open_update:
  assumes "\<And>s. P s \<Longrightarrow> \<not> ts_is_open (f s)"
  shows "filter ts_is_open (update_where P f rows) = filter (\<lambda>s. \<not> P s) (filter ts_is_open rows)"
  using assms by (induction rows) auto

lemma update_session_inv:
  assumes inv: "tel_inv H device_id db" and s: "s \<in> set (td_sessions db)"
    and frame: "\<And>r. tx_id (f r) = tx_id r" "\<And>r. \<not> ts_is_open (f r)"
    and ok: "session_ok H device_id (packets_of (tx_id s) db) (f s)"
  shows "tel_inv H device_id (update_session (tx_id s) f db)"
proof -
  let ?rows = "update_where (\<lambda>r. tx_id r = tx_id s) f (td_sessions db)"
  have ids: "map tx_id ?rows = map tx_id (td_sessions db)"
    by (rule map_update_where) (rule frame)
  then have id_set: "tx_id ` set ?rows = tx_id ` set (td_sessions db)"
    by (metis list.set_map)
  have "distinct (map tx_device (filter ts_is_open ?rows))"
    using tel_invD(3) [OF inv] frame(2)
    by (subst filter_open_update) (simp_all add: distinct_map_filter del: filter_filter)
  moreover have "session_ok H device_id (packets_of (tx_id r) db) r" if "r \<in> set ?rows" for r
  proof (rule in_update_whereE [OF that])
    fix q assume q: "q \<in> set (td_sessions db)" "tx_id q = tx_id s" "r = f q"
    with s have "q = s" by (blast intro: distinct_map_key [OF tel_invD(1) [OF inv]])
    with q ok frame show ?thesis by simp
  next
    assume "r \<in> set (td_sessions db)"
    then show ?thesis by (rule tel_invD(7) [OF inv])
  qed
  moreover have "\<forall>r \<in> set ?rows. tx_id r < td_next_id db"
    using ids by (rule ids_below) (use tel_invD(2) [OF inv] in blast)
  ultimately show ?thesis
    using inv ids id_set by (simp add: tel_inv_def update_session_def packets_of_def)
qed

lemma append_packet_inv:
  assumes inv: "tel_inv H device_id db" and s: "s \<in> set (td_sessions db)"
    and app: "append_packet H now s payload sequence recorded_at db = Inr (p, db')"
  shows "tel_inv H device_id db'"
proof -
  from app obtain open_s: "tx_status s = Tel_Open"
    and seq: "packet_sequence sequence (highest_packet (tx_id s) db) = Inr (tp_sequence p)"
    and sid: "tp_session p = tx_id s" and content: "tp_payload p = payload"
      "tp_previous p = last_hash [] (packets_of (tx_id s) db)"
      "tp_hash p = chain_hash H (last_hash [] (packets_of (tx_id s) db)) (tp_sequence p) payload"
    and fresh: "\<forall>q \<in> set (td_packets db). tp_session q = tx_id s \<longrightarrow> tp_sequence q \<noteq> tp_sequence p"
    and db': "db' = insert_packet p db"
    by (rule append_packetE)
  have "1 \<le> tp_sequence q" if "highest_packet (tx_id s) db = Some q" for q
  proof -
    from that have "q \<in> set (packets_of (tx_id s) db)"
      by (simp add: highest_packet_eq split: if_splits) (metis last_in_set)
    then show ?thesis using tel_invD(5) [OF inv] by (auto simp: set_packets_of packet_ok_def)
  qed
  with seq have "1 \<le> tp_sequence p"
    by (force simp: packet_sequence_def bind_r_Inr_iff split: if_splits py_int_result.splits option.splits)
  then have pok: "packet_ok H p" by (simp add: packet_ok_def content)
  let ?f = "\<lambda>r. r\<lparr>tx_packet_count := rows_where (\<lambda>q. tp_session q = tx_id s) (td_packets db @ [p])\<rparr>"
  let ?rows = "update_where (\<lambda>r. tx_id r = tx_id s) ?f (td_sessions db)"
  have rows: "td_sessions db' = ?rows" "td_packets db' = td_packets db @ [p]" "td_next_id db' = td_next_id db"
    by (simp_all add: db' insert_packet_def Let_def sid)
  have ids: "map tx_id ?rows = map tx_id (td_sessions db)"
    by (rule map_update_where) simp
  then have id_set: "tx_id ` set ?rows = tx_id ` set (td_sessions db)"
    by (metis list.set_map)
  have dev: "map tx_device (filter ts_is_open ?rows) = map tx_device (filter ts_is_open (td_sessions db))" for rows
    by (induction "td_sessions db") (simp_all add: ts_is_open_def update_where_def filter_map comp_def if_distrib cong: if_cong)
  have "session_ok H device_id (packets_of (tx_id r) db') r" if "r \<in> set ?rows" for r
  proof (rule in_update_whereE [OF that])
    fix q assume q: "q \<in> set (td_sessions db)" "tx_id q = tx_id s" "r = ?f q"
    with s have "q = s" by (blast intro: distinct_map_key [OF tel_invD(1) [OF inv]])
    have "length (packets_of (tx_id s) db') = rows_where (\<lambda>q. tp_session q = tx_id s) (td_packets db @ [p])"
      by (simp add: packets_of_def rows_where_def rows(2))
    then show ?thesis
      using tel_invD(7) [OF inv s] open_s by (simp add: session_ok_def \<open>q = s\<close> q(3) split: if_splits)
  next
    assume "r \<in> set (td_sessions db)" "tx_id r \<noteq> tx_id s"
    then show ?thesis
      using tel_invD(7) [OF inv] by (simp add: db' packets_of_insert_other sid)
  qed
  moreover have "\<forall>r \<in> set ?rows. tx_id r < td_next_id db"
    using ids by (rule ids_below) (use tel_invD(2) [OF inv] in blast)
  moreover have "distinct (map (\<lambda>p. (tp_session p, tp_sequence p)) (td_packets db @ [p]))"
    using tel_invD(6) [OF inv] fresh by (auto simp: sid)
  ultimately show ?thesis
    using inv pok s by (auto simp: tel_inv_def rows ids id_set dev sid)
qed

section \<open>Ending a session\<close>

lemma end_checks_Inr:
  "end_checks s ps = Inr u \<longleftrightarrow> tx_status s \<noteq> Tel_Aborted \<and> tx_sync s \<noteq> Tel_Synced \<and> ps \<noteq> []"
  by (simp add: end_checks_def)

lemma end_session_cases:
  assumes "end_session H now appliers device_id s db w = (res, db', w')"
  obtains (refused) e where "end_checks s (packets_of (tx_id s) db) = Inl e" "res = Inl e" "db' = db" "w' = w"
  | (failed) reason where "end_checks s (packets_of (tx_id s) db) = Inr ()"
      "appliers (tx_data_type s) s (packets_of (tx_id s) db) w = Inl reason"
      "res = Inl (PromotionFailed reason)"
      "db' = update_session (tx_id s) (session_failed now s reason) db" "w' = w"
  | (promoted) report where "end_checks s (packets_of (tx_id s) db) = Inr ()"
      "appliers (tx_data_type s) s (packets_of (tx_id s) db) w = Inr (report, w')"
      "res = Inr report"
      "db' = update_session (tx_id s) (session_promoted H now s
         (session_envelope (device_id (tx_device s)) s (packets_of (tx_id s) db))) db"
  using assms that by (auto simp: end_session_def Let_def split: sum.splits)

lemma end_session_inv:
  assumes inv: "tel_inv H device_id db" and s: "s \<in> set (td_sessions db)"
    and fin: "end_session H now appliers device_id s db w = (res, db', w')"
  shows "tel_inv H device_id db'"
  using fin
proof (cases rule: end_session_cases)
  case refused
  with inv show ?thesis by simp
next
  case (failed reason)
  have "session_ok H device_id (packets_of (tx_id s) db) (session_failed now s reason s)"
    using tel_invD(7) [OF inv s] failed(1)
    by (simp add: session_ok_def session_failed_def end_checks_Inr split: if_splits)
  then show ?thesis unfolding failed(4)
    by (intro update_session_inv [OF inv s]) (simp_all add: session_failed_def ts_is_open_def)
next
  case (promoted report)
  let ?env = "session_envelope (device_id (tx_device s)) s (packets_of (tx_id s) db)"
  let ?row = "session_promoted H now s ?env s"
  have "session_envelope (device_id (tx_device ?row)) ?row ps = session_envelope (device_id (tx_device s)) s ps" for ps
    by (simp add: session_promoted_def session_envelope_def)
  then have "session_ok H device_id (packets_of (tx_id s) db) ?row"
    using tel_invD(7) [OF inv s] promoted(1)
    by (simp add: session_ok_def attested_def end_checks_Inr) (simp add: session_promoted_def)
  then show ?thesis unfolding promoted(4)
    by (intro update_session_inv [OF inv s]) (simp_all add: session_promoted_def ts_is_open_def)
qed

section \<open>Runs\<close>

text \<open>
  A state of the service: the session tables, the registries, and the sessions whose
  promotion was committed, latest first. Each request loads the row it works on.
\<close>

inductive tel_step ::
    "(string \<Rightarrow> string) \<Rightarrow> (tel_data_type \<Rightarrow> 'w promote) \<Rightarrow> (nat \<Rightarrow> string)
     \<Rightarrow> tel_db \<times> 'w \<times> nat list \<Rightarrow> tel_db \<times> 'w \<times> nat list \<Rightarrow> bool"
  for H appliers device_id where
  started: "start_session now ref dev project usr dt config start transport db = Inr (s, db') \<Longrightarrow>
     tel_step H appliers device_id (db, w, log) (db', w, log)"
| appended: "s \<in> set (td_sessions db) \<Longrightarrow>
     append_packet H now s payload sequence recorded_at db = Inr (p, db') \<Longrightarrow>
     tel_step H appliers device_id (db, w, log) (db', w, log)"
| promoted: "s \<in> set (td_sessions db) \<Longrightarrow>
     end_session H now appliers device_id s db w = (Inr report, db', w') \<Longrightarrow>
     tel_step H appliers device_id (db, w, log) (db', w', tx_id s # log)"
| not_promoted: "s \<in> set (td_sessions db) \<Longrightarrow>
     end_session H now appliers device_id s db w = (Inl e, db', w') \<Longrightarrow>
     tel_step H appliers device_id (db, w, log) (db', w', log)"

definition empty_tel_db :: tel_db where
  "empty_tel_db = \<lparr>td_sessions = [], td_packets = [], td_next_id = 0\<rparr>"

inductive tel_reach ::
    "(string \<Rightarrow> string) \<Rightarrow> (tel_data_type \<Rightarrow> 'w promote) \<Rightarrow> (nat \<Rightarrow> string) \<Rightarrow> 'w
     \<Rightarrow> tel_db \<times> 'w \<times> nat list \<Rightarrow> bool" for H appliers device_id w0 where
  none: "tel_reach H appliers device_id w0 (empty_tel_db, w0, [])"
| more: "tel_reach H appliers device_id w0 st \<Longrightarrow> tel_step H appliers device_id st st' \<Longrightarrow>
     tel_reach H appliers device_id w0 st'"

inductive_cases tel_stepE: "tel_step H appliers device_id (db, w, log) st'"

definition synced :: "tel_session \<Rightarrow> bool" where
  "synced s \<longleftrightarrow> tx_sync s = Tel_Synced"

definition synced_ids :: "tel_db \<Rightarrow> nat list" where
  "synced_ids db = map tx_id (filter synced (td_sessions db))"

definition log_ok :: "tel_db \<Rightarrow> nat list \<Rightarrow> bool" where
  "log_ok db log \<longleftrightarrow> distinct log \<and> set log = set (synced_ids db)"

lemma synced_ids_start:
  "start_session now ref dev project usr dt config start transport db = Inr (s, db') \<Longrightarrow>
   synced_ids db' = synced_ids db"
  by (erule start_sessionE) (simp add: synced_ids_def synced_def new_session_def)

lemma synced_update:
  assumes "\<And>r. r \<in> set rows \<Longrightarrow> P r \<Longrightarrow> tx_id (f r) = tx_id r \<and> synced (f r) = synced r"
  shows "map tx_id (filter synced (update_where P f rows)) = map tx_id (filter synced rows)"
  using assms by (induction rows) auto

lemma synced_ids_append:
  assumes "append_packet H now s payload sequence recorded_at db = Inr (p, db')"
  shows "synced_ids db' = synced_ids db"
proof -
  from assms have "db' = insert_packet p db" by (rule append_packetE)
  then show ?thesis
    by (simp add: synced_ids_def insert_packet_def Let_def synced_update synced_def)
qed

lemma synced_ids_failed:
  assumes "tel_inv H device_id db" "s \<in> set (td_sessions db)" "\<not> synced s"
  shows "synced_ids (update_session (tx_id s) (session_failed now s reason) db) = synced_ids db"
proof -
  have "r = s" if "r \<in> set (td_sessions db)" "tx_id r = tx_id s" for r
    using distinct_map_key [OF tel_invD(1) [OF assms(1)] that(1) assms(2) that(2)] .
  then show ?thesis
    using assms(3) by (simp add: synced_ids_def update_session_def)
      (rule synced_update, auto simp: synced_def session_failed_def)
qed

lemma synced_ids_promoted:
  assumes "s \<in> set (td_sessions db)"
  shows "set (synced_ids (update_session (tx_id s) (session_promoted H now s env) db))
    = insert (tx_id s) (set (synced_ids db))"
proof -
  have "set (map tx_id (filter synced (update_where (\<lambda>r. tx_id r = k) (session_promoted H now s env) rows)))
      = (if k \<in> tx_id ` set rows then {k} else {}) \<union> set (map tx_id (filter synced rows))" for k rows
    by (induction rows) (auto simp: session_promoted_def synced_def)
  with assms show ?thesis by (simp add: synced_ids_def update_session_def)
qed

lemma start_keeps:
  assumes "tel_inv H device_id db" "log_ok db log"
    and "start_session now ref dev project usr dt config start transport db = Inr (s, db')"
  shows "tel_inv H device_id db' \<and> log_ok db' log"
  using start_session_inv [OF assms(1,3)] synced_ids_start [OF assms(3)] assms(2) by (simp add: log_ok_def)

lemma append_keeps:
  assumes "tel_inv H device_id db" "log_ok db log" "s \<in> set (td_sessions db)"
    and "append_packet H now s payload sequence recorded_at db = Inr (p, db')"
  shows "tel_inv H device_id db' \<and> log_ok db' log"
  using append_packet_inv [OF assms(1,3,4)] synced_ids_append [OF assms(4)] assms(2) by (simp add: log_ok_def)

lemma end_keeps:
  assumes inv: "tel_inv H device_id db" and log: "log_ok db log" and s: "s \<in> set (td_sessions db)"
    and fin: "end_session H now appliers device_id s db w = (res, db', w')"
  shows "tel_inv H device_id db' \<and> log_ok db' (if is_ok res then tx_id s # log else log)"
  using fin
proof (cases rule: end_session_cases)
  case refused
  with inv log show ?thesis by simp
next
  case (failed reason)
  then have "\<not> synced s" by (simp add: end_checks_Inr synced_def)
  with failed log end_session_inv [OF inv s fin] show ?thesis
    by (simp add: log_ok_def synced_ids_failed [OF inv s])
next
  case (promoted report)
  then have "tx_id s \<notin> set (synced_ids db)"
    using s distinct_map_key [OF tel_invD(1) [OF inv]]
    by (auto simp: synced_ids_def synced_def end_checks_Inr)
  with promoted log end_session_inv [OF inv s fin] show ?thesis
    by (simp add: log_ok_def synced_ids_promoted [OF s])
qed

lemma tel_step_keeps:
  assumes "tel_step H appliers device_id (db, w, log) (db', w', log')"
    and "tel_inv H device_id db" "log_ok db log"
  shows "tel_inv H device_id db' \<and> log_ok db' log'"
proof (rule tel_stepE [OF assms(1)])
  show ?thesis if "(db', w', log') = (db1, w, log)"
    "start_session now ref dev project usr dt config start transport db = Inr (s, db1)"
    for now ref dev project usr dt config start transport s db1
    using start_keeps [OF assms(2,3) that(2)] that(1) by simp
  show ?thesis if "(db', w', log') = (db1, w, log)" "s \<in> set (td_sessions db)"
    "append_packet H now s payload sequence recorded_at db = Inr (p, db1)"
    for s now payload sequence recorded_at p db1
    using append_keeps [OF assms(2,3) that(2,3)] that(1) by simp
  show ?thesis if "(db', w', log') = (db1, w1, tx_id s # log)" "s \<in> set (td_sessions db)"
    "end_session H now appliers device_id s db w = (Inr report, db1, w1)" for s now report db1 w1
    using end_keeps [OF assms(2,3) that(2,3)] that(1) by simp
  show ?thesis if "(db', w', log') = (db1, w1, log)" "s \<in> set (td_sessions db)"
    "end_session H now appliers device_id s db w = (Inl e, db1, w1)" for s now e db1 w1
    using end_keeps [OF assms(2,3) that(2,3)] that(1) by simp
qed

lemma empty_tel_db_inv: "tel_inv H device_id empty_tel_db \<and> log_ok empty_tel_db []"
  by (simp add: tel_inv_def empty_tel_db_def log_ok_def synced_ids_def)

lemma tel_reach_inv:
  "tel_reach H appliers device_id w0 st \<Longrightarrow>
   tel_inv H device_id (fst st) \<and> log_ok (fst st) (snd (snd st))"
proof (induction rule: tel_reach.induct)
  case none
  then show ?case using empty_tel_db_inv by simp
next
  case (more st st')
  then show ?case by (cases st; cases st') (use tel_step_keeps in fastforce)
qed

section \<open>Properties\<close>

text \<open>
  The packet chain follows arrival, the check follows positions: after an accepted
  append, the session still verifies exactly when the packet came after every position the
  session already had. A device that numbers its own packets and delivers one late gets a
  session that is reported as tampered with although nothing was edited; a packet without a
  number is always in order.
\<close>

theorem chain_verifies_iff_in_order:
  assumes "plain_digest H" "append_packet H now s payload sequence recorded_at db = Inr (p, db')"
    and "verify_chain H (tx_id s) db" "inj_on H (append_texts (tx_id s) db p)"
    and "\<forall>q \<in> set (p # packets_of (tx_id s) db). wf_json (tp_payload q)"
  shows "(verify_chain H (tx_id s) db' = in_order (tx_id s) db (tp_sequence p))
    \<and> (sequence = JNull \<longrightarrow> verify_chain H (tx_id s) db')"
proof -
  let ?ps = "packets_of (tx_id s) db"
  let ?lo = "filter (\<lambda>q. tp_sequence q < tp_sequence p) ?ps"
  let ?hi = "filter (\<lambda>q. tp_sequence p < tp_sequence q) ?ps"
  from assms(2) obtain seq: "packet_sequence sequence (highest_packet (tx_id s) db) = Inr (tp_sequence p)"
    and sid: "tp_session p = tx_id s" and pl: "tp_payload p = payload"
    and hash: "tp_hash p = chain_hash H (last_hash [] ?ps) (tp_sequence p) payload"
    and fresh: "\<forall>q \<in> set (td_packets db). tp_session q = tx_id s \<longrightarrow> tp_sequence q \<noteq> tp_sequence p"
    and db': "db' = insert_packet p db"
    by (rule append_packetE)
  have new: "packets_of (tx_id s) db' = ?lo @ p # ?hi"
    using packets_of_insert [of db p] fresh by (simp add: db' sid)
  have ps: "?ps = ?lo @ ?hi"
    by (rule filter_split_sorted [OF sorted_packets_of]) (use fresh in \<open>simp add: set_packets_of\<close>)
  have ok: "chain_ok H [] (?lo @ ?hi)" using assms(3) ps by (simp add: verify_chain_def)
  have ordered: "in_order (tx_id s) db (tp_sequence p) \<longleftrightarrow> ?hi = []"
    using fresh by (auto simp: in_order_def list_all_iff filter_empty_conv set_packets_of not_less less_le)
  have "verify_chain H (tx_id s) db' \<longleftrightarrow> ?hi = []"
  proof
    assume v: "verify_chain H (tx_id s) db'"
    show "?hi = []"
    proof (rule ccontr)
      assume hi: "?hi \<noteq> []"
      have "\<not> chain_ok H [] (?lo @ p # ?hi)"
        by (rule late_packet_breaks_chain [OF assms(1,4) ok ps hi])
          (use assms(5) hash pl ps in \<open>auto simp flip: ps\<close>)
      moreover have "chain_ok H [] (?lo @ p # ?hi)" using v by (simp only: verify_chain_def new)
      ultimately show False by (rule notE)
    qed
  next
    assume hi: "?hi = []"
    with ps have "?lo = ?ps" by simp
    with hi new ok hash pl show "verify_chain H (tx_id s) db'" by (simp add: verify_chain_def)
  qed
  moreover have "in_order (tx_id s) db (tp_sequence p)" if "sequence = JNull"
  proof (cases "?ps = []")
    case False
    then have "tp_sequence p = tp_sequence (last ?ps) + 1"
      using seq that by (simp add: packet_sequence_def highest_packet_eq)
    moreover have "\<forall>q \<in> set ?ps. tp_sequence q \<le> tp_sequence (last ?ps)"
      using sorted_packets_of [of "tx_id s" db] False
      by (cases ?ps rule: rev_cases) (auto simp: sorted_append)
    ultimately show ?thesis by (auto simp: in_order_def list_all_iff)
  qed (simp add: in_order_def)
  ultimately show ?thesis using ordered by blast
qed

text \<open>
  The head of the chain is a receipt for the whole log: two stored logs that both verify
  and end in the same digest hold the same readings at the same positions (payloads up to
  key order), whatever was done to the rows, unless the digest collides on their links.
\<close>

theorem chain_head_is_receipt:
  assumes "plain_digest H" "verify_chain H sid db" "verify_chain H sid' db'"
    and "map_option tp_hash (highest_packet sid db) = map_option tp_hash (highest_packet sid' db')"
    and "inj_on H (set (link_texts [] (packets_of sid db)) \<union> set (link_texts [] (packets_of sid' db')))"
    and "\<forall>p \<in> set (packets_of sid db) \<union> set (packets_of sid' db'). wf_json (tp_payload p)"
  shows "map packet_content (packets_of sid db) = map packet_content (packets_of sid' db')"
proof (rule chain_head_content [OF assms(1,5)])
  show "last_hash [] (packets_of sid db) = last_hash [] (packets_of sid' db')"
    using assms(4) by (simp add: highest_packet_eq last_hash_def split: if_splits)
qed (use assms(2,3,6) in \<open>simp_all add: verify_chain_def\<close>)

text \<open>
  C9. Promotion is all or nothing. Whatever the appliers do, the packet log is untouched;
  a refusal or a failed promotion leaves the registries as they were, a failed one marks the
  session ended and failed with the reason; only a promotion whose applier accepted every
  packet changes the registries, and then the session carries the envelope of exactly the
  packets that were promoted, and its digest.
\<close>

theorem promotion_all_or_nothing:
  "case end_session H now appliers device_id s db w of (res, db', w') \<Rightarrow>
     td_packets db' = td_packets db \<and>
     (case res of
        Inr report \<Rightarrow> appliers (tx_data_type s) s (packets_of (tx_id s) db) w = Inr (report, w')
          \<and> packets_of (tx_id s) db \<noteq> []
          \<and> list_all (\<lambda>r. tx_id r = tx_id s \<longrightarrow> tx_status r = Tel_Ended \<and> tx_sync r = Tel_Synced
               \<and> attested H (session_envelope (device_id (tx_device s)) s (packets_of (tx_id s) db')) r)
              (td_sessions db')
      | Inl (PromotionFailed reason) \<Rightarrow> w' = w
          \<and> appliers (tx_data_type s) s (packets_of (tx_id s) db) w = Inl reason
          \<and> list_all (\<lambda>r. tx_id r = tx_id s \<longrightarrow> tx_status r = Tel_Ended \<and> tx_sync r = Tel_Failed
               \<and> tx_sync_error r = take 2000 reason) (td_sessions db')
      | Inl e \<Rightarrow> w' = w \<and> db' = db)"
proof -
  obtain res db' w' where fin: "end_session H now appliers device_id s db w = (res, db', w')"
    by (cases "end_session H now appliers device_id s db w")
  from fin show ?thesis
  proof (cases rule: end_session_cases)
    case (refused e)
    then have "\<nexists>reason. e = PromotionFailed reason"
      by (auto simp: end_checks_def bind_r_Inl_iff)
    with fin refused show ?thesis by (cases e) simp_all
  next
    case (failed reason)
    with fin show ?thesis
      by (simp add: update_session_def list_all_iff set_update_where session_failed_def) fastforce
  next
    case (promoted report)
    then have "packets_of (tx_id s) db \<noteq> []" by (simp add: end_checks_Inr)
    with fin promoted show ?thesis
      by (simp add: update_session_def list_all_iff set_update_where packets_of_def)
        (auto simp: session_promoted_def attested_def)
  qed
qed

text \<open>
  C10. Along every run in which each request works on the row it reads, no session is
  promoted twice, the promoted sessions are exactly those marked as synced, each of them
  still carries the envelope and the digest of its present packets, no device has two open
  sessions, and no session is ever aborted.
\<close>

theorem sessions_promoted_once:
  assumes "tel_reach H appliers device_id w0 (db, w, log)"
  shows "distinct log \<and> set log = set (synced_ids db)
    \<and> (\<forall>s \<in> set (td_sessions db). tx_status s \<noteq> Tel_Aborted \<and> (synced s \<longrightarrow>
          attested H (session_envelope (device_id (tx_device s)) s (packets_of (tx_id s) db)) s))
    \<and> distinct (map tx_device (filter ts_is_open (td_sessions db)))"
proof -
  from tel_reach_inv [OF assms] have inv: "tel_inv H device_id db" and "log_ok db log" by simp_all
  moreover have "tx_status s \<noteq> Tel_Aborted \<and> (synced s \<longrightarrow>
      attested H (session_envelope (device_id (tx_device s)) s (packets_of (tx_id s) db)) s)"
    if "s \<in> set (td_sessions db)" for s
    using tel_invD(7) [OF inv that] by (simp add: session_ok_def synced_def split: if_splits)
  ultimately show ?thesis using tel_invD(3) [OF inv] by (simp add: log_ok_def)
qed

text \<open>
  A session opened by mistake cannot be left. While it holds no packet, ending it is
  refused (the message says to abort it, and nothing in the service aborts), and every
  attempt to start another session on its device is refused with 409.
\<close>

theorem empty_session_blocks_device:
  assumes "tel_inv H device_id db" "s \<in> set (td_sessions db)" "ts_is_open s" "tx_packet_count s = 0"
  shows "end_session H now appliers device_id s db w = (Inl NoPackets, db, w)
    \<and> (\<exists>e. start_session now' ref \<lparr>fd_id = tx_device s, fd_device_id = label, fd_active = act,
          fd_assigned_project = ap, fd_registered_by = rb\<rparr> project usr dt config start transport db = Inl e
        \<and> tel_error_status e = 409)"
proof
  have ok: "session_ok H device_id (packets_of (tx_id s) db) s" by (rule tel_invD(7) [OF assms(1,2)])
  then have "packets_of (tx_id s) db = []" using assms(4) by (simp add: session_ok_def)
  moreover have "tx_status s = Tel_Open" using assms(3) by (simp add: ts_is_open_def)
  moreover have "tx_sync s \<noteq> Tel_Synced" using ok calculation by (auto simp: session_ok_def)
  ultimately show "end_session H now appliers device_id s db w = (Inl NoPackets, db, w)"
    by (simp add: end_session_def end_checks_def)
  have "first_where (open_on_device (tx_device s)) (rev (sort_key tx_created_at (td_sessions db))) \<noteq> None"
    using assms(2,3) by (auto simp: first_where_None open_on_device_def ts_is_open_def)
  then show "\<exists>e. start_session now' ref \<lparr>fd_id = tx_device s, fd_device_id = label, fd_active = act,
        fd_assigned_project = ap, fd_registered_by = rb\<rparr> project usr dt config start transport db = Inl e
      \<and> tel_error_status e = 409"
    by (auto simp: start_session_def)
qed

section \<open>Examples and witnesses\<close>

text \<open>A digest that is easy to evaluate: it writes no colon and tells the texts below apart.\<close>

definition toy_digest :: "string \<Rightarrow> string" where
  "toy_digest s = CHR ''h'' # map (\<lambda>c. if c = CHR '':'' then CHR '';'' else c) s"

lemma toy_plain: "plain_digest toy_digest"
  by (auto simp: plain_digest_def toy_digest_def)

definition demo_device :: field_device where
  "demo_device = \<lparr>fd_id = 1, fd_device_id = ''PL-200'', fd_active = True, fd_assigned_project = Some 3,
     fd_registered_by = None\<rparr>"

definition demo_session :: tel_session where
  "demo_session = new_session 10 ''TEL-1'' 0 1 3 None Pundit Wifi (JObj []) None"

definition demo_db :: "tel_packet list \<Rightarrow> tel_db" where
  "demo_db ps = \<lparr>td_sessions = [demo_session\<lparr>tx_packet_count := length ps\<rparr>], td_packets = ps, td_next_id = 1\<rparr>"

definition demo_packet :: "int \<Rightarrow> string \<Rightarrow> tel_packet" where
  "demo_packet n previous = new_packet toy_digest 20 0 n (JObj [(''t'', JInt n)]) previous None"

definition demo_late :: tel_packet where
  "demo_late = demo_packet 1 (tp_hash (demo_packet 2 []))"

definition demo_appliers :: "tel_data_type \<Rightarrow> nat promote" where
  "demo_appliers dt s ps w = Inr (JInt 0, w + length ps)"

lemma demo_start:
  "start_session 10 ''TEL-1'' demo_device 3 None Pundit (JObj []) None Wifi empty_tel_db
   = Inr (demo_session, demo_db [])"
  by (simp add: start_session_def empty_tel_db_def first_where_def demo_db_def demo_session_def
      demo_device_def json_or_def new_session_def Let_def)

theorem chain_verifies_iff_in_order_witness:
  "\<not> verify_chain toy_digest 0 (demo_db [demo_packet 2 [], demo_late])"
proof -
  have app: "append_packet toy_digest 20 demo_session (JObj [(''t'', JInt 1)]) (JInt 1) None (demo_db [demo_packet 2 []])
      = Inr (demo_late, demo_db [demo_packet 2 [], demo_late])"
    by code_simp
  have "tx_id demo_session = 0" by (simp add: demo_session_def new_session_def)
  moreover have "verify_chain toy_digest 0 (demo_db [demo_packet 2 []])" by code_simp
  moreover have "inj_on toy_digest (append_texts 0 (demo_db [demo_packet 2 []]) demo_late)"
    unfolding inj_on_def by code_simp
  moreover have "\<forall>q \<in> set (demo_late # packets_of 0 (demo_db [demo_packet 2 []])). wf_json (tp_payload q)"
    by code_simp
  moreover have "\<not> in_order 0 (demo_db [demo_packet 2 []]) (tp_sequence demo_late)" by code_simp
  ultimately show ?thesis
    using chain_verifies_iff_in_order [OF toy_plain app] by simp
qed

theorem chain_head_is_receipt_witness:
  "map packet_content (packets_of 0 (demo_db [demo_packet 1 []])) = [(1, JObj [(''t'', JInt 1)])]"
proof -
  have "verify_chain toy_digest 0 (demo_db [demo_packet 1 []])" by code_simp
  moreover have "inj_on toy_digest (set (link_texts [] (packets_of 0 (demo_db [demo_packet 1 []])))
      \<union> set (link_texts [] (packets_of 0 (demo_db [demo_packet 1 []]))))"
    unfolding inj_on_def by code_simp
  moreover have "\<forall>p \<in> set (packets_of 0 (demo_db [demo_packet 1 []]))
      \<union> set (packets_of 0 (demo_db [demo_packet 1 []])). wf_json (tp_payload p)" by code_simp
  moreover have "map packet_content (packets_of 0 (demo_db [demo_packet 1 []])) = [(1, JObj [(''t'', JInt 1)])]"
    by code_simp
  ultimately show ?thesis
    using chain_head_is_receipt [OF toy_plain, of 0 "demo_db [demo_packet 1 []]" 0 "demo_db [demo_packet 1 []]"]
    by metis
qed

definition demo_one :: tel_db where
  "demo_one = demo_db [demo_packet 1 []]"

definition demo_row :: tel_session where
  "demo_row = demo_session\<lparr>tx_packet_count := 1\<rparr>"

definition demo_end :: "tel_db \<Rightarrow> nat \<Rightarrow> (tel_error + json) \<times> tel_db \<times> nat" where
  "demo_end db w = end_session toy_digest 30 demo_appliers (\<lambda>_. ''PL-200'') demo_row db w"

lemma demo_append:
  "append_packet toy_digest 20 demo_session (JObj [(''t'', JInt 1)]) JNull None (demo_db []) = Inr (demo_packet 1 [], demo_one)"
  by code_simp

lemma demo_end_eq: "demo_end demo_one 0 = (Inr (JInt 0), fst (snd (demo_end demo_one 0)), 1)"
  by code_simp

text \<open>
  Nothing serialises two ends of one session: a request that loaded the row before the
  other one committed still passes the checks and promotes the same packets again, so the
  registries get every row twice.
\<close>

theorem concurrent_end_promotes_twice:
  "let s = demo_row;
       (res1, db1, w1) = end_session toy_digest 30 demo_appliers (\<lambda>_. ''PL-200'') s demo_one 0;
       (res2, db2, w2) = end_session toy_digest 31 demo_appliers (\<lambda>_. ''PL-200'') s db1 w1
   in td_sessions demo_one = [s] \<and> res1 = Inr (JInt 0) \<and> map tx_sync (td_sessions db1) = [Tel_Synced]
      \<and> res2 = Inr (JInt 0) \<and> w1 = 1 \<and> w2 = 2"
  by code_simp

theorem promotion_all_or_nothing_witness:
  "map tx_sync (td_sessions (fst (snd (demo_end demo_one 0)))) = [Tel_Synced] \<and> snd (snd (demo_end demo_one 0)) = 1"
proof -
  have "map tx_id (td_sessions (fst (snd (demo_end demo_one 0)))) = [tx_id demo_row]" by code_simp
  then obtain r where r: "td_sessions (fst (snd (demo_end demo_one 0))) = [r]" "tx_id r = tx_id demo_row"
    by (auto simp: map_eq_Cons_conv)
  from demo_end_eq have "end_session toy_digest 30 demo_appliers (\<lambda>_. ''PL-200'') demo_row demo_one 0
      = (Inr (JInt 0), fst (snd (demo_end demo_one 0)), 1)" unfolding demo_end_def .
  moreover have "snd (snd (demo_end demo_one 0)) = 1" by code_simp
  ultimately show ?thesis using promotion_all_or_nothing [where H = toy_digest and now = 30 and appliers = demo_appliers
    and device_id = "\<lambda>_. ''PL-200''" and s = demo_row and db = demo_one and w = 0] r
    by (simp add: attested_def)
qed

lemma demo_reach:
  "tel_reach toy_digest demo_appliers (\<lambda>_. ''PL-200'') 0 (fst (snd (demo_end demo_one 0)), 1, [0])"
proof -
  have s: "demo_session \<in> set (td_sessions (demo_db []))" "demo_row \<in> set (td_sessions demo_one)"
    by (simp_all add: demo_db_def demo_one_def demo_row_def demo_session_def new_session_def)
  have "tel_reach toy_digest demo_appliers (\<lambda>_. ''PL-200'') 0 (demo_one, 0, [])"
    by (rule tel_reach.more [OF tel_reach.more [OF tel_reach.none tel_step.started [OF demo_start]]
          tel_step.appended [OF s(1) demo_append]])
  from tel_reach.more [OF this tel_step.promoted [OF s(2) demo_end_eq [unfolded demo_end_def]]]
  show ?thesis by (simp add: demo_end_def demo_row_def demo_session_def new_session_def)
qed

theorem sessions_promoted_once_witness:
  "set (synced_ids (fst (snd (demo_end demo_one 0)))) = {0}"
  using sessions_promoted_once [OF demo_reach] by simp

theorem empty_session_blocks_device_witness:
  "end_session toy_digest 30 demo_appliers (\<lambda>_. ''PL-200'') demo_session (demo_db []) 0 = (Inl NoPackets, demo_db [], 0)"
proof -
  have "tel_inv toy_digest (\<lambda>_. ''PL-200'') (demo_db [])"
    using start_session_inv [OF empty_tel_db_inv [THEN conjunct1] demo_start] .
  moreover have "demo_session \<in> set (td_sessions (demo_db []))" "ts_is_open demo_session"
    "tx_packet_count demo_session = 0"
    by (simp_all add: demo_db_def demo_session_def new_session_def ts_is_open_def)
  ultimately show ?thesis
    by (rule empty_session_blocks_device [THEN conjunct1])
qed

end
