(* ===== verification/Device_Tokens.thy ===== *)
theory Device_Tokens
  imports Telemetry_Sessions
begin

text \<open>
  The credentials instruments push with: \<^verbatim>\<open>DeviceToken\<close> in
  \<^verbatim>\<open>apps/telemetry/models.py\<close>, \<^verbatim>\<open>DeviceTokenService\<close> in
  \<^verbatim>\<open>services.py\<close>, the authenticator of \<^verbatim>\<open>authentication.py\<close>, and what the
  views let a caller reach (\<^verbatim>\<open>views.py\<close>: the sessions, devices and projects in scope).
  The random part of a new credential is an argument; the stored digest is computed with the
  digest \<open>H\<close>.
\<close>

section \<open>Credentials\<close>

record device_token =
  dk_id :: nat
  dk_device :: nat
  dk_label :: string
  dk_prefix :: string
  dk_hash :: string
  dk_issued_by :: "nat option"
  dk_issued_at :: int
  dk_last_used :: "int option"
  dk_expires :: "int option"
  dk_revoked :: "int option"

record token_db =
  kd_tokens :: "device_token list"
  kd_next_id :: nat

definition device_token_prefix :: string where
  "device_token_prefix = ''nxdev_''"

definition generate_device_token :: "string \<Rightarrow> string" where
  "generate_device_token secret = device_token_prefix @ secret"

definition hash_device_token :: "(string \<Rightarrow> string) \<Rightarrow> string \<Rightarrow> string" where
  "hash_device_token H raw = H raw"

definition token_is_expired :: "int \<Rightarrow> device_token \<Rightarrow> bool" where
  "token_is_expired now k = (case dk_expires k of None \<Rightarrow> False | Some t \<Rightarrow> t \<le> now)"

definition token_is_revoked :: "device_token \<Rightarrow> bool" where
  "token_is_revoked k \<longleftrightarrow> dk_revoked k \<noteq> None"

definition token_is_active :: "int \<Rightarrow> device_token \<Rightarrow> bool" where
  "token_is_active now k \<longleftrightarrow> \<not> token_is_revoked k \<and> \<not> token_is_expired now k"

text \<open>The digest column is unique: a second row with one digest is an integrity error.\<close>

datatype issue_error = LabelMissing | DigestTaken

definition issue_token ::
    "(string \<Rightarrow> string) \<Rightarrow> int \<Rightarrow> string \<Rightarrow> nat \<Rightarrow> string option \<Rightarrow> acc_user option \<Rightarrow> int option
     \<Rightarrow> token_db \<Rightarrow> issue_error + (device_token \<times> string \<times> token_db)" where
  "issue_token H now secret device label issued_by expires_at db =
     (let lbl = py_strip (or_empty label);
          raw = generate_device_token secret;
          k = \<lparr>dk_id = kd_next_id db, dk_device = device, dk_label = lbl, dk_prefix = take 14 raw,
               dk_hash = hash_device_token H raw, dk_issued_by = map_option ac_id issued_by,
               dk_issued_at = now, dk_last_used = None, dk_expires = expires_at, dk_revoked = None\<rparr>
      in bind_r (check (lbl \<noteq> []) LabelMissing) (\<lambda>_.
         bind_r (check (\<not> list_ex (\<lambda>q. dk_hash q = dk_hash k) (kd_tokens db)) DigestTaken) (\<lambda>_.
         Inr (k, raw, db\<lparr>kd_tokens := kd_tokens db @ [k], kd_next_id := Suc (kd_next_id db)\<rparr>))))"

text \<open>\<open>k\<close> is the loaded row; saving writes \<^verbatim>\<open>revoked_at\<close> only.\<close>

definition revoke_token :: "int \<Rightarrow> device_token \<Rightarrow> token_db \<Rightarrow> device_token \<times> token_db" where
  "revoke_token now k db =
     (if dk_revoked k \<noteq> None then (k, db)
      else (k\<lparr>dk_revoked := Some now\<rparr>,
            db\<lparr>kd_tokens := update_where (\<lambda>q. dk_id q = dk_id k) (\<lambda>q. q\<lparr>dk_revoked := Some now\<rparr>) (kd_tokens db)\<rparr>))"

definition resolve_token :: "(string \<Rightarrow> string) \<Rightarrow> int \<Rightarrow> string \<Rightarrow> token_db \<Rightarrow> device_token option" where
  "resolve_token H now raw db =
     (if raw = [] then None
      else case first_where (\<lambda>k. dk_hash k = hash_device_token H raw) (kd_tokens db) of
             None \<Rightarrow> None
           | Some k \<Rightarrow> if token_is_active now k then Some k else None)"

definition note_use :: "int \<Rightarrow> device_token \<Rightarrow> token_db \<Rightarrow> token_db" where
  "note_use now k db =
     (if (case dk_last_used k of None \<Rightarrow> True | Some t \<Rightarrow> now - t > 60000000)
      then db\<lparr>kd_tokens := update_where (\<lambda>q. dk_id q = dk_id k) (\<lambda>q. q\<lparr>dk_last_used := Some now\<rparr>) (kd_tokens db)\<rparr>
      else db)"

section \<open>Authentication\<close>

text \<open>\<^verbatim>\<open>bytes.split()\<close>: maximal runs without ASCII white space.\<close>

definition ascii_space :: "char \<Rightarrow> bool" where
  "ascii_space c = (let n = of_char c :: nat in (9 \<le> n \<and> n \<le> 13) \<or> n = 32)"

fun split_words :: "string \<Rightarrow> string \<Rightarrow> string list" where
  "split_words acc [] = (if acc = [] then [] else [rev acc])"
| "split_words acc (c # s) =
     (if ascii_space c then (if acc = [] then split_words [] s else rev acc # split_words [] s)
      else split_words (c # acc) s)"

datatype auth_refusal =
    NoTokenInHeader
  | SeveralTokensInHeader
  | TokenNotText
  | InvalidRevokedOrExpired
  | NoActiveIssuer

datatype auth_result =
    NoOpinion
  | AuthenticationFailed auth_refusal
  | AuthenticatedAs acc_user device_token

text \<open>
  A header with bytes above 127 is refused: as no text, or (when the bytes happen to be
  UTF-8) as an unknown credential, since every issued one is ASCII; the model gives the first
  reason for both. The tables afterwards differ only in the last use of the credential.
\<close>

definition device_authenticate ::
    "(string \<Rightarrow> string) \<Rightarrow> int \<Rightarrow> acc_user list \<Rightarrow> string \<Rightarrow> token_db \<Rightarrow> auth_result \<times> token_db" where
  "device_authenticate H now users header db =
     (case split_words [] header of
        [] \<Rightarrow> (NoOpinion, db)
      | keyword # rest \<Rightarrow>
          if py_lower keyword \<noteq> ''device'' then (NoOpinion, db)
          else case rest of
            [] \<Rightarrow> (AuthenticationFailed NoTokenInHeader, db)
          | [raw] \<Rightarrow>
              if list_ex (\<lambda>c. (of_char c :: nat) \<ge> 128) raw then (AuthenticationFailed TokenNotText, db)
              else (case resolve_token H now raw db of
                      None \<Rightarrow> (AuthenticationFailed InvalidRevokedOrExpired, db)
                    | Some k \<Rightarrow>
                        (case first_where (\<lambda>u. Some (ac_id u) = dk_issued_by k \<and> ac_active u) users of
                           None \<Rightarrow> (AuthenticationFailed NoActiveIssuer, db)
                         | Some u \<Rightarrow> (AuthenticatedAs u k, note_use now k db)))
          | _ \<Rightarrow> (AuthenticationFailed SeveralTokensInHeader, db))"

section \<open>What the views let a caller reach\<close>

text \<open>
  A request is its user and, for a device credential, the instrument it names.
\<close>

record tel_request =
  rq_user :: "acc_user option"
  rq_device :: "field_device option"

definition scoped_sessions :: "access_db \<Rightarrow> tel_request \<Rightarrow> tel_db \<Rightarrow> tel_session list" where
  "scoped_sessions acc rq db =
     filter (\<lambda>s. in_scope acc (rq_user rq) (tx_project s)
       \<and> (case rq_device rq of None \<Rightarrow> True | Some d \<Rightarrow> tx_device s = fd_id d)) (td_sessions db)"

definition get_session :: "access_db \<Rightarrow> tel_request \<Rightarrow> nat \<Rightarrow> tel_db \<Rightarrow> tel_session option" where
  "get_session acc rq sid db = first_where (\<lambda>s. tx_id s = sid) (scoped_sessions acc rq db)"

definition scoped_devices :: "access_db \<Rightarrow> acc_user option \<Rightarrow> tel_db \<Rightarrow> field_device list \<Rightarrow> field_device list" where
  "scoped_devices acc usr db devices =
     filter (\<lambda>d. (case fd_assigned_project d of None \<Rightarrow> False | Some p \<Rightarrow> in_scope acc usr p)
       \<or> list_ex (\<lambda>s. tx_device s = fd_id d \<and> in_scope acc usr (tx_project s)) (td_sessions db)
       \<or> (usr \<noteq> None \<and> fd_registered_by d = map_option ac_id usr)) devices"

datatype reach_error = NotThisInstrument string | DeviceNotFound | ProjectRequired

fun reach_error_status :: "reach_error \<Rightarrow> nat" where
  "reach_error_status (NotThisInstrument _) = 403"
| "reach_error_status DeviceNotFound = 404"
| "reach_error_status ProjectRequired = 400"

definition resolve_device_and_project ::
    "access_db \<Rightarrow> field_device list \<Rightarrow> tel_request \<Rightarrow> nat \<Rightarrow> nat option
     \<Rightarrow> reach_error + (field_device \<times> nat)" where
  "resolve_device_and_project acc devices rq dev project =
     bind_r (case rq_device rq of
               Some d \<Rightarrow> bind_r (check (dev = fd_id d) (NotThisInstrument (fd_device_id d))) (\<lambda>_. Inr d)
             | None \<Rightarrow> (case first_where (\<lambda>d. fd_id d = dev \<and> fd_active d) devices of
                          None \<Rightarrow> Inl DeviceNotFound | Some d \<Rightarrow> Inr d)) (\<lambda>d.
     case (case project of
             Some p \<Rightarrow> if in_scope acc (rq_user rq) p then Some p else None
           | None \<Rightarrow> (case fd_assigned_project d of
                       Some p \<Rightarrow> if in_scope acc (rq_user rq) p then Some p else None
                     | None \<Rightarrow> None)) of
       None \<Rightarrow> Inl ProjectRequired
     | Some p \<Rightarrow> Inr (d, p))"

text \<open>The start and append views: resolve, then the service.\<close>

definition start_view ::
    "int \<Rightarrow> string \<Rightarrow> access_db \<Rightarrow> field_device list \<Rightarrow> tel_request \<Rightarrow> nat \<Rightarrow> nat option
     \<Rightarrow> tel_data_type \<Rightarrow> json \<Rightarrow> int option \<Rightarrow> tel_transport \<Rightarrow> tel_db
     \<Rightarrow> nat + (tel_session \<times> tel_db)" where
  "start_view now ref acc devices rq dev project dt config start transport db =
     (case resolve_device_and_project acc devices rq dev project of
        Inl e \<Rightarrow> Inl (reach_error_status e)
      | Inr (d, p) \<Rightarrow>
          (case start_session now ref d p (rq_user rq) dt config start transport db of
             Inl e \<Rightarrow> Inl (tel_error_status e)
           | Inr r \<Rightarrow> Inr r))"

definition append_view ::
    "(string \<Rightarrow> string) \<Rightarrow> int \<Rightarrow> access_db \<Rightarrow> tel_request \<Rightarrow> nat \<Rightarrow> json \<Rightarrow> json \<Rightarrow> int option
     \<Rightarrow> tel_db \<Rightarrow> nat + (tel_packet \<times> tel_db)" where
  "append_view H now acc rq sid payload sequence recorded_at db =
     (case get_session acc rq sid db of
        None \<Rightarrow> Inl 404
      | Some s \<Rightarrow>
          (case append_packet H now s payload sequence recorded_at db of
             Inl e \<Rightarrow> Inl (tel_error_status e)
           | Inr r \<Rightarrow> Inr r))"

definition end_view ::
    "(string \<Rightarrow> string) \<Rightarrow> int \<Rightarrow> (tel_data_type \<Rightarrow> 'w promote) \<Rightarrow> (nat \<Rightarrow> string) \<Rightarrow> access_db
     \<Rightarrow> tel_request \<Rightarrow> nat \<Rightarrow> tel_db \<Rightarrow> 'w \<Rightarrow> (nat + json) \<times> tel_db \<times> 'w" where
  "end_view H now appliers device_id acc rq sid db w =
     (case get_session acc rq sid db of
        None \<Rightarrow> (Inl 404, db, w)
      | Some s \<Rightarrow>
          (case end_session H now appliers device_id s db w of
             (Inl e, db', w') \<Rightarrow> (Inl (tel_error_status e), db', w')
           | (Inr report, db', w') \<Rightarrow> (Inr report, db', w')))"

section \<open>The table of credentials\<close>

definition tokens_inv :: "token_db \<Rightarrow> bool" where
  "tokens_inv db \<longleftrightarrow> distinct (map dk_id (kd_tokens db)) \<and> distinct (map dk_hash (kd_tokens db))
     \<and> (\<forall>k \<in> set (kd_tokens db). dk_id k < kd_next_id db)"

inductive token_step ::
    "(string \<Rightarrow> string) \<Rightarrow> token_db \<Rightarrow> token_db \<Rightarrow> bool" for H where
  issued: "issue_token H now secret device label issued_by expires_at db = Inr (k, raw, db') \<Longrightarrow>
     token_step H db db'"
| revoked: "k \<in> set (kd_tokens db) \<Longrightarrow> revoke_token now k db = (k', db') \<Longrightarrow> token_step H db db'"
| presented: "device_authenticate H now users header db = (res, db') \<Longrightarrow> token_step H db db'"

text \<open>What a row keeps: its identity and digest, and being revoked.\<close>

definition row_kept :: "device_token \<Rightarrow> device_token \<Rightarrow> bool" where
  "row_kept k q \<longleftrightarrow> dk_id q = dk_id k \<and> dk_hash q = dk_hash k \<and> (token_is_revoked k \<longrightarrow> token_is_revoked q)"

definition rows_kept :: "token_db \<Rightarrow> token_db \<Rightarrow> bool" where
  "rows_kept db db' \<longleftrightarrow> (\<forall>k \<in> set (kd_tokens db). \<exists>q \<in> set (kd_tokens db'). row_kept k q)"

lemma rows_kept_refl: "rows_kept db db"
  by (auto simp: rows_kept_def row_kept_def)

lemma rows_kept_trans: "rows_kept a b \<Longrightarrow> rows_kept b c \<Longrightarrow> rows_kept a c"
  unfolding rows_kept_def row_kept_def by metis

lemma update_token_keeps:
  assumes "tokens_inv db" "\<And>q. row_kept q (f q)"
  shows "tokens_inv (db\<lparr>kd_tokens := update_where P f (kd_tokens db)\<rparr>)
    \<and> rows_kept db (db\<lparr>kd_tokens := update_where P f (kd_tokens db)\<rparr>)"
proof -
  have keep: "dk_id (f q) = dk_id q" "dk_hash (f q) = dk_hash q" for q
    using assms(2) [of q] by (simp_all add: row_kept_def)
  let ?ts = "update_where P f (kd_tokens db)"
  have maps: "map dk_id ?ts = map dk_id (kd_tokens db)" "map dk_hash ?ts = map dk_hash (kd_tokens db)"
    by (rule map_update_where, rule keep)+
  have "\<exists>q \<in> set ?ts. row_kept k q" if "k \<in> set (kd_tokens db)" for k
  proof
    show "row_kept k (if P k then f k else k)" using assms(2) by (simp add: row_kept_def)
    show "(if P k then f k else k) \<in> set ?ts" using that by (auto simp: set_update_where)
  qed
  moreover have "\<forall>k \<in> set ?ts. dk_id k < kd_next_id db"
    using maps(1) by (rule ids_below) (use assms(1) in \<open>simp add: tokens_inv_def\<close>)
  ultimately show ?thesis
    using assms(1) by (simp add: tokens_inv_def rows_kept_def maps)
qed

lemma note_use_keeps: "tokens_inv db \<Longrightarrow> tokens_inv (note_use now k db) \<and> rows_kept db (note_use now k db)"
  unfolding note_use_def
  by (cases "case dk_last_used k of None \<Rightarrow> True | Some t \<Rightarrow> now - t > 60000000")
    (simp_all add: rows_kept_refl update_token_keeps row_kept_def token_is_revoked_def)

lemma authenticate_table:
  "snd (device_authenticate H now users header db) \<in> {db} \<union> (\<lambda>k. note_use now k db) ` set (kd_tokens db)"
  by (auto simp: device_authenticate_def resolve_token_def split: list.splits option.splits
      dest!: first_where_Some)

lemma token_step_keeps:
  "token_step H db db' \<Longrightarrow> tokens_inv db \<Longrightarrow> tokens_inv db' \<and> rows_kept db db'"
proof (induction rule: token_step.induct)
  case (issued now secret device label issued_by expires_at db k raw db')
  then have db': "db' = db\<lparr>kd_tokens := kd_tokens db @ [k], kd_next_id := Suc (kd_next_id db)\<rparr>"
    and k: "dk_id k = kd_next_id db" "dk_hash k \<notin> dk_hash ` set (kd_tokens db)"
    by (auto simp: issue_token_def Let_def list_ex_iff)
  moreover have "kd_next_id db \<notin> dk_id ` set (kd_tokens db)"
    using issued.prems by (auto simp: tokens_inv_def)
  ultimately show ?case
    using issued.prems by (auto simp: tokens_inv_def rows_kept_def row_kept_def less_Suc_eq)
next
  case (revoked k db now k' db')
  then show ?case
    by (cases "dk_revoked k = None")
      (auto simp: revoke_token_def rows_kept_refl row_kept_def token_is_revoked_def intro!: update_token_keeps [THEN conjunct1] update_token_keeps [THEN conjunct2])
next
  case (presented now users header db res db')
  then show ?case
    using authenticate_table [of H now users header db] note_use_keeps rows_kept_refl by force
qed

lemma token_runs_keep:
  "(token_step H)\<^sup>*\<^sup>* db db' \<Longrightarrow> tokens_inv db \<Longrightarrow> tokens_inv db' \<and> rows_kept db db'"
  by (induction rule: rtranclp_induct) (use rows_kept_refl rows_kept_trans token_step_keeps in blast)+

lemma authenticatedE:
  assumes "device_authenticate H now users header db = (AuthenticatedAs u k, db')"
  obtains kw raw where "split_words [] header = [kw, raw]" "k \<in> set (kd_tokens db)"
    "dk_hash k = hash_device_token H raw" "token_is_active now k"
    "u \<in> set users" "dk_issued_by k = Some (ac_id u)" "ac_active u"
proof -
  obtain kw raw where header: "split_words [] header = [kw, raw]"
    and res: "resolve_token H now raw db = Some k"
    and usr: "first_where (\<lambda>u. Some (ac_id u) = dk_issued_by k \<and> ac_active u) users = Some u"
    using assms by (auto simp: device_authenticate_def split: list.splits option.splits if_splits)
  from res have "k \<in> set (kd_tokens db)" "dk_hash k = hash_device_token H raw" "token_is_active now k"
    by (auto simp: resolve_token_def split: if_splits option.splits dest: first_where_Some)
  moreover from first_where_Some [OF usr] have "u \<in> set users" "dk_issued_by k = Some (ac_id u)" "ac_active u"
    by simp_all
  ultimately show thesis using header that by blast
qed

section \<open>Properties\<close>

text \<open>
  C11. Revocation is final and immediate. Whatever is issued, revoked or presented after a
  credential was revoked, no request that presents its secret is ever authenticated again;
  and every authenticated request presents an unrevoked, unexpired credential and acts as
  the active officer who issued it.
\<close>

theorem revocation_is_final:
  assumes "tokens_inv db" "k \<in> set (kd_tokens db)" "token_is_revoked k"
    and "(token_step H)\<^sup>*\<^sup>* db db1"
    and "device_authenticate H now users header db1 = (AuthenticatedAs u k', db2)"
  shows "(\<forall>kw raw. split_words [] header = [kw, raw] \<longrightarrow> hash_device_token H raw \<noteq> dk_hash k)
    \<and> \<not> token_is_revoked k' \<and> \<not> token_is_expired now k'
    \<and> dk_issued_by k' = Some (ac_id u) \<and> ac_active u"
proof -
  from token_runs_keep [OF assms(4,1)] have inv: "tokens_inv db1" and "rows_kept db db1" by simp_all
  then obtain q where q: "q \<in> set (kd_tokens db1)" "dk_hash q = dk_hash k" "token_is_revoked q"
    using assms(2,3) unfolding rows_kept_def row_kept_def by blast
  from assms(5) obtain kw raw where header: "split_words [] header = [kw, raw]"
    and k': "k' \<in> set (kd_tokens db1)" "dk_hash k' = hash_device_token H raw" "token_is_active now k'"
      "dk_issued_by k' = Some (ac_id u)" "ac_active u"
    by (rule authenticatedE)
  have "hash_device_token H raw \<noteq> dk_hash k"
  proof
    assume "hash_device_token H raw = dk_hash k"
    with k'(1,2) q(1,2) inv have "k' = q"
      by (auto simp: tokens_inv_def intro: distinct_map_key)
    with k'(3) q(3) show False by (simp add: token_is_active_def)
  qed
  with header k' show ?thesis by (simp add: token_is_active_def)
qed

text \<open>
  A credential reaches its own instrument only. A session that a request with a device
  credential opens is on that instrument and on a project in its officer's scope; a packet
  it appends and a session it promotes belong to such a session.
\<close>

theorem device_credential_confined:
  assumes "rq_device rq = Some d"
  shows "(start_view now ref acc devices rq dev project dt config start transport db = Inr (s, db') \<longrightarrow>
            tx_device s = fd_id d \<and> in_scope acc (rq_user rq) (tx_project s))
    \<and> (append_view H now acc rq sid payload sequence recorded_at db = Inr (p, db1) \<longrightarrow>
          (\<exists>r \<in> set (td_sessions db). tx_id r = tp_session p \<and> tx_device r = fd_id d
            \<and> in_scope acc (rq_user rq) (tx_project r)))
    \<and> (end_view H now appliers device_id acc rq sid db w = (Inr report, db2, w') \<longrightarrow>
          (\<exists>r \<in> set (td_sessions db). tx_id r = sid \<and> tx_device r = fd_id d
            \<and> in_scope acc (rq_user rq) (tx_project r)))"
proof (intro conjI impI)
  assume "start_view now ref acc devices rq dev project dt config start transport db = Inr (s, db')"
  then obtain pr where "start_session now ref d pr (rq_user rq) dt config start transport db = Inr (s, db')"
    and "in_scope acc (rq_user rq) pr"
    using assms by (auto simp: start_view_def resolve_device_and_project_def bind_r_Inr_iff
        split: sum.splits option.splits if_splits)
  then show "tx_device s = fd_id d" "in_scope acc (rq_user rq) (tx_project s)"
    by (auto elim!: start_sessionE simp: new_session_def)
next
  have found: "r \<in> set (td_sessions db) \<and> tx_id r = sid \<and> tx_device r = fd_id d
      \<and> in_scope acc (rq_user rq) (tx_project r)" if "get_session acc rq sid db = Some r" for r
    using that assms by (auto simp: get_session_def scoped_sessions_def dest!: first_where_Some)
  {
    assume "append_view H now acc rq sid payload sequence recorded_at db = Inr (p, db1)"
    then obtain r where r: "get_session acc rq sid db = Some r"
      "append_packet H now r payload sequence recorded_at db = Inr (p, db1)"
      by (auto simp: append_view_def split: option.splits sum.splits)
    from r(2) have "tp_session p = tx_id r" by (rule append_packetE)
    with found [OF r(1)] show "\<exists>r \<in> set (td_sessions db). tx_id r = tp_session p \<and> tx_device r = fd_id d
        \<and> in_scope acc (rq_user rq) (tx_project r)" by auto
  next
    assume "end_view H now appliers device_id acc rq sid db w = (Inr report, db2, w')"
    then obtain r where "get_session acc rq sid db = Some r"
      by (auto simp: end_view_def split: option.splits)
    with found show "\<exists>r \<in> set (td_sessions db). tx_id r = sid \<and> tx_device r = fd_id d
        \<and> in_scope acc (rq_user rq) (tx_project r)" by blast
  }
qed

text \<open>
  Taking an instrument out of use stops people, not its credential. For a device that is
  not active a person is told it does not exist, while a request with the device's own
  credential still opens a session on it, on any project of its officer's scope.
\<close>

theorem inactive_device_still_pushes:
  assumes "\<not> fd_active d" "distinct (map fd_id devices)" "d \<in> set devices"
    and "rq_device rq = Some d" "in_scope acc (rq_user rq) p"
    and "\<not> list_ex (open_on_device (fd_id d)) (td_sessions db)"
  shows "resolve_device_and_project acc devices (rq\<lparr>rq_device := None\<rparr>) (fd_id d) (Some p) = Inl DeviceNotFound
    \<and> (\<exists>s db'. start_view now ref acc devices rq (fd_id d) (Some p) dt config start transport db = Inr (s, db')
         \<and> tx_device s = fd_id d)"
proof
  have "first_where (\<lambda>e. fd_id e = fd_id d \<and> fd_active e) devices = None"
    using assms(1-3) by (auto simp: first_where_None dest: distinct_map_key)
  then show "resolve_device_and_project acc devices (rq\<lparr>rq_device := None\<rparr>) (fd_id d) (Some p) = Inl DeviceNotFound"
    by (simp add: resolve_device_and_project_def)
  have "resolve_device_and_project acc devices rq (fd_id d) (Some p) = Inr (d, p)"
    using assms(4,5) by (simp add: resolve_device_and_project_def)
  moreover have "first_where (open_on_device (fd_id d)) (rev (sort_key tx_created_at (td_sessions db))) = None"
    using assms(6) by (simp add: first_where_None list_ex_iff)
  ultimately show "\<exists>s db'. start_view now ref acc devices rq (fd_id d) (Some p) dt config start transport db = Inr (s, db')
      \<and> tx_device s = fd_id d"
    by (simp add: start_view_def start_session_def Let_def new_session_def)
qed

section \<open>Witnesses\<close>

definition demo_officer :: acc_user where
  "demo_officer = demo_inspector"

definition demo_request_of :: "field_device \<Rightarrow> tel_request" where
  "demo_request_of d = \<lparr>rq_user = Some demo_officer, rq_device = Some d\<rparr>"

definition demo_scope :: access_db where
  "demo_scope = demo_access"

definition demo_tokens :: token_db where
  "demo_tokens = \<lparr>kd_tokens =
     [\<lparr>dk_id = 0, dk_device = 1, dk_label = ''old'', dk_prefix = ''nxdev_a'', dk_hash = ''nxdev_a'',
       dk_issued_by = Some 4, dk_issued_at = 0, dk_last_used = None, dk_expires = None, dk_revoked = Some 5\<rparr>,
      \<lparr>dk_id = 1, dk_device = 1, dk_label = ''new'', dk_prefix = ''nxdev_b'', dk_hash = ''nxdev_b'',
       dk_issued_by = Some 4, dk_issued_at = 6, dk_last_used = None, dk_expires = None, dk_revoked = None\<rparr>],
     kd_next_id = 2\<rparr>"

definition demo_auth :: "auth_result \<times> token_db" where
  "demo_auth = device_authenticate (\<lambda>s. s) 10 [demo_officer] ''Device nxdev_b'' demo_tokens"

theorem revocation_is_final_witness:
  "fst demo_auth = AuthenticatedAs demo_officer (kd_tokens demo_tokens ! 1)
   \<and> \<not> token_is_revoked (kd_tokens demo_tokens ! 1)"
proof -
  have "fst demo_auth = AuthenticatedAs demo_officer (kd_tokens demo_tokens ! 1)" by code_simp
  then have auth: "device_authenticate (\<lambda>s. s) 10 [demo_officer] ''Device nxdev_b'' demo_tokens
      = (AuthenticatedAs demo_officer (kd_tokens demo_tokens ! 1), snd demo_auth)"
    unfolding demo_auth_def by (metis prod.collapse)
  have inv: "tokens_inv demo_tokens" by code_simp
  have mem: "kd_tokens demo_tokens ! 0 \<in> set (kd_tokens demo_tokens)"
    and rev: "token_is_revoked (kd_tokens demo_tokens ! 0)"
    by (simp_all add: demo_tokens_def token_is_revoked_def)
  from revocation_is_final [OF inv mem rev rtranclp.rtrancl_refl auth] \<open>fst demo_auth = _\<close>
  show ?thesis by blast
qed

definition retired_device :: field_device where
  "retired_device = demo_device\<lparr>fd_active := False\<rparr>"

definition demo_start_view :: "nat + (tel_session \<times> tel_db)" where
  "demo_start_view = start_view 10 ''TEL-1'' demo_scope [retired_device] (demo_request_of retired_device) 1 (Some 9)
     Pundit (JObj []) None Wifi empty_tel_db"

theorem inactive_device_still_pushes_witness:
  "is_ok demo_start_view"
proof -
  have "\<not> fd_active retired_device" "distinct (map fd_id [retired_device])" "retired_device \<in> set [retired_device]"
    "rq_device (demo_request_of retired_device) = Some retired_device"
    by (simp_all add: retired_device_def demo_request_of_def)
  moreover have "in_scope demo_scope (rq_user (demo_request_of retired_device)) 9" by code_simp
  moreover have "\<not> list_ex (open_on_device (fd_id retired_device)) (td_sessions empty_tel_db)"
    by (simp add: empty_tel_db_def)
  ultimately have "\<exists>s db'. start_view 10 ''TEL-1'' demo_scope [retired_device] (demo_request_of retired_device)
      (fd_id retired_device) (Some 9) Pundit (JObj []) None Wifi empty_tel_db = Inr (s, db')
      \<and> tx_device s = fd_id retired_device"
    by (rule inactive_device_still_pushes [THEN conjunct2])
  then show ?thesis by (auto simp: demo_start_view_def retired_device_def demo_device_def)
qed

theorem device_credential_confined_witness:
  "\<exists>s db'. demo_start_view = Inr (s, db') \<and> tx_device s = 1"
proof -
  have "is_ok demo_start_view" by code_simp
  then obtain r where "demo_start_view = Inr r"
    by (metis is_ok_simps(1) sumE)
  then obtain s db' where eq: "demo_start_view = Inr (s, db')"
    by (metis surj_pair)
  have "rq_device (demo_request_of retired_device) = Some retired_device" by (simp add: demo_request_of_def)
  from device_credential_confined [OF this, THEN conjunct1, THEN mp, OF eq [unfolded demo_start_view_def]]
  have "tx_device s = 1" by (simp add: retired_device_def demo_device_def)
  with eq show ?thesis by blast
qed

end
