(* ===== verification/Geofence.thy ===== *)
theory Geofence
  imports Nexucon_Prelude Complex_Main
begin

text \<open>
  Distances and the site geofence: \<^verbatim>\<open>common/geo.py\<close> and
  \<^verbatim>\<open>apps/inspections/geofence.py\<close>. A Python float is a real number, an infinity
  or not a number; arithmetic is exact here, so rounding of the great-circle formula is not
  modelled. What a caller sends is classified by what \<^verbatim>\<open>float()\<close> makes of it.
\<close>

section \<open>Numbers from a device\<close>

datatype fval = Fin real | Inf | NegInf | NaN

datatype number_arg = Absent | EmptyText | NotNumeric | Number fval

text \<open>\<open>x <= y\<close> on floats: false as soon as one side is not a number.\<close>

fun fle :: "fval \<Rightarrow> fval \<Rightarrow> bool" where
  "fle NaN _ = False"
| "fle _ NaN = False"
| "fle NegInf _ = True"
| "fle _ Inf = True"
| "fle (Fin x) (Fin y) = (x \<le> y)"
| "fle _ _ = False"

definition flt :: "fval \<Rightarrow> fval \<Rightarrow> bool" where
  "flt x y \<longleftrightarrow> fle x y \<and> \<not> fle y x"

section \<open>Distance\<close>

definition earth_radius_m :: real where
  "earth_radius_m = 6371000"

definition radians :: "real \<Rightarrow> real" where
  "radians d = d * pi / 180"

definition haversine_m :: "real \<times> real \<Rightarrow> real \<times> real \<Rightarrow> real" where
  "haversine_m pa pb =
     (let lat1 = radians (fst pa); lon1 = radians (snd pa);
          lat2 = radians (fst pb); lon2 = radians (snd pb);
          dlat = lat2 - lat1; dlon = lon2 - lon1;
          a = (sin (dlat / 2))\<^sup>2 + cos lat1 * cos lat2 * (sin (dlon / 2))\<^sup>2
      in earth_radius_m * 2 * arcsin (sqrt a))"

text \<open>With a missing coordinate the distance is infinite.\<close>

definition distance_m :: "(real \<times> real) option \<Rightarrow> (real \<times> real) option \<Rightarrow> fval" where
  "distance_m pa pb = (case (pa, pb) of
      (Some a, Some b) \<Rightarrow> Fin (haversine_m a b) | _ \<Rightarrow> Inf)"

section \<open>The geofence\<close>

datatype geo_state = Geo_Verified | Geo_Outside | Geo_Unverifiable

datatype geo_reason =
    Within_Radius | Outside_Radius | Coordinates_Not_Recorded
  | Accuracy_Not_Reported | Accuracy_Exceeds_Radius

datatype radius_source = From_Project | Platform_Default

datatype enforcement = Enf_Off | Enf_Warn | Enf_Strict

definition enforcement_mode :: "string option \<Rightarrow> enforcement" where
  "enforcement_mode setting =
     (let m = py_lower (case setting of None \<Rightarrow> ''warn'' | Some s \<Rightarrow> s)
      in if m = ''off'' then Enf_Off else if m = ''strict'' then Enf_Strict else Enf_Warn)"

record site =
  st_latitude :: "real option"
  st_longitude :: "real option"
  st_radius_m :: "nat option"

definition effective_geofence_radius :: "nat \<Rightarrow> site \<Rightarrow> nat \<times> radius_source" where
  "effective_geofence_radius default_m st =
     (case st_radius_m st of
        Some r \<Rightarrow> if r \<noteq> 0 then (r, From_Project) else (default_m, Platform_Default)
      | None \<Rightarrow> (default_m, Platform_Default))"

record geofence_result =
  gr_checked :: bool
  gr_state :: geo_state
  gr_reason :: geo_reason
  gr_distance :: "real option"
  gr_radius_m :: nat
  gr_source :: radius_source
  gr_accuracy :: "real option"

definition gr_verified :: "geofence_result \<Rightarrow> bool" where
  "gr_verified r \<longleftrightarrow> gr_state r = Geo_Verified"

text \<open>A usable accuracy is a finite, non-negative number.\<close>

fun coerce_accuracy :: "number_arg \<Rightarrow> real option" where
  "coerce_accuracy (Number (Fin x)) = (if x < 0 then None else Some x)"
| "coerce_accuracy _ = None"

definition evaluate_geofence :: "nat \<Rightarrow> site \<Rightarrow> real \<Rightarrow> real \<Rightarrow> number_arg \<Rightarrow> geofence_result" where
  "evaluate_geofence default_m st latitude longitude accuracy_m =
     (let (radius, source) = effective_geofence_radius default_m st;
          accuracy = coerce_accuracy accuracy_m;
          result = (\<lambda>checked state reason distance acc.
            \<lparr>gr_checked = checked, gr_state = state, gr_reason = reason, gr_distance = distance,
             gr_radius_m = radius, gr_source = source, gr_accuracy = acc\<rparr>)
      in case (st_latitude st, st_longitude st) of
           (Some slat, Some slon) \<Rightarrow>
             (let d = haversine_m (slat, slon) (latitude, longitude)
              in case accuracy of
                   None \<Rightarrow> result True Geo_Unverifiable Accuracy_Not_Reported (Some d) None
                 | Some acc \<Rightarrow>
                     if acc > real radius
                     then result True Geo_Unverifiable Accuracy_Exceeds_Radius (Some d) (Some acc)
                     else if d \<le> real radius
                     then result True Geo_Verified Within_Radius (Some d) (Some acc)
                     else result True Geo_Outside Outside_Radius (Some d) (Some acc))
         | _ \<Rightarrow> result False Geo_Unverifiable Coordinates_Not_Recorded None accuracy)"

section \<open>What a verdict means\<close>

text \<open>The whole condition under which a position is certified.\<close>

definition certified :: "nat \<Rightarrow> site \<Rightarrow> real \<Rightarrow> real \<Rightarrow> number_arg \<Rightarrow> bool" where
  "certified default_m st lat lon acc \<longleftrightarrow>
     (\<exists>slat slon a. st_latitude st = Some slat \<and> st_longitude st = Some slon
        \<and> acc = Number (Fin a) \<and> 0 \<le> a
        \<and> a \<le> real (fst (effective_geofence_radius default_m st))
        \<and> haversine_m (slat, slon) (lat, lon) \<le> real (fst (effective_geofence_radius default_m st)))"

lemma coerce_accuracy_Some: "coerce_accuracy acc = Some a \<longleftrightarrow> acc = Number (Fin a) \<and> 0 \<le> a"
  by (cases acc rule: coerce_accuracy.cases) auto

lemma verified_iff_certified:
  "gr_verified (evaluate_geofence default_m st lat lon acc) \<longleftrightarrow> certified default_m st lat lon acc"
  by (auto simp: gr_verified_def evaluate_geofence_def certified_def Let_def coerce_accuracy_Some
      split: option.splits prod.splits)

lemma verified_reason:
  "gr_reason (evaluate_geofence default_m st lat lon acc) = Within_Radius \<longleftrightarrow>
   gr_verified (evaluate_geofence default_m st lat lon acc)"
  by (auto simp: gr_verified_def evaluate_geofence_def Let_def split: option.splits prod.splits)

text \<open>The distance between a point and itself is zero, and the formula is symmetric.\<close>

lemma haversine_self [simp]: "haversine_m p p = 0"
  by (simp add: haversine_m_def)

lemma haversine_sym: "haversine_m p q = haversine_m q p"
proof -
  have "sin ((x - y) / 2) ^ 2 = sin ((y - x) / 2) ^ 2" for x y :: real
  proof -
    have "(y - x) / 2 = - ((x - y) / 2)" by (simp add: diff_divide_distrib)
    then show ?thesis by (simp only: sin_minus power2_minus)
  qed
  then show ?thesis by (simp add: haversine_m_def Let_def mult.commute mult.left_commute)
qed

text \<open>
  The value under the square root lies between 0 and 1 for latitudes a caller may send, so
  the distance is between 0 and half the circumference.
\<close>

lemma haversine_arg_bounds:
  fixes u v d e :: real
  assumes "0 \<le> cos u" "0 \<le> cos v"
  shows "0 \<le> (sin ((v - u) / 2))\<^sup>2 + cos u * cos v * (sin e)\<^sup>2"
    and "(sin ((v - u) / 2))\<^sup>2 + cos u * cos v * (sin e)\<^sup>2 \<le> 1"
proof -
  show "0 \<le> (sin ((v - u) / 2))\<^sup>2 + cos u * cos v * (sin e)\<^sup>2"
    using assms by simp
  have "cos u * cos v * (sin e)\<^sup>2 \<le> cos u * cos v * 1"
    using assms by (intro mult_left_mono) (simp_all add: abs_square_le_1)
  moreover have "(sin ((v - u) / 2))\<^sup>2 = (1 - cos (v - u)) / 2"
  proof -
    have "2 * ((v - u) / 2) = v - u" by simp
    then have "cos (v - u) = 1 - 2 * (sin ((v - u) / 2))\<^sup>2" by (metis cos_double_sin)
    then show ?thesis by simp
  qed
  moreover have "cos (v - u) = cos u * cos v + sin u * sin v"
    by (simp add: cos_diff)
  moreover have "cos u * cos v - sin u * sin v = cos (u + v)" by (simp add: cos_add)
  moreover have "cos (u + v) \<le> 1" by simp
  ultimately show "(sin ((v - u) / 2))\<^sup>2 + cos u * cos v * (sin e)\<^sup>2 \<le> 1" by argo
qed

lemma cos_latitude: "-90 \<le> d \<Longrightarrow> d \<le> 90 \<Longrightarrow> 0 \<le> cos (radians d)"
  using mult_left_mono [of "-90" d pi] mult_left_mono [of d 90 pi]
  by (intro cos_ge_zero) (simp_all add: radians_def field_simps)

lemma haversine_bounds:
  assumes "-90 \<le> fst p" "fst p \<le> 90" "-90 \<le> fst q" "fst q \<le> 90"
  shows "0 \<le> haversine_m p q \<and> haversine_m p q \<le> pi * earth_radius_m"
proof -
  define a where "a = (sin ((radians (fst q) - radians (fst p)) / 2))\<^sup>2
    + cos (radians (fst p)) * cos (radians (fst q)) * (sin ((radians (snd q) - radians (snd p)) / 2))\<^sup>2"
  have "0 \<le> a" "a \<le> 1"
    unfolding a_def using assms by (intro haversine_arg_bounds cos_latitude; simp)+
  then have "0 \<le> sqrt a" "sqrt a \<le> 1" "-1 \<le> sqrt a"
    by (simp_all add: order_trans [of "-1" 0])
  then have "0 \<le> arcsin (sqrt a)" "arcsin (sqrt a) \<le> pi / 2"
    using arcsin_le_arcsin [of 0 "sqrt a"] arcsin_ubound [of "sqrt a"] by simp_all
  moreover have "haversine_m p q = earth_radius_m * 2 * arcsin (sqrt a)"
    by (simp add: haversine_m_def a_def Let_def)
  ultimately show ?thesis by (simp add: earth_radius_m_def)
qed

section \<open>Properties\<close>

text \<open>
  The distance is a sane number. For latitudes in range it lies between zero and half the
  circumference of the Earth, it does not depend on the order of the two points, a point is at
  distance zero from itself, and an unknown position is infinitely far from everything, so it
  is inside no radius.
\<close>

theorem distance_sane:
  assumes "-90 \<le> fst p" "fst p \<le> 90" "-90 \<le> fst q" "fst q \<le> 90"
  shows "0 \<le> haversine_m p q \<and> haversine_m p q \<le> pi * earth_radius_m
    \<and> haversine_m p q = haversine_m q p \<and> haversine_m p p = 0
    \<and> distance_m (Some p) None = Inf \<and> distance_m None (Some q) = Inf
    \<and> \<not> fle (distance_m (Some p) None) (Fin r)"
  using haversine_bounds [OF assms] haversine_sym [of p q] by (simp add: distance_m_def)

theorem distance_sane_witness:
  "0 \<le> haversine_m (6, 3) (7, 4) \<and> haversine_m (6, 3) (7, 4) = haversine_m (7, 4) (6, 3)"
  using distance_sane [of "(6, 3)" "(7, 4)" 0] by simp

end
