(* ===== verification/Execution.thy ===== *)
theory Execution
  imports Geofence Py_Json Access
begin

text \<open>
  Executing an inspection in the field: \<^verbatim>\<open>apps/inspections/execution.py\<close> on the
  models of \<^verbatim>\<open>apps/inspections/models.py\<close>. Check-in, submission, check-out and
  sign-off with every check in the order of the code, the digests they store and the
  recomputation that verifies them. \<open>fr\<close> is Python's \<^verbatim>\<open>repr\<close> of a float and
  \<open>parse\<close> is \<^verbatim>\<open>datetime.fromisoformat\<close> (the wall clock in microseconds and the
  UTC offset in whole minutes, if the text has one). A stored instant comes back in UTC. The
  metadata of an audit entry is not modelled, nor is the checklist template of a submission.
\<close>

section \<open>Rows\<close>

datatype insp_status =
    Requested | Scheduled | In_Progress | Completed | Re_Inspection_Required | Failed_Insp | Cancelled

record inspection =
  ix_id :: nat
  ix_project :: nat
  ix_type :: string
  ix_status :: insp_status
  ix_inspector :: "nat option"
  ix_inspector_name :: string
  ix_checkin_time :: "int option"
  ix_lat :: "real option"
  ix_lon :: "real option"
  ix_gps_verified :: bool
  ix_accuracy :: "fval option"
  ix_geo_state :: "geo_state option"
  ix_geo_reason :: "geo_reason option"
  ix_geo_distance :: "real option"
  ix_checkout_time :: "int option"
  ix_checkout_lat :: "real option"
  ix_checkout_lon :: "real option"
  ix_checklist :: json
  ix_completed :: "int option"
  ix_updated_at :: int

record submission =
  sb_id :: nat
  sb_inspection :: nat
  sb_checklist :: json
  sb_evidence :: json
  sb_lat :: real
  sb_lon :: real
  sb_recorded_at :: "int option"
  sb_submitted_by :: "nat option"
  sb_submitted_at :: int
  sb_hash :: string
  sb_device_info :: string

record signoff =
  so_submission :: nat
  so_signed_by :: "nat option"
  so_signed_by_name :: string
  so_text :: string
  so_signed_at :: int
  so_hash :: string

datatype severity = Sev_Normal | Sev_Warning | Sev_High | Sev_Critical

record exec_audit =
  xa_user :: "nat option"
  xa_user_name :: string
  xa_action :: string
  xa_inspection :: nat
  xa_severity :: severity

record exec_db =
  eb_inspections :: "inspection list"
  eb_submissions :: "submission list"
  eb_signoffs :: "signoff list"
  eb_audit :: "exec_audit list"

datatype exec_error =
    CoordinatesMissing string
  | CoordinatesNotNumeric
  | LatitudeOutOfRange
  | LongitudeOutOfRange
  | AccuracyNotNumeric
  | AccuracyNegative
  | DeviceTimeNotIso
  | GeofenceRefused geofence_result
  | ChecklistRequired
  | ContentRequired
  | CheckInFirst
  | NotVerifiedAtCheckIn
  | EvidenceDigestMissing string
  | NeverCheckedIn
  | AlreadyCheckedOut int
  | AlreadySignedOff
  | InspectorRequired
  | UncaughtException

section \<open>Checklist templates\<close>

text \<open>Templates are listed in the default order of the model, the newest first.\<close>

datatype template_status = Tpl_Active | Tpl_Draft | Tpl_Archived

record inspection_template =
  tp_id :: string
  tp_name :: string
  tp_department :: string
  tp_status :: template_status
  tp_version :: string

record checklist_item =
  ci_id :: nat
  ci_template :: string
  ci_order :: int
  ci_title :: string
  ci_field_type :: string
  ci_required :: bool

definition models_q_department :: "inspection \<Rightarrow> inspection_template \<Rightarrow> bool" where
  "models_q_department i tp =
     (case map_of [(''structural review'', ''structural''), (''foundation inspection'', ''structural''),
                   (''mep inspection'', ''mep''), (''safety audit'', ''safety''),
                   (''drainage & environmental'', ''environmental'')] (py_lower (ix_type i)) of
        Some department \<Rightarrow> py_lower (tp_department tp) = department
      | None \<Rightarrow> True)"

definition build_checklist ::
    "inspection \<Rightarrow> inspection_template option \<Rightarrow> inspection_template list \<Rightarrow> checklist_item list \<Rightarrow> json option" where
  "build_checklist i chosen templates rows =
     (let active = filter (\<lambda>t. tp_status t = Tpl_Active) templates;
          template = (case chosen of
             Some t \<Rightarrow> Some t
           | None \<Rightarrow> (case first_where (models_q_department i) active of
                        Some t \<Rightarrow> Some t | None \<Rightarrow> first_where (\<lambda>_. True) active))
      in case template of
           None \<Rightarrow> None
         | Some t \<Rightarrow> Some (JObj
             [(''template_id'', JStr (tp_id t)), (''template_name'', JStr (tp_name t)),
              (''version'', JStr (tp_version t)),
              (''items'', JArr (map (\<lambda>r. JObj
                 [(''item_id'', JStr (show_nat (ci_id r))), (''order'', JInt (ci_order r)),
                  (''title'', JStr (ci_title r)), (''field_type'', JStr (ci_field_type r)),
                  (''required'', JBool (ci_required r))])
                (sort_key ci_order (filter (\<lambda>r. ci_template r = tp_id t) rows))))]))"

section \<open>Inputs\<close>

definition validate_coords ::
    "number_arg \<Rightarrow> number_arg \<Rightarrow> number_arg \<Rightarrow> string \<Rightarrow> exec_error + (real \<times> real \<times> fval option)" where
  "validate_coords latitude longitude accuracy_m missing_message =
     (if latitude = Absent \<or> longitude = Absent then Inl (CoordinatesMissing missing_message)
      else case (latitude, longitude) of
        (Number la, Number lo) \<Rightarrow>
          (case la of
             Fin lat \<Rightarrow>
               bind_r (check (-90 \<le> lat \<and> lat \<le> 90) LatitudeOutOfRange) (\<lambda>_.
               case lo of
                 Fin lon \<Rightarrow>
                   bind_r (check (-180 \<le> lon \<and> lon \<le> 180) LongitudeOutOfRange) (\<lambda>_.
                   case accuracy_m of
                     Absent \<Rightarrow> Inr (lat, lon, None)
                   | EmptyText \<Rightarrow> Inr (lat, lon, None)
                   | NotNumeric \<Rightarrow> Inl AccuracyNotNumeric
                   | Number a \<Rightarrow>
                       bind_r (check (\<not> flt a (Fin 0)) AccuracyNegative) (\<lambda>_. Inr (lat, lon, Some a)))
               | _ \<Rightarrow> Inl LongitudeOutOfRange)
           | _ \<Rightarrow> Inl LatitudeOutOfRange)
      | _ \<Rightarrow> Inl CoordinatesNotNumeric)"

fun replace_Z :: "string \<Rightarrow> string" where
  "replace_Z [] = []"
| "replace_Z (c # s) = (if c = CHR ''Z'' then ''+00:00'' else [c]) @ replace_Z s"

type_synonym iso_parser = "string \<Rightarrow> (int \<times> int option) option"

text \<open>
  An aware time is its instant and the offset it was written in; a naive one is read in the
  platform's time zone, which is UTC.
\<close>

definition parse_device_time :: "iso_parser \<Rightarrow> json \<Rightarrow> exec_error + (int \<times> int) option" where
  "parse_device_time parse device_time =
     (if \<not> json_truthy device_time then Inr None
      else case parse (replace_Z (py_str device_time)) of
             None \<Rightarrow> Inl DeviceTimeNotIso
           | Some (wall, Some off) \<Rightarrow> Inr (Some (wall - off * 60000000, off))
           | Some (wall, None) \<Rightarrow> Inr (Some (wall, 0)))"

definition audit_entry :: "acc_user option \<Rightarrow> string \<Rightarrow> nat \<Rightarrow> severity \<Rightarrow> exec_audit" where
  "audit_entry usr action insp sev =
     \<lparr>xa_user = map_option ac_id usr,
      xa_user_name = (case usr of None \<Rightarrow> ''System'' | Some u \<Rightarrow> display_name u),
      xa_action = action, xa_inspection = insp, xa_severity = sev\<rparr>"

definition save_inspection :: "inspection \<Rightarrow> inspection list \<Rightarrow> inspection list" where
  "save_inspection i rows = update_where (\<lambda>r. ix_id r = ix_id i) (\<lambda>_. i) rows"

section \<open>Check-in\<close>

text \<open>\<^verbatim>\<open>round(x, 2)\<close>: to the nearest hundredth, ties to the even one.\<close>

definition round_hundredths :: "real \<Rightarrow> real" where
  "round_hundredths x =
     (let y = x * 100; f = floor y; d = y - of_int f
      in of_int (if d < 1/2 then f else if d > 1/2 then f + 1 else if even f then f else f + 1) / 100)"

definition accuracy_arg :: "fval option \<Rightarrow> number_arg" where
  "accuracy_arg a = (case a of None \<Rightarrow> Absent | Some x \<Rightarrow> Number x)"

definition checked_in ::
    "int \<Rightarrow> acc_user option \<Rightarrow> real \<Rightarrow> real \<Rightarrow> fval option \<Rightarrow> geofence_result option \<Rightarrow> inspection \<Rightarrow> inspection" where
  "checked_in now usr lat lon acc result i =
     (let take_over = (usr \<noteq> None \<and> ix_inspector i = None)
      in i\<lparr>ix_lat := Some lat, ix_lon := Some lon, ix_checkin_time := Some now, ix_accuracy := acc,
           ix_gps_verified := (case result of None \<Rightarrow> False | Some r \<Rightarrow> gr_verified r),
           ix_geo_state := map_option gr_state result,
           ix_geo_reason := map_option gr_reason result,
           ix_geo_distance := (case result of None \<Rightarrow> None | Some r \<Rightarrow> map_option round_hundredths (gr_distance r)),
           ix_status := (if ix_status i = Requested \<or> ix_status i = Scheduled then In_Progress else ix_status i),
           ix_inspector := (if take_over then map_option ac_id usr else ix_inspector i),
           ix_inspector_name := (case usr of Some u \<Rightarrow> if take_over then display_name u else ix_inspector_name i
                                 | None \<Rightarrow> ix_inspector_name i),
           ix_updated_at := now\<rparr>)"

text \<open>\<open>i\<close> is the loaded inspection and \<open>st\<close> its project's site.\<close>

definition checkin ::
    "iso_parser \<Rightarrow> enforcement \<Rightarrow> nat \<Rightarrow> int \<Rightarrow> site \<Rightarrow> inspection \<Rightarrow> acc_user option
     \<Rightarrow> number_arg \<Rightarrow> number_arg \<Rightarrow> json \<Rightarrow> number_arg \<Rightarrow> exec_db
     \<Rightarrow> exec_error + (inspection \<times> exec_db)" where
  "checkin parse mode default_m now st i usr latitude longitude device_time accuracy_m db =
     bind_r (validate_coords latitude longitude accuracy_m ''start'') (\<lambda>(lat, lon, acc).
     bind_r (parse_device_time parse device_time) (\<lambda>_.
     let result = (if mode = Enf_Off then None
                   else Some (evaluate_geofence default_m st lat lon (accuracy_arg acc)))
     in case result of
          Some r \<Rightarrow>
            bind_r (check (\<not> (mode = Enf_Strict \<and> \<not> gr_verified r)) (GeofenceRefused r)) (\<lambda>_.
            let i' = checked_in now usr lat lon acc (Some r) i
            in Inr (i', db\<lparr>eb_inspections := save_inspection i' (eb_inspections db),
                           eb_audit := eb_audit db @ [audit_entry usr ''inspection.execution.checkin'' (ix_id i) Sev_High]\<rparr>))
        | None \<Rightarrow>
            (let i' = checked_in now usr lat lon acc None i
             in Inr (i', db\<lparr>eb_inspections := save_inspection i' (eb_inspections db),
                            eb_audit := eb_audit db @ [audit_entry usr ''inspection.execution.checkin'' (ix_id i) Sev_High]\<rparr>))))"

section \<open>Submission\<close>

definition normalise_item :: "json \<Rightarrow> exec_error + json" where
  "normalise_item item = (case item of
     JObj d \<Rightarrow> Inr (JObj
       [(''item_id'', JStr (py_str (json_or (dict_get d ''item_id'') (JStr [])))),
        (''title'', JStr (py_str (json_or (dict_get d ''title'') (JStr [])))),
        (''result'', dict_get d ''result''),
        (''notes'', JStr (py_str (json_or (dict_get d ''notes'') (JStr [])))),
        (''evidence_hashes'', json_or (dict_get d ''evidence_hashes'') (JArr []))])
   | _ \<Rightarrow> Inl UncaughtException)"

definition normalise_evidence :: "json \<Rightarrow> exec_error + json" where
  "normalise_evidence f = (case f of
     JObj d \<Rightarrow>
       (let digest = json_or (dict_get d ''sha256'') (dict_get d ''sha256_checksum'')
        in bind_r (check (json_truthy digest)
                    (EvidenceDigestMissing (case map_of d ''file_name'' of None \<Rightarrow> ''?'' | Some v \<Rightarrow> py_str v))) (\<lambda>_.
           Inr (JObj
             [(''file_name'', JStr (py_str (json_or (dict_get d ''file_name'') (JStr [])))),
              (''sha256'', JStr (py_lower (py_str digest))),
              (''url'', JStr (py_str (json_or (dict_get d ''url'') (JStr [])))),
              (''file_type'', JStr (py_str (json_or (dict_get d ''file_type'') (JStr []))))])))
   | _ \<Rightarrow> Inl UncaughtException)"

fun map_r :: "('a \<Rightarrow> 'e + 'b) \<Rightarrow> 'a list \<Rightarrow> 'e + 'b list" where
  "map_r f [] = Inr []"
| "map_r f (x # xs) = bind_r (f x) (\<lambda>y. bind_r (map_r f xs) (\<lambda>ys. Inr (y # ys)))"

definition list_items :: "json \<Rightarrow> exec_error + json list" where
  "list_items j = (case j of JArr xs \<Rightarrow> Inr xs | _ \<Rightarrow> Inl UncaughtException)"

definition id_or_null :: "nat option \<Rightarrow> json" where
  "id_or_null k = (case k of None \<Rightarrow> JNull | Some n \<Rightarrow> JStr (show_nat n))"

text \<open>The document that is digested, at submission and at verification.\<close>

definition submission_content ::
    "(real \<Rightarrow> string) \<Rightarrow> nat \<Rightarrow> json \<Rightarrow> json \<Rightarrow> real \<Rightarrow> real \<Rightarrow> json \<Rightarrow> int \<Rightarrow> nat option \<Rightarrow> json" where
  "submission_content fr insp checklist evidence lat lon device_time submitted_at submitted_by =
     JObj [(''inspection'', JStr (show_nat insp)),
           (''checklist'', checklist),
           (''evidence'', evidence),
           (''gps'', JArr [JFloat (fr lat), JFloat (fr lon)]),
           (''device_time'', device_time),
           (''submitted_at'', JStr (iso_instant submitted_at)),
           (''submitted_by'', id_or_null submitted_by)]"

definition device_time_json :: "(int \<times> int) option \<Rightarrow> json" where
  "device_time_json dt = (case dt of None \<Rightarrow> JNull | Some a \<Rightarrow> JStr (iso_aware a))"

text \<open>
  A second submission of one inspection violates the one-to-one key: an integrity error
  before the inspection is touched.
\<close>

definition submit ::
    "(string \<Rightarrow> string) \<Rightarrow> (real \<Rightarrow> string) \<Rightarrow> iso_parser \<Rightarrow> enforcement \<Rightarrow> int \<Rightarrow> nat \<Rightarrow> inspection
     \<Rightarrow> acc_user option \<Rightarrow> json \<Rightarrow> json \<Rightarrow> number_arg \<Rightarrow> number_arg \<Rightarrow> json \<Rightarrow> json \<Rightarrow> exec_db
     \<Rightarrow> exec_error + (submission \<times> exec_db)" where
  "submit H fr parse mode now pk i usr checklist_results evidence_files latitude longitude
     device_time device_info db =
     bind_r (check (json_truthy checklist_results) ChecklistRequired) (\<lambda>_.
     bind_r (check (json_truthy evidence_files \<or> json_truthy checklist_results) ContentRequired) (\<lambda>_.
     bind_r (check (ix_checkin_time i \<noteq> None) CheckInFirst) (\<lambda>_.
     bind_r (check (\<not> (mode = Enf_Strict \<and> \<not> ix_gps_verified i)) NotVerifiedAtCheckIn) (\<lambda>_.
     bind_r (validate_coords latitude longitude Absent ''submit'') (\<lambda>(lat, lon, _).
     bind_r (bind_r (list_items checklist_results) (map_r normalise_item)) (\<lambda>items.
     bind_r (bind_r (list_items (json_or evidence_files (JArr []))) (map_r normalise_evidence)) (\<lambda>evidence.
     bind_r (parse_device_time parse device_time) (\<lambda>recorded.
     let by = map_option ac_id usr;
         hash = H (canonical_json (submission_content fr (ix_id i) (JArr items) (JArr evidence) lat lon
                     (device_time_json recorded) now by));
         sub = \<lparr>sb_id = pk, sb_inspection = ix_id i, sb_checklist = JArr items, sb_evidence = JArr evidence,
                sb_lat = lat, sb_lon = lon, sb_recorded_at = map_option fst recorded, sb_submitted_by = by,
                sb_submitted_at = now, sb_hash = hash,
                sb_device_info = take 255 (py_str (json_or device_info (JStr [])))\<rparr>;
         i' = i\<lparr>ix_checklist := JArr items, ix_lat := Some lat, ix_lon := Some lon,
                ix_completed := Some now, ix_status := Completed, ix_updated_at := now\<rparr>
     in bind_r (check (\<not> list_ex (\<lambda>s. sb_inspection s = ix_id i) (eb_submissions db)) UncaughtException) (\<lambda>_.
        Inr (sub, db\<lparr>eb_submissions := eb_submissions db @ [sub],
                     eb_inspections := save_inspection i' (eb_inspections db),
                     eb_audit := eb_audit db @ [audit_entry usr ''inspection.execution.submit'' (ix_id i) Sev_High]\<rparr>))))))))))"

section \<open>Check-out\<close>

definition checkout ::
    "iso_parser \<Rightarrow> int \<Rightarrow> inspection \<Rightarrow> acc_user option \<Rightarrow> number_arg \<Rightarrow> number_arg \<Rightarrow> json
     \<Rightarrow> number_arg \<Rightarrow> exec_db \<Rightarrow> exec_error + (inspection \<times> exec_db)" where
  "checkout parse now i usr latitude longitude device_time accuracy_m db =
     bind_r (check (ix_checkin_time i \<noteq> None) NeverCheckedIn) (\<lambda>_.
     bind_r (case ix_checkout_time i of None \<Rightarrow> Inr () | Some t \<Rightarrow> Inl (AlreadyCheckedOut t)) (\<lambda>_.
     bind_r (parse_device_time parse device_time) (\<lambda>_.
     bind_r (if latitude \<noteq> Absent \<or> longitude \<noteq> Absent
             then bind_r (validate_coords latitude longitude accuracy_m ''check-out'')
                    (\<lambda>(lat, lon, _). Inr (Some lat, Some lon))
             else Inr (None, None)) (\<lambda>(lat, lon).
     let f = (\<lambda>r. r\<lparr>ix_checkout_time := Some now, ix_checkout_lat := lat, ix_checkout_lon := lon,
                    ix_updated_at := now\<rparr>)
     in Inr (f i, db\<lparr>eb_inspections := update_where (\<lambda>r. ix_id r = ix_id i) f (eb_inspections db),
                     eb_audit := eb_audit db @ [audit_entry usr ''inspection.execution.checkout'' (ix_id i) Sev_High]\<rparr>)))))"

section \<open>Sign-off and verification\<close>

definition signoff_content :: "string \<Rightarrow> nat \<Rightarrow> string \<Rightarrow> string \<Rightarrow> json \<Rightarrow> int \<Rightarrow> json" where
  "signoff_content submission_hash insp inspector name signature signed_at =
     JObj [(''submission_hash'', JStr submission_hash),
           (''inspection'', JStr (show_nat insp)),
           (''inspector'', JStr inspector),
           (''inspector_name'', JStr name),
           (''signature_text'', signature),
           (''signed_at'', JStr (iso_instant signed_at))]"

definition sign_off ::
    "(string \<Rightarrow> string) \<Rightarrow> int \<Rightarrow> submission \<Rightarrow> acc_user option \<Rightarrow> json \<Rightarrow> exec_db
     \<Rightarrow> exec_error + (signoff \<times> exec_db)" where
  "sign_off H now sub usr signature_text db =
     bind_r (check (\<not> list_ex (\<lambda>s. so_submission s = sb_id sub) (eb_signoffs db)) AlreadySignedOff) (\<lambda>_.
     case usr of
       None \<Rightarrow> Inl InspectorRequired
     | Some u \<Rightarrow>
         (let hash = H (canonical_json (signoff_content (sb_hash sub) (sb_inspection sub)
                          (show_nat (ac_id u)) (display_name u) signature_text now));
              so = \<lparr>so_submission = sb_id sub, so_signed_by = Some (ac_id u), so_signed_by_name = display_name u,
                    so_text = py_str (json_or signature_text (JStr [])), so_signed_at = now, so_hash = hash\<rparr>
          in Inr (so, db\<lparr>eb_signoffs := eb_signoffs db @ [so],
                         eb_audit := eb_audit db @ [audit_entry usr ''inspection.execution.signoff''
                                                      (sb_inspection sub) Sev_Critical]\<rparr>)))"

definition verify_submission :: "(string \<Rightarrow> string) \<Rightarrow> (real \<Rightarrow> string) \<Rightarrow> submission \<Rightarrow> bool" where
  "verify_submission H fr sub \<longleftrightarrow>
     H (canonical_json (submission_content fr (sb_inspection sub) (sb_checklist sub) (sb_evidence sub)
          (sb_lat sub) (sb_lon sub) (iso_or_null (sb_recorded_at sub)) (sb_submitted_at sub)
          (sb_submitted_by sub))) = sb_hash sub"

definition verify_signoff :: "(string \<Rightarrow> string) \<Rightarrow> submission \<Rightarrow> signoff \<Rightarrow> bool" where
  "verify_signoff H sub so \<longleftrightarrow>
     H (canonical_json (signoff_content (sb_hash sub) (sb_inspection sub)
          (case so_signed_by so of None \<Rightarrow> ''None'' | Some k \<Rightarrow> show_nat k)
          (so_signed_by_name so) (JStr (so_text so)) (so_signed_at so))) = so_hash so"

section \<open>Facts on the operations\<close>

lemma parse_device_time_falsy: "\<not> json_truthy dt \<Longrightarrow> parse_device_time parse dt = Inr None"
  by (simp add: parse_device_time_def)

text \<open>Coordinates that pass are finite and in range; the accuracy passes through.\<close>

lemma validate_coords_Inr:
  assumes "validate_coords la lo acc m = Inr (lat, lon, a)"
  shows "la = Number (Fin lat)" "lo = Number (Fin lon)" "-90 \<le> lat" "lat \<le> 90" "-180 \<le> lon" "lon \<le> 180"
    and "accuracy_arg a = Number (Fin x) \<longleftrightarrow> acc = Number (Fin x)"
proof -
  show "la = Number (Fin lat)" "lo = Number (Fin lon)" "-90 \<le> lat" "lat \<le> 90" "-180 \<le> lon" "lon \<le> 180"
    "accuracy_arg a = Number (Fin x) \<longleftrightarrow> acc = Number (Fin x)"
    using assms by (auto simp: validate_coords_def accuracy_arg_def bind_r_Inr_iff
        split: number_arg.splits fval.splits if_splits)
qed

text \<open>What a successful submission stored.\<close>

lemma submit_stored:
  assumes "submit H fr parse mode now pk i usr ck ev la lo dt info db = Inr (sub, db')"
  shows "json_truthy ck" "ix_checkin_time i \<noteq> None" "mode = Enf_Strict \<Longrightarrow> ix_gps_verified i"
    and "\<exists>recorded. parse_device_time parse dt = Inr recorded
        \<and> sb_recorded_at sub = map_option fst recorded \<and> sb_submitted_at sub = now
        \<and> sb_hash sub = H (canonical_json (submission_content fr (sb_inspection sub) (sb_checklist sub)
             (sb_evidence sub) (sb_lat sub) (sb_lon sub) (device_time_json recorded) (sb_submitted_at sub)
             (sb_submitted_by sub)))"
    and "sb_inspection sub = ix_id i" "sb_submitted_by sub = map_option ac_id usr"
    and "\<not> list_ex (\<lambda>s. sb_inspection s = ix_id i) (eb_submissions db)"
    and "eb_submissions db' = eb_submissions db @ [sub]"
    and "eb_inspections db' = save_inspection
           (i\<lparr>ix_checklist := sb_checklist sub, ix_lat := Some (sb_lat sub), ix_lon := Some (sb_lon sub),
              ix_completed := Some now, ix_status := Completed, ix_updated_at := now\<rparr>) (eb_inspections db)"
  using assms by (auto simp: submit_def bind_r_Inr_iff Let_def split: if_splits)

text \<open>Two submission documents agree when their parts do.\<close>

lemma submission_content_norm:
  "json_norm (submission_content fr a ck ev la lo dt t by) = json_norm (submission_content fr a' ck' ev' la' lo' dt' t' by')
   \<longleftrightarrow> a = a' \<and> json_norm ck = json_norm ck' \<and> json_norm ev = json_norm ev' \<and> fr la = fr la' \<and> fr lo = fr lo'
     \<and> json_norm dt = json_norm dt' \<and> iso_instant t = iso_instant t' \<and> by = by'"
  unfolding submission_content_def
  by (subst json_norm_fields) (auto simp: id_or_null_def split: option.splits)

lemma wf_submission_content:
  "wf_json ck \<Longrightarrow> wf_json ev \<Longrightarrow> wf_json dt \<Longrightarrow> float_repr (fr la) \<Longrightarrow> float_repr (fr lo)
   \<Longrightarrow> wf_json (submission_content fr a ck ev la lo dt t by)"
  by (auto simp: submission_content_def id_or_null_def split: option.splits)

lemma wf_device_time [simp]: "wf_json (device_time_json r)" "wf_json (iso_or_null t)"
  by (simp_all add: device_time_json_def iso_or_null_def split: option.splits)

text \<open>The text of the stored time is the one that was digested, unless the offset was not UTC.\<close>

lemma device_time_json_eq:
  assumes "\<And>a. recorded = Some a \<Longrightarrow> -1440 < snd a \<and> snd a < 1440"
  shows "json_norm (device_time_json recorded) = json_norm (iso_or_null (map_option fst recorded))
    \<longleftrightarrow> (case recorded of None \<Rightarrow> True | Some a \<Rightarrow> snd a = 0)"
proof (cases recorded)
  case None
  then show ?thesis by (simp add: device_time_json_def iso_or_null_def)
next
  case (Some a)
  then show ?thesis
    using assms iso_aware_not_utc [of "snd a" "fst a" "fst a"]
    by (cases a) (auto simp: device_time_json_def iso_or_null_def)
qed

section \<open>The life of an inspection\<close>

text \<open>
  One step is a request of the execution API on rows it loaded: an inspection as it is stored,
  with \<open>site_of\<close> giving the site of its project, or a stored submission.
\<close>

inductive exec_step ::
    "(string \<Rightarrow> string) \<Rightarrow> (real \<Rightarrow> string) \<Rightarrow> iso_parser \<Rightarrow> enforcement \<Rightarrow> nat \<Rightarrow> (nat \<Rightarrow> site)
     \<Rightarrow> exec_db \<Rightarrow> exec_db \<Rightarrow> bool"
  for H fr parse mode default_m site_of where
  step_checkin: "i \<in> set (eb_inspections db) \<Longrightarrow>
     checkin parse mode default_m now (site_of (ix_project i)) i usr la lo dt acc db = Inr (i', db') \<Longrightarrow>
     exec_step H fr parse mode default_m site_of db db'"
| step_submit: "i \<in> set (eb_inspections db) \<Longrightarrow> pk \<notin> sb_id ` set (eb_submissions db) \<Longrightarrow>
     submit H fr parse mode now pk i usr ck ev la lo dt info db = Inr (sub, db') \<Longrightarrow>
     exec_step H fr parse mode default_m site_of db db'"
| step_checkout: "i \<in> set (eb_inspections db) \<Longrightarrow>
     checkout parse now i usr la lo dt acc db = Inr (i', db') \<Longrightarrow>
     exec_step H fr parse mode default_m site_of db db'"
| step_sign_off: "sub \<in> set (eb_submissions db) \<Longrightarrow>
     sign_off H now sub usr signature db = Inr (so, db') \<Longrightarrow>
     exec_step H fr parse mode default_m site_of db db'"

inductive exec_reach ::
    "(string \<Rightarrow> string) \<Rightarrow> (real \<Rightarrow> string) \<Rightarrow> iso_parser \<Rightarrow> enforcement \<Rightarrow> nat \<Rightarrow> (nat \<Rightarrow> site)
     \<Rightarrow> exec_db \<Rightarrow> exec_db \<Rightarrow> bool"
  for H fr parse mode default_m site_of db where
  reach_refl: "exec_reach H fr parse mode default_m site_of db db"
| reach_step: "exec_reach H fr parse mode default_m site_of db db' \<Longrightarrow>
     exec_step H fr parse mode default_m site_of db' db'' \<Longrightarrow>
     exec_reach H fr parse mode default_m site_of db db''"

definition fresh_execution :: "exec_db \<Rightarrow> bool" where
  "fresh_execution db \<longleftrightarrow> eb_submissions db = [] \<and> eb_signoffs db = []
     \<and> list_all (\<lambda>i. ix_checkin_time i = None \<and> \<not> ix_gps_verified i) (eb_inspections db)"

definition submission_sealed :: "(string \<Rightarrow> string) \<Rightarrow> (real \<Rightarrow> string) \<Rightarrow> submission \<Rightarrow> bool" where
  "submission_sealed H fr sub \<longleftrightarrow>
     (\<exists>recorded. sb_recorded_at sub = map_option fst recorded \<and> sb_hash sub =
        H (canonical_json (submission_content fr (sb_inspection sub) (sb_checklist sub) (sb_evidence sub)
             (sb_lat sub) (sb_lon sub) (device_time_json recorded) (sb_submitted_at sub) (sb_submitted_by sub))))"

definition signoff_sealed :: "(string \<Rightarrow> string) \<Rightarrow> submission list \<Rightarrow> signoff \<Rightarrow> bool" where
  "signoff_sealed H subs so \<longleftrightarrow>
     (\<exists>sub \<in> set subs. \<exists>u signature. sb_id sub = so_submission so \<and> so_signed_by so = Some u
        \<and> so_text so = py_str (json_or signature (JStr []))
        \<and> so_hash so = H (canonical_json (signoff_content (sb_hash sub) (sb_inspection sub) (show_nat u)
                             (so_signed_by_name so) signature (so_signed_at so))))"

definition submission_visited :: "inspection list \<Rightarrow> submission \<Rightarrow> bool" where
  "submission_visited rows s \<longleftrightarrow> (\<exists>i \<in> set rows. ix_id i = sb_inspection s \<and> ix_checkin_time i \<noteq> None)"

definition exec_inv :: "(string \<Rightarrow> string) \<Rightarrow> (real \<Rightarrow> string) \<Rightarrow> enforcement \<Rightarrow> exec_db \<Rightarrow> bool" where
  "exec_inv H fr mode db \<longleftrightarrow>
     distinct (map sb_inspection (eb_submissions db)) \<and> distinct (map so_submission (eb_signoffs db))
     \<and> (\<forall>s \<in> set (eb_submissions db). submission_sealed H fr s)
     \<and> (\<forall>so \<in> set (eb_signoffs db). signoff_sealed H (eb_submissions db) so)
     \<and> (\<forall>s \<in> set (eb_submissions db). submission_visited (eb_inspections db) s)
     \<and> (\<forall>i \<in> set (eb_inspections db). ix_checkin_time i = None \<longrightarrow> \<not> ix_gps_verified i)
     \<and> (mode = Enf_Off \<longrightarrow> (\<forall>i \<in> set (eb_inspections db). \<not> ix_gps_verified i))
     \<and> (mode = Enf_Strict \<longrightarrow> (\<forall>i \<in> set (eb_inspections db). ix_gps_verified i = (ix_checkin_time i \<noteq> None)))"

text \<open>Check-in and check-out touch one inspection and no seal.\<close>

lemma in_save_inspection:
  "x \<in> set (save_inspection i rows) \<Longrightarrow> x = i \<or> x \<in> set rows"
  by (auto simp: save_inspection_def update_where_def split: if_splits)

lemma checkin_effect:
  assumes "checkin parse mode default_m now st i usr la lo dt acc db = Inr (i', db')"
  obtains lat lon a where "validate_coords la lo acc ''start'' = Inr (lat, lon, a)"
    and "i' = checked_in now usr lat lon a
           (if mode = Enf_Off then None else Some (evaluate_geofence default_m st lat lon (accuracy_arg a))) i"
    and "mode = Enf_Strict \<Longrightarrow> ix_gps_verified i'"
    and "db' = db\<lparr>eb_inspections := save_inspection i' (eb_inspections db),
             eb_audit := eb_audit db @ [audit_entry usr ''inspection.execution.checkin'' (ix_id i) Sev_High]\<rparr>"
proof -
  from assms obtain lat lon a where v: "validate_coords la lo acc ''start'' = Inr (lat, lon, a)"
    unfolding checkin_def bind_r_Inr_iff by force
  from assms obtain rec where rec: "parse_device_time parse dt = Inr rec"
    by (cases "parse_device_time parse dt") (simp_all add: checkin_def v)
  let ?r = "if mode = Enf_Off then None else Some (evaluate_geofence default_m st lat lon (accuracy_arg a))"
  have "i' = checked_in now usr lat lon a ?r i \<and> (mode = Enf_Strict \<longrightarrow> gr_verified (the ?r))
    \<and> db' = db\<lparr>eb_inspections := save_inspection i' (eb_inspections db),
             eb_audit := eb_audit db @ [audit_entry usr ''inspection.execution.checkin'' (ix_id i) Sev_High]\<rparr>"
  proof (cases "mode = Enf_Off")
    case True
    then show ?thesis using assms by (auto simp: checkin_def v rec Let_def)
  next
    case False
    have "mode = Enf_Strict \<longrightarrow> gr_verified (evaluate_geofence default_m st lat lon (accuracy_arg a))"
      using assms False by (simp add: checkin_def v rec Let_def)
    then show ?thesis using assms False by (auto simp: checkin_def v rec Let_def)
  qed
  moreover have "ix_gps_verified (checked_in now usr lat lon a (Some g) i) = gr_verified g" for g
    by (simp add: checked_in_def Let_def)
  ultimately show ?thesis using that [OF v] by (metis enforcement.distinct(3) option.sel enforcement.distinct)
qed

lemma checkout_effect:
  assumes "checkout parse now i usr la lo dt acc db = Inr (i', db')"
  obtains f where "i' = f i" "\<And>r. ix_gps_verified (f r) = ix_gps_verified r"
    "\<And>r. ix_checkin_time (f r) = ix_checkin_time r" "\<And>r. ix_status (f r) = ix_status r"
    "\<And>r. ix_id (f r) = ix_id r"
    "ix_checkin_time i \<noteq> None" "ix_checkout_time i = None" "\<And>r. ix_checkout_time (f r) = Some now"
    "eb_inspections db' = update_where (\<lambda>r. ix_id r = ix_id i) f (eb_inspections db)"
    "eb_submissions db' = eb_submissions db" "eb_signoffs db' = eb_signoffs db"
proof -
  from assms have c: "ix_checkin_time i \<noteq> None" by (simp add: checkout_def)
  from assms c have o: "ix_checkout_time i = None"
    by (cases "ix_checkout_time i") (simp_all add: checkout_def)
  from assms c o obtain rec where rec: "parse_device_time parse dt = Inr rec"
    by (cases "parse_device_time parse dt") (simp_all add: checkout_def)
  define pos where "pos = (if la \<noteq> Absent \<or> lo \<noteq> Absent
    then bind_r (validate_coords la lo acc ''check-out'') (\<lambda>(lat, lon, _). Inr (Some lat, Some lon))
    else Inr (None, None))"
  have run: "checkout parse now i usr la lo dt acc db = bind_r pos (\<lambda>(lat, lon).
     let f = (\<lambda>r. r\<lparr>ix_checkout_time := Some now, ix_checkout_lat := lat, ix_checkout_lon := lon,
                    ix_updated_at := now\<rparr>)
     in Inr (f i, db\<lparr>eb_inspections := update_where (\<lambda>r. ix_id r = ix_id i) f (eb_inspections db),
                     eb_audit := eb_audit db @ [audit_entry usr ''inspection.execution.checkout'' (ix_id i) Sev_High]\<rparr>))"
    using c unfolding checkout_def o rec pos_def by simp
  show ?thesis
  proof (cases pos)
    case (Inl e)
    with assms run show ?thesis by simp
  next
    case (Inr p)
    obtain lat lon where p: "p = (lat, lon)" by (cases p)
    show ?thesis
      by (rule that [of "\<lambda>r. r\<lparr>ix_checkout_time := Some now, ix_checkout_lat := lat, ix_checkout_lon := lon,
        ix_updated_at := now\<rparr>"]) (use assms run Inr p c o in \<open>auto simp: Let_def\<close>)
  qed
qed

lemma sign_off_effect:
  assumes "sign_off H now sub usr signature db = Inr (so, db')"
  obtains u where "usr = Some u" "\<not> list_ex (\<lambda>s. so_submission s = sb_id sub) (eb_signoffs db)"
    "so_submission so = sb_id sub" "so_signed_by so = Some (ac_id u)" "so_signed_by_name so = display_name u"
    "so_text so = py_str (json_or signature (JStr []))" "so_signed_at so = now"
    "so_hash so = H (canonical_json (signoff_content (sb_hash sub) (sb_inspection sub) (show_nat (ac_id u))
        (display_name u) signature now))"
    "eb_signoffs db' = eb_signoffs db @ [so]" "eb_submissions db' = eb_submissions db"
    "eb_inspections db' = eb_inspections db"
  using assms that by (auto simp: sign_off_def bind_r_Inr_iff Let_def split: option.splits)

lemma visited_save:
  assumes "submission_visited rows s" "ix_checkin_time i \<noteq> None"
  shows "submission_visited (save_inspection i rows) s"
proof -
  from assms(1) obtain r where r: "r \<in> set rows" "ix_id r = sb_inspection s" "ix_checkin_time r \<noteq> None"
    by (auto simp: submission_visited_def)
  then have "(if ix_id r = ix_id i then i else r) \<in> set (save_inspection i rows)"
    by (force simp: save_inspection_def update_where_def)
  with r assms(2) show ?thesis unfolding submission_visited_def by (metis (full_types))
qed

lemma visited_update:
  assumes "submission_visited rows s" "\<And>r. ix_checkin_time (f r) = ix_checkin_time r" "\<And>r. ix_id (f r) = ix_id r"
  shows "submission_visited (update_where P f rows) s"
proof -
  from assms(1) obtain r where r: "r \<in> set rows" "ix_id r = sb_inspection s" "ix_checkin_time r \<noteq> None"
    by (auto simp: submission_visited_def)
  then have "(if P r then f r else r) \<in> set (update_where P f rows)" by (simp add: update_where_def)
  with r assms(2,3) show ?thesis unfolding submission_visited_def by (metis (full_types))
qed

lemma checked_in_flags:
  "ix_checkin_time (checked_in now usr lat lon a r i) = Some now"
  "ix_gps_verified (checked_in now usr lat lon a r i) = (case r of None \<Rightarrow> False | Some g \<Rightarrow> gr_verified g)"
  "ix_id (checked_in now usr lat lon a r i) = ix_id i"
  by (simp_all add: checked_in_def Let_def)

text \<open>The flags of a row and its check-in time agree with the policy.\<close>

definition flags_ok :: "enforcement \<Rightarrow> inspection \<Rightarrow> bool" where
  "flags_ok mode i \<longleftrightarrow> (ix_checkin_time i = None \<longrightarrow> \<not> ix_gps_verified i)
     \<and> (mode = Enf_Off \<longrightarrow> \<not> ix_gps_verified i)
     \<and> (mode = Enf_Strict \<longrightarrow> ix_gps_verified i = (ix_checkin_time i \<noteq> None))"

lemma exec_inv_alt:
  "exec_inv H fr mode db \<longleftrightarrow>
     distinct (map sb_inspection (eb_submissions db)) \<and> distinct (map so_submission (eb_signoffs db))
     \<and> (\<forall>s \<in> set (eb_submissions db). submission_sealed H fr s \<and> submission_visited (eb_inspections db) s)
     \<and> (\<forall>so \<in> set (eb_signoffs db). signoff_sealed H (eb_submissions db) so)
     \<and> (\<forall>i \<in> set (eb_inspections db). flags_ok mode i)"
  unfolding exec_inv_def flags_ok_def by blast

lemma exec_inv_fresh: "fresh_execution db \<Longrightarrow> exec_inv H fr mode db"
  by (auto simp: exec_inv_alt flags_ok_def fresh_execution_def list_all_iff)

lemma exec_inv_checkin:
  assumes inv: "exec_inv H fr mode db"
    and run: "checkin parse mode default_m now st i usr la lo dt acc db = Inr (i', db')"
  shows "exec_inv H fr mode db'"
  using run
proof (rule checkin_effect)
  fix lat lon a
  let ?r = "if mode = Enf_Off then None else Some (evaluate_geofence default_m st lat lon (accuracy_arg a))"
  assume i': "i' = checked_in now usr lat lon a ?r i" and strict: "mode = Enf_Strict \<Longrightarrow> ix_gps_verified i'"
    and db': "db' = db\<lparr>eb_inspections := save_inspection i' (eb_inspections db),
             eb_audit := eb_audit db @ [audit_entry usr ''inspection.execution.checkin'' (ix_id i) Sev_High]\<rparr>"
  have t: "ix_checkin_time i' = Some now" by (simp add: i' checked_in_flags)
  have "flags_ok mode i'"
    unfolding flags_ok_def using strict t by (simp add: i' checked_in_flags)
  then have "flags_ok mode x" if "x \<in> set (eb_inspections db')" for x
    using in_save_inspection [of x i' "eb_inspections db"] that inv unfolding exec_inv_alt db' by auto
  then show ?thesis
    using inv t visited_save [where i = i'] unfolding exec_inv_alt db' by auto
qed

lemma exec_inv_checkout:
  assumes inv: "exec_inv H fr mode db"
    and run: "checkout parse now i usr la lo dt acc db = Inr (i', db')"
  shows "exec_inv H fr mode db'"
  using run
proof (rule checkout_effect)
  fix f
  assume f: "\<And>r. ix_gps_verified (f r) = ix_gps_verified r" "\<And>r. ix_checkin_time (f r) = ix_checkin_time r"
    "\<And>r. ix_id (f r) = ix_id r"
    and db': "eb_inspections db' = update_where (\<lambda>r. ix_id r = ix_id i) f (eb_inspections db)"
      "eb_submissions db' = eb_submissions db" "eb_signoffs db' = eb_signoffs db"
  have "flags_ok mode (f r) = flags_ok mode r" for r by (simp add: flags_ok_def f)
  then show ?thesis
    using inv visited_update [where f = f, OF _ f(2,3)]
    unfolding exec_inv_alt db' by (auto simp: update_where_def)
qed

lemma exec_inv_submit:
  assumes inv: "exec_inv H fr mode db" and i: "i \<in> set (eb_inspections db)"
    and run: "submit H fr parse mode now pk i usr ck ev la lo dt info db = Inr (sub, db')"
  shows "exec_inv H fr mode db'"
proof -
  note s = submit_stored [OF run]
  let ?i = "i\<lparr>ix_checklist := sb_checklist sub, ix_lat := Some (sb_lat sub), ix_lon := Some (sb_lon sub),
              ix_completed := Some now, ix_status := Completed, ix_updated_at := now\<rparr>"
  have sealed: "submission_sealed H fr sub" using s(4) unfolding submission_sealed_def by blast
  have flags: "flags_ok mode ?i"
    using inv i by (auto simp: exec_inv_alt flags_ok_def)
  have "ix_id ?i = sb_inspection sub \<and> ?i \<in> set (eb_inspections db')"
    using i unfolding s(9) s(5) save_inspection_def update_where_def by (force simp: image_iff)
  moreover have "ix_checkin_time ?i \<noteq> None" using s(2) by simp
  ultimately have here: "submission_visited (eb_inspections db') sub"
    unfolding submission_visited_def by blast
  have old: "submission_visited (eb_inspections db') x" if "x \<in> set (eb_submissions db)" for x
    unfolding s(9) by (rule visited_save) (use inv that s(2) in \<open>auto simp: exec_inv_alt\<close>)
  have so: "eb_signoffs db' = eb_signoffs db"
    using run by (auto simp: submit_def bind_r_Inr_iff Let_def)
  have fresh: "sb_inspection sub \<notin> sb_inspection ` set (eb_submissions db)"
    using s(5,7) by (auto simp: list_ex_iff)
  have "signoff_sealed H (eb_submissions db @ [sub]) x" if "x \<in> set (eb_signoffs db)" for x
    using inv that unfolding exec_inv_alt signoff_sealed_def by (metis Un_iff set_append)
  moreover have "flags_ok mode x" if "x \<in> set (eb_inspections db')" for x
    using in_save_inspection [of x ?i "eb_inspections db"] that flags inv unfolding s(9) exec_inv_alt by blast
  ultimately show ?thesis
    using inv sealed here old fresh unfolding exec_inv_alt s(8) so by auto
qed

lemma exec_inv_sign_off:
  assumes inv: "exec_inv H fr mode db" and sub: "sub \<in> set (eb_submissions db)"
    and run: "sign_off H now sub usr signature db = Inr (so, db')"
  shows "exec_inv H fr mode db'"
  using run
proof (rule sign_off_effect)
  fix u
  assume so: "\<not> list_ex (\<lambda>s. so_submission s = sb_id sub) (eb_signoffs db)" "so_submission so = sb_id sub"
    "so_signed_by so = Some (ac_id u)" "so_signed_by_name so = display_name u"
    "so_text so = py_str (json_or signature (JStr []))" "so_signed_at so = now"
    "so_hash so = H (canonical_json (signoff_content (sb_hash sub) (sb_inspection sub) (show_nat (ac_id u))
        (display_name u) signature now))"
    and db': "eb_signoffs db' = eb_signoffs db @ [so]" "eb_submissions db' = eb_submissions db"
      "eb_inspections db' = eb_inspections db"
  have "signoff_sealed H (eb_submissions db) so"
    unfolding signoff_sealed_def so using sub by blast
  then show ?thesis
    using inv so(1,2) unfolding exec_inv_alt db' by (auto simp: list_ex_iff)
qed

lemma exec_inv_reach:
  assumes "exec_reach H fr parse mode default_m site_of db0 db" "exec_inv H fr mode db0"
  shows "exec_inv H fr mode db"
  using assms
proof (induction rule: exec_reach.induct)
  case (reach_step db' db'')
  then have "exec_inv H fr mode db'" by blast
  with reach_step(2) show ?case
    by (cases rule: exec_step.cases)
      (blast intro: exec_inv_checkin exec_inv_checkout exec_inv_submit exec_inv_sign_off)+
qed

lemma signoff_content_norm:
  "json_norm (signoff_content h a u n sig t) = json_norm (signoff_content h' a' u' n' sig' t')
   \<longleftrightarrow> h = h' \<and> a = a' \<and> u = u' \<and> n = n' \<and> json_norm sig = json_norm sig' \<and> iso_instant t = iso_instant t'"
  unfolding signoff_content_def by (subst json_norm_fields) auto

lemma wf_signoff_content: "wf_json sig \<Longrightarrow> wf_json (signoff_content h a u n sig t)"
  by (simp add: signoff_content_def)

lemma json_norm_JStr_iff: "json_norm j = JStr s \<longleftrightarrow> j = JStr s"
  by (cases j) (simp_all add: json_norm_JObj)

text \<open>No collision on two texts: their digests agree when they do.\<close>

lemma inj_on_two: "inj_on H (f ` {a, b}) \<Longrightarrow> H (f a) = H (f b) \<longleftrightarrow> f a = f b"
  by (auto simp del: image_insert dest: inj_onD)

section \<open>Properties\<close>

text \<open>A small example: a site, an inspector and a request.\<close>

definition demo_site :: site where
  "demo_site = \<lparr>st_latitude = Some 6, st_longitude = Some 3, st_radius_m = None\<rparr>"

definition demo_inspector :: acc_user where
  "demo_inspector = \<lparr>ac_id = 7, ac_first = ''Ada'', ac_last = ''Obi'', ac_email = ''ada@x'', ac_active = True,
     ac_superuser = False, ac_profile = None\<rparr>"

definition demo_inspection :: inspection where
  "demo_inspection = \<lparr>ix_id = 1, ix_project = 2, ix_type = ''Safety Audit'', ix_status = Requested,
     ix_inspector = None, ix_inspector_name = ''Unassigned'', ix_checkin_time = None, ix_lat = None, ix_lon = None,
     ix_gps_verified = False, ix_accuracy = None, ix_geo_state = None, ix_geo_reason = None,
     ix_geo_distance = None, ix_checkout_time = None, ix_checkout_lat = None, ix_checkout_lon = None,
     ix_checklist = JArr [], ix_completed = None, ix_updated_at = 0\<rparr>"

definition demo_exec_db :: exec_db where
  "demo_exec_db = \<lparr>eb_inspections = [demo_inspection], eb_submissions = [], eb_signoffs = [], eb_audit = []\<rparr>"

definition no_times :: iso_parser where
  "no_times s = None"

text \<open>Every text is read as the epoch, written in UTC+1 or in UTC.\<close>

definition local_times :: "int \<Rightarrow> iso_parser" where
  "local_times off s = Some (0, Some off)"

definition demo_checked_in :: inspection where
  "demo_checked_in = checked_in 5 (Some demo_inspector) 6 3 (Some (Fin 5))
     (Some (evaluate_geofence 50 demo_site 6 3 (Number (Fin 5)))) demo_inspection"

lemma demo_checkin:
  "checkin no_times Enf_Strict 50 5 demo_site demo_inspection (Some demo_inspector)
     (Number (Fin 6)) (Number (Fin 3)) JNull (Number (Fin 5)) demo_exec_db
   = Inr (demo_checked_in, demo_exec_db\<lparr>eb_inspections := [demo_checked_in],
       eb_audit := [audit_entry (Some demo_inspector) ''inspection.execution.checkin'' 1 Sev_High]\<rparr>)"
proof -
  have v: "gr_verified (evaluate_geofence 50 demo_site 6 3 (Number (Fin 5)))"
    unfolding verified_iff_certified certified_def
    by (simp add: demo_site_def effective_geofence_radius_def)
  have c: "validate_coords (Number (Fin 6)) (Number (Fin 3)) (Number (Fin 5)) m = Inr (6, 3, Some (Fin 5))" for m
    by (simp add: validate_coords_def flt_def)
  have id: "ix_id demo_checked_in = 1" "ix_id demo_inspection = 1"
    by (simp_all add: demo_checked_in_def checked_in_flags demo_inspection_def)
  show ?thesis
    using v unfolding checkin_def c
    by (simp add: parse_device_time_def accuracy_arg_def Let_def demo_checked_in_def [symmetric] id
        demo_exec_db_def save_inspection_def)
qed

text \<open>
  C13. What a check-in attests. A successful check-in had finite coordinates in range, and
  \<^verbatim>\<open>gps_verified\<close> is set exactly when a policy is in force, the project records its site, the device
  reported a finite accuracy within the radius, and the great-circle distance to the site is
  within the radius. Under the strict policy no other check-in succeeds. Only a requested or
  scheduled inspection moves to in progress, and an inspector already named stays.
\<close>

theorem checkin_verdict:
  assumes "checkin parse mode default_m now st i usr la lo dt acc db = Inr (i', db')"
  shows "\<exists>lat lon. la = Number (Fin lat) \<and> lo = Number (Fin lon)
    \<and> -90 \<le> lat \<and> lat \<le> 90 \<and> -180 \<le> lon \<and> lon \<le> 180
    \<and> ix_gps_verified i' = (mode \<noteq> Enf_Off \<and> certified default_m st lat lon acc)
    \<and> (mode \<noteq> Enf_Strict \<or> certified default_m st lat lon acc)
    \<and> ix_status i' = (if ix_status i = Requested \<or> ix_status i = Scheduled then In_Progress else ix_status i)
    \<and> ix_inspector i' = (case ix_inspector i of None \<Rightarrow> map_option ac_id usr | Some k \<Rightarrow> Some k)"
  using assms
proof (rule checkin_effect)
  fix lat lon a
  assume v: "validate_coords la lo acc ''start'' = Inr (lat, lon, a)"
    and i': "i' = checked_in now usr lat lon a
           (if mode = Enf_Off then None else Some (evaluate_geofence default_m st lat lon (accuracy_arg a))) i"
    and strict: "mode = Enf_Strict \<Longrightarrow> ix_gps_verified i'"
  note in_range = validate_coords_Inr [OF v]
  have "certified default_m st lat lon (accuracy_arg a) = certified default_m st lat lon acc"
    using in_range(7) by (auto simp: certified_def)
  then have verdict: "ix_gps_verified i' = (mode \<noteq> Enf_Off \<and> certified default_m st lat lon acc)"
    by (simp add: i' checked_in_flags verified_iff_certified)
  have "ix_status i' = (if ix_status i = Requested \<or> ix_status i = Scheduled then In_Progress else ix_status i)"
    "ix_inspector i' = (case ix_inspector i of None \<Rightarrow> map_option ac_id usr | Some k \<Rightarrow> Some k)"
    by (simp_all add: i' checked_in_def Let_def split: option.splits)
  with in_range(1-6) verdict strict show ?thesis by auto
qed

theorem checkin_verdict_witness:
  "ix_gps_verified demo_checked_in \<and> ix_status demo_checked_in = In_Progress \<and> ix_inspector demo_checked_in = Some 7"
  using checkin_verdict [OF demo_checkin]
  by (simp add: demo_inspection_def demo_inspector_def)

text \<open>A submission of the example inspection, with the device time in UTC plus \<open>off\<close> minutes.\<close>

definition demo_checklist :: json where
  "demo_checklist = JArr [JObj [(''item_id'', JStr ''a1''), (''title'', JStr []), (''result'', JBool True),
     (''notes'', JStr []), (''evidence_hashes'', JArr [])]]"

definition demo_submission :: "int \<Rightarrow> submission" where
  "demo_submission off = \<lparr>sb_id = 9, sb_inspection = 1, sb_checklist = demo_checklist, sb_evidence = JArr [],
     sb_lat = 6, sb_lon = 3, sb_recorded_at = Some (0 - off * 60000000), sb_submitted_by = Some 7, sb_submitted_at = 8,
     sb_hash = canonical_json (submission_content (\<lambda>_. ''6.0'') 1 demo_checklist (JArr []) 6 3
        (device_time_json (Some (0 - off * 60000000, off))) 8 (Some 7)),
     sb_device_info = []\<rparr>"

definition demo_visited :: inspection where
  "demo_visited = demo_inspection\<lparr>ix_checkin_time := Some 5, ix_status := Cancelled\<rparr>"

lemma demo_submit:
  "submit (\<lambda>s. s) (\<lambda>_. ''6.0'') (local_times off) Enf_Warn 8 9 demo_visited (Some demo_inspector)
     (JArr [JObj [(''item_id'', JStr ''a1''), (''result'', JBool True)]]) (JArr [])
     (Number (Fin 6)) (Number (Fin 3)) (JStr ''t'') JNull (demo_exec_db\<lparr>eb_inspections := [demo_visited]\<rparr>)
   = Inr (demo_submission off, demo_exec_db\<lparr>eb_inspections := [demo_visited\<lparr>ix_checklist := demo_checklist,
        ix_lat := Some 6, ix_lon := Some 3, ix_completed := Some 8, ix_status := Completed, ix_updated_at := 8\<rparr>],
      eb_submissions := [demo_submission off],
      eb_audit := [audit_entry (Some demo_inspector) ''inspection.execution.submit'' 1 Sev_High]\<rparr>)"
proof -
  have v: "validate_coords (Number (Fin 6)) (Number (Fin 3)) Absent m = Inr (6, 3, None)" for m
    by (simp add: validate_coords_def)
  have p: "parse_device_time (local_times off) (JStr ''t'') = Inr (Some (0 - off * 60000000, off))"
    by (simp add: parse_device_time_def local_times_def)
  have n: "normalise_item (JObj [(''item_id'', JStr ''a1''), (''result'', JBool True)])
      = Inr (JObj [(''item_id'', JStr ''a1''), (''title'', JStr []), (''result'', JBool True),
     (''notes'', JStr []), (''evidence_hashes'', JArr [])])"
    by (simp add: normalise_item_def dict_get_def json_or_def)
  show ?thesis
    unfolding submit_def v p
    by (simp add: list_items_def n json_or_def Let_def demo_submission_def demo_checklist_def demo_exec_db_def
        demo_visited_def demo_inspection_def demo_inspector_def save_inspection_def)
qed

lemma demo_checklist_wf: "wf_json demo_checklist"
  by (simp add: demo_checklist_def)

text \<open>
  When a fresh submission verifies. The digest is taken over the device time in the
  offset the device wrote it in; the row keeps the instant, which comes back in UTC. So
  recomputing the digest of an untouched submission succeeds exactly when the device sent no
  time or sent it in UTC: every submission from a device in another offset is reported as
  tampered with.
\<close>

theorem submission_verifies_iff:
  assumes "submit H fr parse mode now pk i usr ck ev la lo dt info db = Inr (sub, db')"
    and "parse_device_time parse dt = Inr recorded"
    and "\<And>t off. recorded = Some (t, off) \<Longrightarrow> -1440 < off \<and> off < 1440"
    and "wf_json (sb_checklist sub)" "wf_json (sb_evidence sub)"
    and "float_repr (fr (sb_lat sub))" "float_repr (fr (sb_lon sub))"
    and "inj_on H ((\<lambda>time. canonical_json (submission_content fr (sb_inspection sub) (sb_checklist sub)
           (sb_evidence sub) (sb_lat sub) (sb_lon sub) time (sb_submitted_at sub) (sb_submitted_by sub)))
         ` {device_time_json recorded, iso_or_null (sb_recorded_at sub)})"
  shows "verify_submission H fr sub = (case recorded of None \<Rightarrow> True | Some (t, off) \<Rightarrow> off = 0)"
proof -
  let ?doc = "\<lambda>time. submission_content fr (sb_inspection sub) (sb_checklist sub) (sb_evidence sub)
    (sb_lat sub) (sb_lon sub) time (sb_submitted_at sub) (sb_submitted_by sub)"
  have at: "sb_recorded_at sub = map_option fst recorded"
    and hash: "sb_hash sub = H (canonical_json (?doc (device_time_json recorded)))"
    using submit_stored(4) [OF assms(1)] assms(2) by auto
  have "verify_submission H fr sub \<longleftrightarrow>
      canonical_json (?doc (iso_or_null (sb_recorded_at sub))) = canonical_json (?doc (device_time_json recorded))"
    unfolding verify_submission_def hash using inj_on_two [OF assms(8)] by (auto simp: eq_commute)
  also have "\<dots> \<longleftrightarrow> json_norm (device_time_json recorded) = json_norm (iso_or_null (map_option fst recorded))"
    using assms(4-7) by (auto simp: canonical_json_eq_iff wf_submission_content submission_content_norm at)
  also have "\<dots> \<longleftrightarrow> (case recorded of None \<Rightarrow> True | Some a \<Rightarrow> snd a = 0)"
    by (rule device_time_json_eq) (use assms(3) in force)
  finally show ?thesis by (simp add: split_beta split: option.splits)
qed

theorem submission_verifies_iff_witness:
  "verify_submission (\<lambda>s. s) (\<lambda>_. ''6.0'') (demo_submission 0)
   \<and> \<not> verify_submission (\<lambda>s. s) (\<lambda>_. ''6.0'') (demo_submission 60)"
proof -
  have "float_repr ''6.0''" by code_simp
  then have "verify_submission (\<lambda>s. s) (\<lambda>_. ''6.0'') (demo_submission off) = (off = 0)"
    if "-1440 < off" "off < 1440" for off
    using that submission_verifies_iff [OF demo_submit, where recorded = "Some (0 - off * 60000000, off)"]
    by (simp add: parse_device_time_def local_times_def demo_submission_def demo_checklist_wf)
  from this [of 0] this [of 60] show ?thesis by simp
qed

text \<open>
  Tampering with a stored submission shows. If a submission verifies, a row that keeps
  its digest and verifies too has the same inspection, checklist, evidence, position, device
  time, submission time and author, unless the digest collides on the two documents.
\<close>

theorem submission_tamper_evident:
  assumes "verify_submission H fr sub" "verify_submission H fr sub'" "sb_hash sub' = sb_hash sub"
    and "wf_json (sb_checklist sub)" "wf_json (sb_evidence sub)" "wf_json (sb_checklist sub')" "wf_json (sb_evidence sub')"
    and "\<And>x. float_repr (fr x)"
    and "inj_on H ((\<lambda>s. canonical_json (submission_content fr (sb_inspection s) (sb_checklist s)
           (sb_evidence s) (sb_lat s) (sb_lon s) (iso_or_null (sb_recorded_at s)) (sb_submitted_at s)
           (sb_submitted_by s))) ` {sub, sub'})"
  shows "sb_inspection sub' = sb_inspection sub \<and> json_norm (sb_checklist sub') = json_norm (sb_checklist sub)
    \<and> json_norm (sb_evidence sub') = json_norm (sb_evidence sub)
    \<and> fr (sb_lat sub') = fr (sb_lat sub) \<and> fr (sb_lon sub') = fr (sb_lon sub)
    \<and> iso_or_null (sb_recorded_at sub') = iso_or_null (sb_recorded_at sub)
    \<and> iso_instant (sb_submitted_at sub') = iso_instant (sb_submitted_at sub)
    \<and> sb_submitted_by sub' = sb_submitted_by sub"
proof -
  let ?doc = "\<lambda>s. submission_content fr (sb_inspection s) (sb_checklist s) (sb_evidence s) (sb_lat s) (sb_lon s)
    (iso_or_null (sb_recorded_at s)) (sb_submitted_at s) (sb_submitted_by s)"
  have "H (canonical_json (?doc sub')) = H (canonical_json (?doc sub))"
    using assms(1-3) unfolding verify_submission_def by simp
  then have "canonical_json (?doc sub') = canonical_json (?doc sub)"
    using inj_on_two [OF assms(9)] by (simp add: eq_commute)
  then have "json_norm (?doc sub') = json_norm (?doc sub)"
    using assms(4-8) by (simp add: canonical_json_eq_iff wf_submission_content)
  moreover have "json_norm (iso_or_null t) = iso_or_null t" for t
    by (simp add: iso_or_null_def split: option.splits)
  ultimately show ?thesis unfolding submission_content_norm by simp
qed

theorem submission_tamper_evident_witness:
  "json_norm (sb_checklist (demo_submission 0\<lparr>sb_device_info := ''x''\<rparr>)) = json_norm demo_checklist"
proof -
  have f: "float_repr ''6.0''" by code_simp
  have v: "verify_submission (\<lambda>s. s) (\<lambda>_. ''6.0'') (demo_submission 0)"
    by (simp add: verify_submission_def demo_submission_def device_time_json_def iso_or_null_def)
  then have "verify_submission (\<lambda>s. s) (\<lambda>_. ''6.0'') (demo_submission 0\<lparr>sb_device_info := ''x''\<rparr>)"
    by (simp add: verify_submission_def)
  from submission_tamper_evident [OF v this] show ?thesis
    by (simp add: f demo_submission_def demo_checklist_wf)
qed

text \<open>
  When a fresh sign-off verifies. The digest covers the signature as the request sent
  it, the row keeps \<^verbatim>\<open>str(signature or '')\<close>: the sign-off verifies exactly when the request
  sent a string. One that sent a number, a list or an explicit null is reported as forged
  from the start.
\<close>

theorem signoff_verifies_iff:
  assumes "sign_off H now sub usr signature db = Inr (so, db')" "wf_json signature"
    and "inj_on H ((\<lambda>s. canonical_json (signoff_content (sb_hash sub) (sb_inspection sub)
           (case so_signed_by so of None \<Rightarrow> ''None'' | Some k \<Rightarrow> show_nat k) (so_signed_by_name so) s
           (so_signed_at so))) ` {signature, JStr (so_text so)})"
  shows "verify_signoff H sub so = (\<exists>s. signature = JStr s)"
  using assms(1)
proof (rule sign_off_effect)
  fix u
  assume so: "so_signed_by so = Some (ac_id u)" "so_signed_by_name so = display_name u"
    "so_text so = py_str (json_or signature (JStr []))" "so_signed_at so = now"
    "so_hash so = H (canonical_json (signoff_content (sb_hash sub) (sb_inspection sub) (show_nat (ac_id u))
        (display_name u) signature now))"
  have "verify_signoff H sub so \<longleftrightarrow> json_norm signature = JStr (so_text so)"
    using inj_on_two [OF assms(3)] assms(2) unfolding verify_signoff_def so(1,2,4,5)
    by (auto simp: canonical_json_eq_iff wf_signoff_content signoff_content_norm so(1,2,4))
  also have "\<dots> \<longleftrightarrow> (\<exists>s. signature = JStr s)"
    by (auto simp: json_norm_JStr_iff so(3) json_or_def)
  finally show ?thesis .
qed

definition demo_signoff :: "json \<Rightarrow> signoff" where
  "demo_signoff signature = \<lparr>so_submission = 9, so_signed_by = Some 7, so_signed_by_name = ''Ada Obi'',
     so_text = py_str (json_or signature (JStr [])), so_signed_at = 11,
     so_hash = canonical_json (signoff_content (sb_hash (demo_submission 0)) 1 (show_nat 7) ''Ada Obi'' signature 11)\<rparr>"

lemma demo_sign_off:
  "sign_off (\<lambda>s. s) 11 (demo_submission 0) (Some demo_inspector) signature demo_exec_db
   = Inr (demo_signoff signature, demo_exec_db\<lparr>eb_signoffs := [demo_signoff signature],
       eb_audit := [audit_entry (Some demo_inspector) ''inspection.execution.signoff'' 1 Sev_Critical]\<rparr>)"
proof -
  have n: "display_name demo_inspector = ''Ada Obi''" by code_simp
  show ?thesis
    by (simp add: sign_off_def demo_exec_db_def Let_def demo_signoff_def n)
      (simp add: demo_submission_def demo_inspector_def)
qed

theorem signoff_verifies_iff_witness:
  "verify_signoff (\<lambda>s. s) (demo_submission 0) (demo_signoff (JStr ''AO''))
   \<and> \<not> verify_signoff (\<lambda>s. s) (demo_submission 0) (demo_signoff JNull)"
  using signoff_verifies_iff [OF demo_sign_off, of "JStr ''AO''"] signoff_verifies_iff [OF demo_sign_off, of JNull]
  by simp

text \<open>
  What a submission requires and does. It needs a non-empty checklist (so the message's
  free-form inspection with evidence only is refused), a check-in, under the strict policy a
  verified one, and no earlier submission of the inspection; afterwards no request submits that
  inspection again. It completes the inspection whatever its status was, a cancelled or
  failed one included, and leaves \<^verbatim>\<open>gps_verified\<close> as the check-in set it.
\<close>

theorem submission_once_whatever_status:
  assumes "submit H fr parse mode now pk i usr ck ev la lo dt info db = Inr (sub, db')"
    and "i \<in> set (eb_inspections db)"
  shows "json_truthy ck \<and> ix_checkin_time i \<noteq> None \<and> (mode \<noteq> Enf_Strict \<or> ix_gps_verified i)
    \<and> list_all (\<lambda>s. sb_inspection s \<noteq> ix_id i) (eb_submissions db)
    \<and> list_ex (\<lambda>r. ix_id r = ix_id i \<and> ix_status r = Completed \<and> ix_gps_verified r = ix_gps_verified i
         \<and> ix_completed r = Some now) (eb_inspections db')
    \<and> (ix_id j = ix_id i \<longrightarrow>
         submit H fr parse mode' now' pk' j usr' ck' ev' la' lo' dt' info' db' \<noteq> Inr (sub', db''))"
proof -
  note s = submit_stored [OF assms(1)]
  let ?i = "i\<lparr>ix_checklist := sb_checklist sub, ix_lat := Some (sb_lat sub), ix_lon := Some (sb_lon sub),
              ix_completed := Some now, ix_status := Completed, ix_updated_at := now\<rparr>"
  have row: "?i \<in> set (eb_inspections db')"
    using assms(2) unfolding s(9) save_inspection_def update_where_def by (force simp: image_iff)
  have "list_ex (\<lambda>r. ix_id r = ix_id i \<and> ix_status r = Completed \<and> ix_gps_verified r = ix_gps_verified i
         \<and> ix_completed r = Some now) (eb_inspections db')"
    unfolding list_ex_iff by (rule bexI [OF _ row]) simp
  moreover have "submit H fr parse mode' now' pk' j usr' ck' ev' la' lo' dt' info' db' \<noteq> Inr (sub', db'')"
    if "ix_id j = ix_id i"
    using submit_stored(7) [of H fr parse mode' now' pk' j usr' ck' ev' la' lo' dt' info' db' sub' db''] that s(5,8)
    by auto
  moreover have "list_all (\<lambda>s. sb_inspection s \<noteq> ix_id i) (eb_submissions db)"
    using s(7) by (simp add: list_all_iff list_ex_iff)
  ultimately show ?thesis using s(1-3) by blast
qed

theorem submission_once_whatever_status_witness:
  "ix_status demo_visited = Cancelled
   \<and> list_ex (\<lambda>r. ix_id r = 1 \<and> ix_status r = Completed) [demo_visited\<lparr>ix_checklist := demo_checklist,
        ix_lat := Some 6, ix_lon := Some 3, ix_completed := Some 8, ix_status := Completed, ix_updated_at := 8\<rparr>]"
  using submission_once_whatever_status [OF demo_submit, of 0]
  by (simp add: demo_visited_def demo_inspection_def demo_exec_db_def)

text \<open>
  C12. Seals along every run. Starting from inspections nobody has visited, after any sequence
  of check-ins, submissions, check-outs and sign-offs: no inspection has two submissions and
  no submission two sign-offs, every submission holds the digest of its own content and belongs
  to an inspection that was checked into, every sign-off holds a digest over the digest of the
  submission it signs and its signer, and \<^verbatim>\<open>gps_verified\<close> is never set without a check-in,
  never under the policy off, and always with a check-in under the policy strict.
\<close>

theorem execution_seals:
  assumes "exec_reach H fr parse mode default_m site_of db0 db" "fresh_execution db0"
  shows "exec_inv H fr mode db"
  using assms by (blast intro: exec_inv_reach exec_inv_fresh)

theorem execution_seals_witness:
  "exec_inv (\<lambda>s. s) (\<lambda>_. ''6.0'') Enf_Strict (demo_exec_db\<lparr>eb_inspections := [demo_checked_in],
       eb_audit := [audit_entry (Some demo_inspector) ''inspection.execution.checkin'' 1 Sev_High]\<rparr>)"
proof -
  have "exec_reach (\<lambda>s. s) (\<lambda>_. ''6.0'') no_times Enf_Strict 50 (\<lambda>_. demo_site) demo_exec_db
      (demo_exec_db\<lparr>eb_inspections := [demo_checked_in],
       eb_audit := [audit_entry (Some demo_inspector) ''inspection.execution.checkin'' 1 Sev_High]\<rparr>)"
    by (rule reach_step [OF reach_refl step_checkin [OF _ demo_checkin]]) (simp add: demo_exec_db_def)
  moreover have "fresh_execution demo_exec_db"
    by (simp add: fresh_execution_def demo_exec_db_def demo_inspection_def)
  ultimately show ?thesis by (rule execution_seals)
qed

end
