(* ===== verification/Import_Registry.thy ===== *)
theory Import_Registry
  imports Geofence Py_Json
begin

text \<open>
  What an imported row is and how it becomes the input of a registry serializer:
  \<^verbatim>\<open>apps/data_import/registry.py\<close>. A row is its number in the file and its cells, a
  decoded JSON value per folded column name. Numbers are exact: the rounding of a decimal text
  to a binary float is not modelled, overflow to infinity is. The texts of the messages are not
  modelled; every error names the row, the column and what is wrong with it.
\<close>

lemma sort_key_Nil_iff [simp]: "sort_key f xs = [] \<longleftrightarrow> xs = []"
  by (metis mset_sort mset_zero_iff sort_key_simps(1))

section \<open>Rows and cells\<close>

record source_row =
  sr_number :: nat
  sr_data :: dict

definition cell :: "source_row \<Rightarrow> string \<Rightarrow> json" where
  "cell r k = dict_get (sr_data r) k"

definition blank :: "json \<Rightarrow> bool" where
  "blank v = (case v of JNull \<Rightarrow> True | JStr s \<Rightarrow> py_strip s = [] | _ \<Rightarrow> False)"

definition text_of :: "json \<Rightarrow> string" where
  "text_of v = (case v of JNull \<Rightarrow> [] | _ \<Rightarrow> py_strip (py_str v))"

datatype cell_fault =
    Must_Be_Number
  | Not_A_Yes_No
  | Must_Be_Whole
  | Must_Be_Yes_No
  | Must_Be_Choice
  | Must_Name_A_Test
  | Raises

text \<open>
  \<^verbatim>\<open>float()\<close> of a stripped text: an optional sign, then a word or digits with an optional
  fraction and exponent, single underscores between digits. A magnitude that rounds past the
  largest float is an infinity.
\<close>

definition float_limit :: real where
  "float_limit = 2 ^ 1024 - 2 ^ 970"

definition as_float :: "real \<Rightarrow> fval" where
  "as_float x = (if x \<ge> float_limit then Inf else if x \<le> - float_limit then NegInf else Fin x)"

definition decimal_value :: "int \<Rightarrow> string \<Rightarrow> string \<Rightarrow> int \<Rightarrow> real" where
  "decimal_value sg w f e =
     (let n = of_int sg * of_nat (read_nat (w @ f)); x = e - int (length f)
      in if 0 \<le> x then n * 10 ^ nat x else n / 10 ^ nat (- x))"

definition read_decimal :: "int \<Rightarrow> string \<Rightarrow> fval option" where
  "read_decimal sg body =
     (let mant = takeWhile (\<lambda>c. c \<noteq> CHR ''e'') body;
          has_exp = length mant < length body;
          whole = takeWhile (\<lambda>c. c \<noteq> CHR ''.'') mant;
          (es, ed) = split_sign (drop (Suc (length mant)) body)
      in case (drop_underscores whole, drop_underscores (drop (Suc (length whole)) mant), drop_underscores ed) of
           (Some w, Some f, Some x) \<Rightarrow>
             if w @ f = [] \<or> (has_exp \<and> x = []) then None
             else Some (as_float (decimal_value sg w f (if has_exp then es * int (read_nat x) else 0)))
         | _ \<Rightarrow> None)"

definition read_float :: "string \<Rightarrow> fval option" where
  "read_float s =
     (let (sg, body) = split_sign (py_lower s)
      in if body = ''inf'' \<or> body = ''infinity'' then Some (if sg < 0 then NegInf else Inf)
         else if body = ''nan'' then Some NaN
         else read_decimal sg body)"

definition number_cell :: "json \<Rightarrow> cell_fault + fval option" where
  "number_cell v =
     (if blank v then Inr None
      else case v of
        JBool _ \<Rightarrow> Inl Not_A_Yes_No
      | _ \<Rightarrow> (case read_float (py_strip (py_str v)) of
                Some x \<Rightarrow> Inr (Some x) | None \<Rightarrow> Inl Must_Be_Number))"

text \<open>\<^verbatim>\<open>int()\<close> of an infinity or of not a number raises.\<close>

definition integer_cell :: "json \<Rightarrow> cell_fault + int option" where
  "integer_cell v =
     bind_r (number_cell v) (\<lambda>n. case n of
       None \<Rightarrow> Inr None
     | Some (Fin x) \<Rightarrow> if x = of_int \<lfloor>x\<rfloor> then Inr (Some \<lfloor>x\<rfloor>) else Inl Must_Be_Whole
     | Some _ \<Rightarrow> Inl Raises)"

definition boolean_cell :: "json \<Rightarrow> cell_fault + bool option" where
  "boolean_cell v =
     (let t = py_lower (text_of v)
      in if t = [] then Inr None
         else if t \<in> set [''true'', ''yes'', ''y'', ''1''] then Inr (Some True)
         else if t \<in> set [''false'', ''no'', ''n'', ''0''] then Inr (Some False)
         else Inl Must_Be_Yes_No)"

definition choice_cell :: "json \<Rightarrow> string list \<Rightarrow> cell_fault + string" where
  "choice_cell v valid =
     (let t = text_of v
      in if t = [] then Inr []
         else if t \<in> set valid then Inr t
         else case map_of (rev (map (\<lambda>p. (py_lower p, p)) valid)) (py_lower t) of
                Some p \<Rightarrow> Inr p | None \<Rightarrow> Inl Must_Be_Choice)"

fun is_infix :: "string \<Rightarrow> string \<Rightarrow> bool" where
  "is_infix p [] = (p = [])"
| "is_infix p (c # s) = (take (length p) (c # s) = p \<or> is_infix p s)"

definition test_type_aliases :: "(string \<times> string) list" where
  "test_type_aliases = [(''pulse'', ''pulse_velocity''), (''crack'', ''crack_depth''),
     (''surface'', ''surface_quality''), (''homogeneity'', ''surface_quality'')]"

definition test_type_cell :: "json \<Rightarrow> cell_fault + string" where
  "test_type_cell v =
     (let t = text_of v
      in if t = [] then Inr []
         else case List.find (\<lambda>(needle, _). is_infix needle (py_lower t)) test_type_aliases of
                Some (_, canonical) \<Rightarrow> Inr canonical | None \<Rightarrow> Inl Must_Name_A_Test)"

section \<open>Records\<close>

datatype pval =
    PText string
  | PNum fval
  | PInt int
  | PBool bool
  | PId nat
  | PReadings "(string \<times> pval) list list"

type_synonym payload = "(string \<times> pval) list"

datatype row_error =
    Bad_Cell "nat option" string cell_fault
  | Measurement_Missing nat string
  | One_Row_Only
  | Title_Missing nat
  | Session_Missing nat
  | Session_Unknown nat string
  | Confidence_Range nat
  | Inspection_Unknown nat string
  | Inspection_Missing nat
  | Unhandled

record import_context =
  cx_project :: nat
  cx_inspection :: "nat option"
  cx_sessions :: "(string \<times> nat) list"
  cx_inspections :: "(string \<times> nat) list"

text \<open>A fault that is reported names the row and the column; an exception escapes.\<close>

definition at_cell :: "nat option \<Rightarrow> string \<Rightarrow> cell_fault + 'a \<Rightarrow> row_error + 'a" where
  "at_cell row label r = (case r of
      Inr x \<Rightarrow> Inr x
    | Inl f \<Rightarrow> Inl (if f = Raises then Unhandled else Bad_Cell row label f))"

definition optional :: "string \<Rightarrow> ('a \<Rightarrow> pval) \<Rightarrow> 'a option \<Rightarrow> payload" where
  "optional k f x = (case x of None \<Rightarrow> [] | Some v \<Rightarrow> [(k, f v)])"

definition nonblank :: "string \<Rightarrow> string \<Rightarrow> payload" where
  "nonblank k s = (if s = [] then [] else [(k, PText s)])"

section \<open>UPV: one test from consecutive readings\<close>

definition build_reading :: "string \<Rightarrow> source_row \<Rightarrow> row_error + payload" where
  "build_reading test_type r =
     (let n = sr_number r; point = nonblank ''point_label'' (text_of (cell r ''point'')) in
      bind_r (at_cell (Some n) ''PATH LENGTH L (MM)'' (number_cell (cell r ''path_length_l_mm''))) (\<lambda>path.
      bind_r (at_cell (Some n) ''TRANSIT TIME T (US)'' (number_cell (cell r ''transit_time_t_us''))) (\<lambda>transit.
      bind_r (at_cell (Some n) ''T UNCRACKED (US)'' (number_cell (cell r ''t_uncracked_us''))) (\<lambda>uncracked.
      let surface = text_of (cell r ''surface_condition'') in
      bind_r
        (if test_type = ''pulse_velocity'' then
           (case (path, transit) of
              (None, _) \<Rightarrow> Inl (Measurement_Missing n ''PATH LENGTH L (MM)'')
            | (_, None) \<Rightarrow> Inl (Measurement_Missing n ''TRANSIT TIME T (US)'')
            | (Some p, Some t) \<Rightarrow> Inr [(''path_length_mm'', PNum p), (''transit_time_us'', PNum t)])
         else if test_type = ''crack_depth'' then
           (case (path, transit, uncracked) of
              (None, _, _) \<Rightarrow> Inl (Measurement_Missing n ''PATH LENGTH L (MM)'')
            | (Some p, Some t, Some u) \<Rightarrow>
                Inr [(''path_length_mm'', PNum p), (''transit_time_us'', PNum t), (''uncracked_transit_time_us'', PNum u)]
            | _ \<Rightarrow> Inl (Measurement_Missing n ''TRANSIT TIMES''))
         else if surface = [] then Inl (Measurement_Missing n ''SURFACE CONDITION'')
         else Inr [(''surface_condition'', PText surface)]) (\<lambda>measured.
      bind_r (at_cell (Some n) ''REBOUND NUMBER'' (number_cell (cell r ''rebound_number''))) (\<lambda>rebound.
      Inr (point @ measured @ optional ''rebound_number'' PNum rebound
           @ nonblank ''notes'' (text_of (cell r ''notes'')))))))))"

fun build_readings :: "string \<Rightarrow> source_row list \<Rightarrow> row_error + payload list" where
  "build_readings tt [] = Inr []"
| "build_readings tt (r # rs) =
     bind_r (build_reading tt r) (\<lambda>x. bind_r (build_readings tt rs) (\<lambda>xs. Inr (x # xs)))"

definition build_upv :: "import_context \<Rightarrow> source_row list \<Rightarrow> row_error + payload" where
  "build_upv ctx rows = (case rows of
     [] \<Rightarrow> Inl Unhandled
   | first # _ \<Rightarrow>
      bind_r (at_cell None ''TEST TYPE'' (test_type_cell (cell first ''test_type''))) (\<lambda>test_type.
      bind_r (build_readings test_type rows) (\<lambda>readings.
      bind_r (at_cell (Some (sr_number first)) ''TRANSDUCER TYPE''
                (choice_cell (cell first ''transducer_type'') [''direct'', ''semi_direct'', ''indirect''])) (\<lambda>transducer.
      bind_r (at_cell (Some (sr_number first)) ''TRANSDUCER FREQUENCY (KHZ)''
                (integer_cell (cell first ''transducer_frequency_khz''))) (\<lambda>frequency.
      Inr ([(''project'', PId (cx_project ctx)), (''test_type'', PText test_type),
            (''structural_element'', PText (text_of (cell first ''structural_element''))),
            (''floor'', PText (text_of (cell first ''floor''))),
            (''test_location'', PText (text_of (cell first ''test_location''))),
            (''weather_condition'', PText (text_of (cell first ''weather_condition''))),
            (''readings'', PReadings readings)]
           @ nonblank ''transducer_type'' transducer
           @ optional ''transducer_frequency_khz'' PInt frequency))))))"

text \<open>The key of a test: element, test type as written, floor.\<close>

definition upv_key :: "source_row \<Rightarrow> string \<times> string \<times> string" where
  "upv_key r = (text_of (cell r ''structural_element''), py_lower (text_of (cell r ''test_type'')),
                text_of (cell r ''floor''))"

text \<open>
  \<^verbatim>\<open>group_upv_rows\<close>: the loop over the rows with the groups in order and the keys seen with
  the row of their first block. A key that comes back is refused.
\<close>

type_synonym upv_group = "(string \<times> string \<times> string) \<times> source_row list"

fun group_upv_loop ::
    "upv_group list \<Rightarrow> ((string \<times> string \<times> string) \<times> nat) list \<Rightarrow> source_row list
     \<Rightarrow> (source_row \<times> nat) + upv_group list" where
  "group_upv_loop groups seen [] = Inr groups"
| "group_upv_loop groups seen (r # rs) =
     (if groups \<noteq> [] \<and> fst (last groups) = upv_key r
      then group_upv_loop (butlast groups @ [(upv_key r, snd (last groups) @ [r])]) seen rs
      else case map_of seen (upv_key r) of
             Some n \<Rightarrow> Inl (r, n)
           | None \<Rightarrow> group_upv_loop (groups @ [(upv_key r, [r])]) ((upv_key r, sr_number r) # seen) rs)"

definition group_upv_rows :: "source_row list \<Rightarrow> (source_row \<times> nat) + upv_group list" where
  "group_upv_rows rows = group_upv_loop [] [] rows"

section \<open>GPR: survey headers\<close>

text \<open>A list of optional number columns, each under its own key, in order.\<close>

fun number_columns :: "source_row \<Rightarrow> (string \<times> string) list \<Rightarrow> row_error + payload" where
  "number_columns r [] = Inr []"
| "number_columns r ((key, label) # cols) =
     bind_r (at_cell (Some (sr_number r)) label (number_cell (cell r key))) (\<lambda>v.
     bind_r (number_columns r cols) (\<lambda>rest. Inr (optional key PNum v @ rest)))"

definition build_gpr :: "import_context \<Rightarrow> source_row list \<Rightarrow> row_error + payload" where
  "build_gpr ctx rows = (case rows of
     [] \<Rightarrow> Inl Unhandled
   | r # others \<Rightarrow>
      bind_r (check (others = []) One_Row_Only) (\<lambda>_.
      let title = text_of (cell r ''survey_title'') in
      bind_r (check (title \<noteq> []) (Title_Missing (sr_number r))) (\<lambda>_.
      bind_r (number_columns r [(''antenna_frequency_mhz'', ''ANTENNA FREQUENCY (MHZ)''),
                (''depth_range_m'', ''DEPTH RANGE (M)''), (''grid_spacing_m'', ''GRID SPACING (M)''),
                (''latitude'', ''LATITUDE''), (''longitude'', ''LONGITUDE'')]) (\<lambda>numbers.
      Inr ([(''project'', PId (cx_project ctx)), (''title'', PText title),
            (''survey_area'', PText (text_of (cell r ''survey_area''))),
            (''structural_element'', PText (text_of (cell r ''structural_element''))),
            (''notes'', PText (text_of (cell r ''notes'')))] @ numbers)))))"

section \<open>SLAM: defects located by a scan\<close>

definition defect_types :: "string list" where
  "defect_types = [''crack'', ''spalling'', ''corrosion'', ''thermal_anomaly'', ''deformation'', ''delamination'',
     ''honeycombing'', ''voids'', ''moisture_ingress'', ''reinforcement_exposure'']"

definition defect_severities :: "string list" where
  "defect_severities = [''low'', ''medium'', ''high'', ''critical'']"

definition defect_statuses :: "string list" where
  "defect_statuses = [''OPEN'', ''IN_PROGRESS'', ''RESOLVED'', ''REJECTED'']"

definition confidence_ok :: "fval option \<Rightarrow> bool" where
  "confidence_ok c = (case c of None \<Rightarrow> True | Some x \<Rightarrow> fle (Fin 0) x \<and> fle x (Fin 1))"

definition build_slam :: "import_context \<Rightarrow> source_row list \<Rightarrow> row_error + (payload \<times> nat)" where
  "build_slam ctx rows = (case rows of
     [] \<Rightarrow> Inl Unhandled
   | r # others \<Rightarrow>
      (let n = sr_number r; choice = (\<lambda>key label valid. at_cell (Some n) label (choice_cell (cell r key) valid));
           ref = text_of (cell r ''scan_session'')
       in bind_r (check (others = []) One_Row_Only) (\<lambda>_.
      bind_r (case map_of (cx_sessions ctx) ref of
                Some s \<Rightarrow> Inr s
              | None \<Rightarrow> if ref = [] then Inl (Session_Missing n) else Inl (Session_Unknown n ref)) (\<lambda>session.
      bind_r (choice ''defect_type'' ''DEFECT TYPE'' defect_types) (\<lambda>ty.
      bind_r (choice ''severity'' ''SEVERITY'' defect_severities) (\<lambda>severity.
      bind_r (choice ''status'' ''STATUS'' defect_statuses) (\<lambda>status.
      bind_r (number_columns r [(''location_x'', ''LOCATION X''), (''location_y'', ''LOCATION Y''),
                (''location_z'', ''LOCATION Z'')]) (\<lambda>location.
      bind_r (at_cell (Some n) ''CONFIDENCE'' (number_cell (cell r ''confidence''))) (\<lambda>confidence.
      bind_r (check (confidence_ok confidence) (Confidence_Range n)) (\<lambda>_.
      Inr ([(''type'', PText ty), (''severity'', PText severity),
            (''description'', PText (text_of (cell r ''description''))),
            (''grid_zone'', PText (text_of (cell r ''grid_zone''))),
            (''room_level'', PText (text_of (cell r ''room_level'')))]
           @ nonblank ''status'' status @ location @ optional ''confidence_score'' PNum confidence,
           session)))))))))))"

section \<open>Findings\<close>

definition finding_severities :: "string list" where
  "finding_severities = [''LOW'', ''MEDIUM'', ''HIGH'', ''CRITICAL'']"

definition finding_categories :: "string list" where
  "finding_categories = [''STRUCTURAL'', ''SAFETY'', ''ENVIRONMENTAL'', ''MEP'', ''PERMIT_DEVIATION'', ''QUALITY'']"

definition build_finding :: "import_context \<Rightarrow> source_row list \<Rightarrow> row_error + payload" where
  "build_finding ctx rows = (case rows of
     [] \<Rightarrow> Inl Unhandled
   | r # others \<Rightarrow>
      (let n = sr_number r; ref = text_of (cell r ''inspection'')
       in bind_r (check (others = []) One_Row_Only) (\<lambda>_.
      bind_r (at_cell (Some n) ''SEVERITY'' (choice_cell (cell r ''severity'') finding_severities)) (\<lambda>severity.
      bind_r (at_cell (Some n) ''CATEGORY'' (choice_cell (cell r ''category'') finding_categories)) (\<lambda>category.
      bind_r (if ref = [] then Inr (cx_inspection ctx)
              else case map_of (cx_inspections ctx) ref of
                     Some i \<Rightarrow> Inr (Some i) | None \<Rightarrow> Inl (Inspection_Unknown n ref)) (\<lambda>inspection.
      bind_r (case inspection of Some i \<Rightarrow> Inr i | None \<Rightarrow> Inl (Inspection_Missing n)) (\<lambda>insp.
      bind_r (at_cell (Some n) ''REQUIRES REINSPECTION'' (boolean_cell (cell r ''requires_reinspection''))) (\<lambda>again.
      Inr ([(''inspection'', PId insp), (''project'', PId (cx_project ctx)),
            (''title'', PText (text_of (cell r ''title''))), (''description'', PText (text_of (cell r ''description'')))]
           @ nonblank ''severity'' severity @ nonblank ''category'' category
           @ nonblank ''corrective_action_required'' (text_of (cell r ''corrective_action''))
           @ optional ''requires_reinspection'' PBool again
           @ nonblank ''resolution_deadline'' (text_of (cell r ''resolution_deadline'')))))))))))"

section \<open>The registry\<close>

datatype record_type = RT_UPV | RT_GPR | RT_SLAM | RT_FINDING

text \<open>Column names fold to lower case words joined by underscores.\<close>

definition key_char :: "char \<Rightarrow> bool" where
  "key_char c \<longleftrightarrow> is_digit c \<or> (let n = of_char c :: nat in 97 \<le> n \<and> n \<le> 122)"

function fold_key :: "string \<Rightarrow> string" where
  "fold_key [] = []"
| "fold_key (c # s) =
     (if key_char c then c # fold_key s
      else CHR ''_'' # fold_key (dropWhile (\<lambda>x. \<not> key_char x) s))"
  by pat_completeness auto
termination
  by (relation "measure length") (auto simp: less_Suc_eq_le length_dropWhile_le)

definition strip_underscores :: "string \<Rightarrow> string" where
  "strip_underscores s =
     rev (dropWhile (\<lambda>c. c = CHR ''_'') (rev (dropWhile (\<lambda>c. c = CHR ''_'') s)))"

definition normalise_key :: "string \<Rightarrow> string" where
  "normalise_key k = strip_underscores (fold_key (py_lower (py_strip k)))"

definition rt_name :: "record_type \<Rightarrow> string" where
  "rt_name t = (case t of RT_UPV \<Rightarrow> ''UPV'' | RT_GPR \<Rightarrow> ''GPR'' | RT_SLAM \<Rightarrow> ''SLAM'' | RT_FINDING \<Rightarrow> ''FINDING'')"

text \<open>In the order of the dictionary.\<close>

definition registry_types :: "record_type list" where
  "registry_types = [RT_UPV, RT_GPR, RT_SLAM, RT_FINDING]"

definition record_type_of :: "string \<Rightarrow> record_type option" where
  "record_type_of s = List.find (\<lambda>t. rt_name t = s) registry_types"

definition columns_of :: "record_type \<Rightarrow> string list" where
  "columns_of t = (case t of
     RT_UPV \<Rightarrow> [''STRUCTURAL ELEMENT'', ''FLOOR'', ''TEST TYPE'', ''POINT'', ''PATH LENGTH L (MM)'',
       ''TRANSIT TIME T (US)'', ''T UNCRACKED (US)'', ''SURFACE CONDITION'', ''TRANSDUCER FREQUENCY (KHZ)'',
       ''TRANSDUCER TYPE'', ''TEST LOCATION'', ''WEATHER CONDITION'', ''REBOUND NUMBER'', ''NOTES'']
   | RT_GPR \<Rightarrow> [''SURVEY TITLE'', ''SURVEY AREA'', ''STRUCTURAL ELEMENT'', ''ANTENNA FREQUENCY (MHZ)'',
       ''DEPTH RANGE (M)'', ''GRID SPACING (M)'', ''LATITUDE'', ''LONGITUDE'', ''NOTES'']
   | RT_SLAM \<Rightarrow> [''SCAN SESSION'', ''DEFECT TYPE'', ''SEVERITY'', ''STATUS'', ''LOCATION X'', ''LOCATION Y'',
       ''LOCATION Z'', ''GRID ZONE'', ''ROOM LEVEL'', ''DESCRIPTION'', ''CONFIDENCE'']
   | RT_FINDING \<Rightarrow> [''INSPECTION'', ''TITLE'', ''DESCRIPTION'', ''SEVERITY'', ''CATEGORY'', ''CORRECTIVE ACTION'',
       ''RESOLUTION DEADLINE'', ''REQUIRES REINSPECTION''])"

definition required_of :: "record_type \<Rightarrow> string list" where
  "required_of t = (case t of
     RT_UPV \<Rightarrow> [''STRUCTURAL ELEMENT'', ''TEST TYPE'']
   | RT_GPR \<Rightarrow> [''SURVEY TITLE'']
   | RT_SLAM \<Rightarrow> [''SCAN SESSION'', ''DEFECT TYPE'', ''SEVERITY'']
   | RT_FINDING \<Rightarrow> [''TITLE'', ''DESCRIPTION''])"

definition groups_of :: "record_type \<Rightarrow> bool" where
  "groups_of t \<longleftrightarrow> t = RT_UPV"

definition has_owner :: "record_type \<Rightarrow> bool" where
  "has_owner t \<longleftrightarrow> t = RT_UPV \<or> t = RT_GPR"

text \<open>A build gives the serializer's input and, for a defect, the scan session it is saved with.\<close>

definition build :: "record_type \<Rightarrow> import_context \<Rightarrow> source_row list \<Rightarrow> row_error + (payload \<times> nat option)" where
  "build t ctx rows = (case t of
     RT_UPV \<Rightarrow> bind_r (build_upv ctx rows) (\<lambda>p. Inr (p, None))
   | RT_GPR \<Rightarrow> bind_r (build_gpr ctx rows) (\<lambda>p. Inr (p, None))
   | RT_SLAM \<Rightarrow> bind_r (build_slam ctx rows) (\<lambda>(p, s). Inr (p, Some s))
   | RT_FINDING \<Rightarrow> bind_r (build_finding ctx rows) (\<lambda>p. Inr (p, None)))"

definition template_keys :: "record_type \<Rightarrow> string list" where
  "template_keys t = map normalise_key (columns_of t)"

text \<open>The keys of a UPV row: the measurements, and the context of the test.\<close>

definition upv_measurement_keys :: "string list" where
  "upv_measurement_keys = [''point'', ''path_length_l_mm'', ''transit_time_t_us'', ''t_uncracked_us'',
     ''surface_condition'', ''rebound_number'', ''notes'']"

definition upv_context_keys :: "string list" where
  "upv_context_keys = [''structural_element'', ''floor'', ''test_type'', ''test_location'', ''weather_condition'',
     ''transducer_type'', ''transducer_frequency_khz'']"

lemma template_keys_upv: "mset (template_keys RT_UPV) = mset (upv_measurement_keys @ upv_context_keys)"
  by code_simp

section \<open>What grouping computes\<close>

text \<open>The groups of a file: a split of its rows into blocks of one key, no key twice.\<close>

definition upv_partition :: "source_row list \<Rightarrow> upv_group list \<Rightarrow> bool" where
  "upv_partition rows gs \<longleftrightarrow> concat (map snd gs) = rows \<and> distinct (map fst gs)
     \<and> (\<forall>(k, rs) \<in> set gs. rs \<noteq> [] \<and> (\<forall>r \<in> set rs. upv_key r = k))"

lemma group_upv_block:
  "list_all (\<lambda>r. upv_key r = k) ys \<Longrightarrow>
   group_upv_loop (acc @ [(k, xs)]) seen (ys @ rest) = group_upv_loop (acc @ [(k, xs @ ys)]) seen rest"
proof (induction ys arbitrary: xs)
  case (Cons y ys)
  then show ?case using Cons.IH [of "xs @ [y]"] by simp
qed simp

lemma group_upv_complete:
  assumes "\<forall>(k, rs) \<in> set gs. rs \<noteq> [] \<and> (\<forall>r \<in> set rs. upv_key r = k)" "distinct (map fst (acc @ gs))"
    and "fst ` set seen = fst ` set acc"
  shows "group_upv_loop acc seen (concat (map snd gs)) = Inr (acc @ gs)"
  using assms
proof (induction gs arbitrary: acc seen)
  case (Cons g gs)
  obtain k rs where g: "g = (k, rs)" by (cases g)
  with Cons.prems obtain r rs' where rs: "rs = r # rs'" and k: "upv_key r = k"
    and all: "list_all (\<lambda>r. upv_key r = k) rs'"
    by (cases rs) (auto simp: list_all_iff)
  have new: "k \<notin> fst ` set acc" using Cons.prems(2) g by auto
  then have "map_of seen k = None" using Cons.prems(3) by (simp add: map_of_eq_None_iff)
  moreover have "acc = [] \<or> fst (last acc) \<noteq> k" using new by (cases acc) (auto simp: image_iff)
  ultimately have "group_upv_loop acc seen (concat (map snd (g # gs)))
      = group_upv_loop (acc @ [(k, [r])]) ((k, sr_number r) # seen) (rs' @ concat (map snd gs))"
    using k by (auto simp: g rs)
  also have "\<dots> = group_upv_loop (acc @ [(k, rs)]) ((k, sr_number r) # seen) (concat (map snd gs))"
    using group_upv_block [OF all, of acc "[r]"] by (simp add: rs)
  also have "\<dots> = Inr ((acc @ [(k, rs)]) @ gs)"
    by (rule Cons.IH) (use Cons.prems g in auto)
  finally show ?case by (simp add: g)
qed simp

lemma group_upv_sound:
  assumes "group_upv_loop acc seen rs = Inr gs" "upv_partition rows acc" "fst ` set seen = fst ` set acc"
  shows "upv_partition (rows @ rs) gs"
  using assms
proof (induction rs arbitrary: acc seen rows)
  case (Cons r rs)
  show ?case
  proof (cases "acc \<noteq> [] \<and> fst (last acc) = upv_key r")
    case True
    then obtain acc' xs where acc: "acc = acc' @ [(upv_key r, xs)]"
      by (metis append_butlast_last_id prod.collapse)
    have "upv_partition (rows @ [r]) (acc' @ [(upv_key r, xs @ [r])])"
      using Cons.prems(2) unfolding acc upv_partition_def by auto
    from Cons.IH [OF _ this, of seen] Cons.prems acc show ?thesis by auto
  next
    case False
    with Cons.prems(1) have new: "map_of seen (upv_key r) = None"
      and run: "group_upv_loop (acc @ [(upv_key r, [r])]) ((upv_key r, sr_number r) # seen) rs = Inr gs"
      by (auto split: option.splits)
    from new have "upv_key r \<notin> fst ` set acc" using Cons.prems(3) by (simp add: map_of_eq_None_iff)
    then have "upv_partition (rows @ [r]) (acc @ [(upv_key r, [r])])"
      using Cons.prems(2) unfolding upv_partition_def by auto
    from Cons.IH [OF run this] Cons.prems(3) show ?thesis by auto
  qed
qed simp

text \<open>A successful build is one reading per row.\<close>

lemma build_readings_length: "build_readings tt rows = Inr rds \<Longrightarrow> length rds = length rows"
  by (induction rows arbitrary: rds) (auto simp: bind_r_Inr_iff)

lemma build_readings_nth:
  "build_readings tt rows = Inr rds \<Longrightarrow> i < length rows \<Longrightarrow> build_reading tt (rows ! i) = Inr (rds ! i)"
proof (induction rows arbitrary: rds i)
  case (Cons r rows)
  then show ?case by (cases i) (auto simp: bind_r_Inr_iff)
qed simp

text \<open>What a reading of each test type holds.\<close>

definition measured :: "string \<Rightarrow> source_row \<Rightarrow> payload \<Rightarrow> bool" where
  "measured tt r rd \<longleftrightarrow>
     (if tt = ''pulse_velocity'' \<or> tt = ''crack_depth'' then
        (\<exists>p t. number_cell (cell r ''path_length_l_mm'') = Inr (Some p) \<and> map_of rd ''path_length_mm'' = Some (PNum p)
           \<and> number_cell (cell r ''transit_time_t_us'') = Inr (Some t) \<and> map_of rd ''transit_time_us'' = Some (PNum t))
        \<and> (tt = ''crack_depth'' \<longrightarrow>
             (\<exists>u. number_cell (cell r ''t_uncracked_us'') = Inr (Some u)
                \<and> map_of rd ''uncracked_transit_time_us'' = Some (PNum u)))
      else text_of (cell r ''surface_condition'') \<noteq> []
        \<and> map_of rd ''surface_condition'' = Some (PText (text_of (cell r ''surface_condition''))))"

lemma at_cell_Inr: "at_cell row label r = Inr x \<longleftrightarrow> r = Inr x"
  by (simp add: at_cell_def split: sum.splits)

lemma map_of_nonblank: "map_of (nonblank k s) j = (if j = k \<and> s \<noteq> [] then Some (PText s) else None)"
  by (simp add: nonblank_def)

lemma build_reading_shape:
  assumes "build_reading tt r = Inr rd"
  obtains p t u m rb where
    "number_cell (cell r ''path_length_l_mm'') = Inr p" "number_cell (cell r ''transit_time_t_us'') = Inr t"
      "number_cell (cell r ''t_uncracked_us'') = Inr u"
    and "(if tt = ''pulse_velocity'' then
           (case (p, t) of
              (None, _) \<Rightarrow> Inl (Measurement_Missing (sr_number r) ''PATH LENGTH L (MM)'')
            | (_, None) \<Rightarrow> Inl (Measurement_Missing (sr_number r) ''TRANSIT TIME T (US)'')
            | (Some p, Some t) \<Rightarrow> Inr [(''path_length_mm'', PNum p), (''transit_time_us'', PNum t)])
         else if tt = ''crack_depth'' then
           (case (p, t, u) of
              (None, _, _) \<Rightarrow> Inl (Measurement_Missing (sr_number r) ''PATH LENGTH L (MM)'')
            | (Some p, Some t, Some u) \<Rightarrow>
                Inr [(''path_length_mm'', PNum p), (''transit_time_us'', PNum t), (''uncracked_transit_time_us'', PNum u)]
            | _ \<Rightarrow> Inl (Measurement_Missing (sr_number r) ''TRANSIT TIMES''))
         else if text_of (cell r ''surface_condition'') = []
         then Inl (Measurement_Missing (sr_number r) ''SURFACE CONDITION'')
         else Inr [(''surface_condition'', PText (text_of (cell r ''surface_condition'')))]) = Inr m"
    and "rd = nonblank ''point_label'' (text_of (cell r ''point'')) @ m @ optional ''rebound_number'' PNum rb
           @ nonblank ''notes'' (text_of (cell r ''notes''))"
  using assms that unfolding build_reading_def Let_def bind_r_Inr_iff at_cell_Inr by auto

lemma build_reading_measured:
  assumes "build_reading tt r = Inr rd"
  shows "measured tt r rd"
  using assms
proof (rule build_reading_shape)
  fix p t u m rb
  assume
    cells: "number_cell (cell r ''path_length_l_mm'') = Inr p" "number_cell (cell r ''transit_time_t_us'') = Inr t"
      "number_cell (cell r ''t_uncracked_us'') = Inr u"
    and m: "(if tt = ''pulse_velocity'' then
           (case (p, t) of
              (None, _) \<Rightarrow> Inl (Measurement_Missing (sr_number r) ''PATH LENGTH L (MM)'')
            | (_, None) \<Rightarrow> Inl (Measurement_Missing (sr_number r) ''TRANSIT TIME T (US)'')
            | (Some p, Some t) \<Rightarrow> Inr [(''path_length_mm'', PNum p), (''transit_time_us'', PNum t)])
         else if tt = ''crack_depth'' then
           (case (p, t, u) of
              (None, _, _) \<Rightarrow> Inl (Measurement_Missing (sr_number r) ''PATH LENGTH L (MM)'')
            | (Some p, Some t, Some u) \<Rightarrow>
                Inr [(''path_length_mm'', PNum p), (''transit_time_us'', PNum t), (''uncracked_transit_time_us'', PNum u)]
            | _ \<Rightarrow> Inl (Measurement_Missing (sr_number r) ''TRANSIT TIMES''))
         else if text_of (cell r ''surface_condition'') = []
         then Inl (Measurement_Missing (sr_number r) ''SURFACE CONDITION'')
         else Inr [(''surface_condition'', PText (text_of (cell r ''surface_condition'')))]) = Inr m"
    and rd: "rd = nonblank ''point_label'' (text_of (cell r ''point'')) @ m @ optional ''rebound_number'' PNum rb
           @ nonblank ''notes'' (text_of (cell r ''notes''))"
  have front: "map_of rd k = map_of (m @ optional ''rebound_number'' PNum rb
           @ nonblank ''notes'' (text_of (cell r ''notes''))) k" if "k \<noteq> ''point_label''" for k
    unfolding rd using that by (simp add: map_add_def map_of_nonblank split: option.splits)
  show ?thesis
    using m unfolding measured_def
    by (auto simp: cells front split: if_splits option.splits)
qed

section \<open>Properties\<close>

text \<open>
  C14. Grouping readings into tests. The loop returns groups exactly when the file can be split
  into consecutive blocks of one element, test type and floor with no key in two blocks, and
  then it returns that split: no row is lost, moved, or filed under another key. In every other
  case the file is refused.
\<close>

theorem grouping_is_partition:
  "(group_upv_rows rows = Inr gs) = upv_partition rows gs"
proof
  assume "group_upv_rows rows = Inr gs"
  then show "upv_partition rows gs"
    using group_upv_sound [of "[]" "[]" rows gs "[]"] by (simp add: group_upv_rows_def upv_partition_def)
next
  assume "upv_partition rows gs"
  then show "group_upv_rows rows = Inr gs"
    using group_upv_complete [of gs "[]" "[]"] by (auto simp: group_upv_rows_def upv_partition_def)
qed

text \<open>
  C15. No measurement is invented. A test that is built names its project, has one reading for
  every row, and each reading carries the measurements its test type needs (path and transit
  time; the uncracked time too for a crack depth; a surface condition otherwise), each read from
  the cell of its own row. A blank or unreadable measurement refuses the record.
\<close>

theorem upv_measurements:
  assumes "build_upv ctx rows = Inr p"
  shows "\<exists>tt readings. map_of p ''project'' = Some (PId (cx_project ctx))
    \<and> test_type_cell (cell (hd rows) ''test_type'') = Inr tt \<and> map_of p ''test_type'' = Some (PText tt)
    \<and> map_of p ''readings'' = Some (PReadings readings)
    \<and> list_all2 (measured tt) rows readings"
proof -
  from assms obtain first rest where rows: "rows = first # rest"
    by (cases rows) (simp_all add: build_upv_def)
  from assms obtain tt readings tr fr where
    t: "test_type_cell (cell first ''test_type'') = Inr tt" and b: "build_readings tt rows = Inr readings"
    and p: "p = [(''project'', PId (cx_project ctx)), (''test_type'', PText tt),
            (''structural_element'', PText (text_of (cell first ''structural_element''))),
            (''floor'', PText (text_of (cell first ''floor''))),
            (''test_location'', PText (text_of (cell first ''test_location''))),
            (''weather_condition'', PText (text_of (cell first ''weather_condition''))),
            (''readings'', PReadings readings)]
           @ nonblank ''transducer_type'' tr @ optional ''transducer_frequency_khz'' PInt fr"
    unfolding build_upv_def rows list.case bind_r_Inr_iff at_cell_Inr by auto
  have "list_all2 (measured tt) rows readings"
    using build_readings_length [OF b] build_readings_nth [OF b] build_reading_measured
    by (auto simp: list_all2_conv_all_nth)
  with t p show ?thesis by (simp add: rows)
qed

text \<open>A pulse velocity row with a given transducer frequency.\<close>

definition demo_upv_row :: "string \<Rightarrow> source_row" where
  "demo_upv_row frequency = \<lparr>sr_number = 2, sr_data =
     [(''structural_element'', JStr ''C1''), (''test_type'', JStr ''PULSE VELOCITY''), (''path_length_l_mm'', JStr ''300''),
      (''transit_time_t_us'', JStr ''75''), (''transducer_frequency_khz'', JStr frequency)]\<rparr>"

definition demo_context :: import_context where
  "demo_context = \<lparr>cx_project = 4, cx_inspection = None, cx_sessions = [], cx_inspections = []\<rparr>"

lemma as_float_small: "\<bar>x\<bar> \<le> 2 ^ 20 \<Longrightarrow> as_float x = Fin x"
proof -
  assume x: "\<bar>x\<bar> \<le> 2 ^ 20"
  have "(2::real) ^ 20 < 2 ^ 970" by (rule power_strict_increasing) simp_all
  moreover have "(2::real) ^ 971 \<le> 2 ^ 1024" by (rule power_increasing) simp_all
  moreover have "(2::real) ^ 971 = 2 * 2 ^ 970" by (rule power_Suc [of _ 970, simplified])
  ultimately have "2 ^ 20 < float_limit" unfolding float_limit_def by linarith
  with x show ?thesis by (auto simp: as_float_def)
qed

lemma demo_floats: "read_float ''300'' = Some (Fin 300)" "read_float ''75'' = Some (Fin 75)" "read_float ''54'' = Some (Fin 54)"
  "read_float ''1.5'' = Some (Fin (3/2))" "read_float ''inf'' = Some Inf" "read_float ''nan'' = Some NaN" 
  by (simp_all add: read_float_def py_lower_def lower_char_def split_sign_def read_decimal_def Let_def
      is_digit_def decimal_value_def read_nat_def as_float_small)

lemma demo_strips: "py_strip ''300'' = ''300''" "py_strip ''75'' = ''75''" "py_strip ''54'' = ''54''" "py_strip ''1.5'' = ''1.5''"
   "py_strip ''inf'' = ''inf''" "py_strip ''nan'' = ''nan''" "py_strip ''C1'' = ''C1''" "py_strip ''PULSE VELOCITY'' = ''PULSE VELOCITY''"
  by code_simp+

lemma demo_cells:
  "cell (demo_upv_row f) ''path_length_l_mm'' = JStr ''300''" "cell (demo_upv_row f) ''transit_time_t_us'' = JStr ''75''"
  "cell (demo_upv_row f) ''transducer_frequency_khz'' = JStr f" "cell (demo_upv_row f) ''structural_element'' = JStr ''C1''"
  "cell (demo_upv_row f) ''test_type'' = JStr ''PULSE VELOCITY''" "cell (demo_upv_row f) ''t_uncracked_us'' = JNull"
  "cell (demo_upv_row f) ''point'' = JNull" "cell (demo_upv_row f) ''surface_condition'' = JNull"
  "cell (demo_upv_row f) ''rebound_number'' = JNull" "cell (demo_upv_row f) ''notes'' = JNull"
  "cell (demo_upv_row f) ''floor'' = JNull" "cell (demo_upv_row f) ''test_location'' = JNull"
  "cell (demo_upv_row f) ''weather_condition'' = JNull" "cell (demo_upv_row f) ''transducer_type'' = JNull"
  by (simp_all add: cell_def demo_upv_row_def dict_get_def)

lemma demo_type: "test_type_cell (JStr ''PULSE VELOCITY'') = Inr ''pulse_velocity''"
  by code_simp

lemma demo_number: "sr_number (demo_upv_row f) = 2"
  by (simp add: demo_upv_row_def)

lemma demo_readings: "build_reading ''pulse_velocity'' (demo_upv_row f)
  = Inr [(''path_length_mm'', PNum (Fin 300)), (''transit_time_us'', PNum (Fin 75))]"
  by (simp add: build_reading_def demo_cells number_cell_def blank_def demo_strips demo_floats at_cell_def text_of_def
      nonblank_def optional_def)

lemmas demo_build = demo_cells demo_number demo_type demo_readings demo_strips demo_floats at_cell_def
  choice_cell_def integer_cell_def number_cell_def blank_def text_of_def

theorem upv_measurements_witness:
  "\<exists>p. build_upv demo_context [demo_upv_row ''54''] = Inr p
     \<and> map_of p ''project'' = Some (PId 4) \<and> map_of p ''test_type'' = Some (PText ''pulse_velocity'')"
proof -
  obtain p where p: "build_upv demo_context [demo_upv_row ''54''] = Inr p"
    unfolding build_upv_def list.case by (simp add: demo_build)
  have "cx_project demo_context = 4" by (simp add: demo_context_def)
  with p upv_measurements [OF p] show ?thesis
    by (auto simp: demo_cells demo_type)
qed

text \<open>
  One cell can take the whole validation down. A transducer frequency that is no number
  or no whole number refuses the record with its row and column, but one that reads as an
  infinity or as not a number makes \<^verbatim>\<open>int()\<close> raise: the exception is not the row error
  the caller collects, so it ends the request and no row is reported.
\<close>

theorem infinite_frequency_escapes:
  "build_upv demo_context [demo_upv_row ''inf''] = Inl Unhandled
   \<and> build_upv demo_context [demo_upv_row ''nan''] = Inl Unhandled
   \<and> build_upv demo_context [demo_upv_row ''1.5'']
       = Inl (Bad_Cell (Some 2) ''TRANSDUCER FREQUENCY (KHZ)'' Must_Be_Whole)
   \<and> is_ok (build_upv demo_context [demo_upv_row ''54''])"
  unfolding build_upv_def list.case by (intro conjI; simp add: demo_build)

end
