(* ===== verification/Data_Import.thy ===== *)
theory Data_Import
  imports Import_Registry Access
begin

text \<open>
  Manual import: \<^verbatim>\<open>apps/data_import/services.py\<close> on the models of
  \<^verbatim>\<open>apps/data_import/models.py\<close>: upload, validate and commit of a file, and the status
  report. Parameters: \<open>H\<close> is SHA-256 in hexadecimal, \<open>read\<close> the readers of
  \<^verbatim>\<open>apps/data_import/readers.py\<close> (a file and its type to rows and a number of skipped ones, or a
  refusal), \<open>valid\<close> and \<open>save\<close> the serializers of the registries (is a payload refused, and what
  saving it makes of the registry), on a registry state of any type. The answer of the storage
  backend to a save, the name and the bytes it kept, is an argument of the upload.
\<close>

section \<open>Rows\<close>

datatype import_status = Imp_Pending | Imp_Validated | Imp_Imported | Imp_Failed

datatype record_fault =
    Type_Not_Importable string
  | Required_Missing "string list" record_type
  | Two_Blocks nat
  | Build_Refused row_error
  | Serializer_Refused string

datatype read_fault =
    Storage_Unreadable
  | Stored_File_Empty
  | Hash_Mismatch
  | Reader_Refused string
  | Too_Many_Rows nat

datatype batch_error =
    Row_Error nat string record_fault
  | File_Error read_fault
  | No_Records

record import_batch =
  ib_id :: nat
  ib_inspector :: nat
  ib_inspector_name :: string
  ib_project :: nat
  ib_inspection :: "nat option"
  ib_import_type :: string
  ib_record_type :: string
  ib_file_name :: string
  ib_size :: nat
  ib_storage :: string
  ib_hash :: string
  ib_status :: import_status
  ib_errors :: "batch_error list"
  ib_truncated :: bool
  ib_records :: nat
  ib_valid :: nat
  ib_invalid :: nat
  ib_skipped :: nat
  ib_validated_at :: "int option"
  ib_imported_at :: "int option"

record import_record =
  ir_batch :: nat
  ir_row :: nat
  ir_row_end :: nat
  ir_type :: string
  ir_raw :: "dict list"
  ir_data :: payload
  ir_valid :: bool
  ir_error :: "record_fault option"
  ir_target :: "(record_type \<times> nat) option"

record 'reg import_db =
  id_batches :: "import_batch list"
  id_records :: "import_record list"
  id_files :: "(string \<times> string) list"
  id_sessions :: "(nat \<times> string \<times> nat) list"
  id_inspections :: "(nat \<times> string \<times> nat) list"
  id_registry :: 'reg

datatype import_refusal =
    File_Too_Large
  | File_Empty
  | Type_Mismatch string string
  | Not_Importable string
  | Other_Project
  | Not_Stored_Intact nat nat
  | Already_Imported
  | Not_Validated import_status nat
  | File_Unreadable read_fault
  | Row_No_Longer_Valid nat
  | Exception_Escapes

definition refusal_status :: "import_refusal \<Rightarrow> nat" where
  "refusal_status r = (case r of
     Already_Imported \<Rightarrow> 409 | Not_Validated _ _ \<Rightarrow> 409 | File_Unreadable _ \<Rightarrow> 409
   | Row_No_Longer_Valid _ \<Rightarrow> 409 | Exception_Escapes \<Rightarrow> 500 | _ \<Rightarrow> 400)"

definition can_commit :: "import_batch \<Rightarrow> bool" where
  "can_commit b \<longleftrightarrow> ib_status b = Imp_Validated"

section \<open>Upload\<close>

definition byte_space :: "char \<Rightarrow> bool" where
  "byte_space c \<longleftrightarrow> (let n = of_char c :: nat in (9 \<le> n \<and> n \<le> 13) \<or> n = 32)"

definition detect_import_type :: "string \<Rightarrow> string" where
  "detect_import_type content =
     (if take 4 content = ''%PDF'' then ''PDF''
      else if take 4 content = [CHR ''P'', CHR ''K'', CHR 0x03, CHR 0x04] then ''XLSX''
      else if take 1 (dropWhile byte_space content) \<in> {[CHR 0x7B], [CHR 0x5B]} then ''JSON''
      else ''CSV'')"

text \<open>The chunks of the upload, bounded as they arrive.\<close>

fun read_chunks :: "nat \<Rightarrow> string \<Rightarrow> string list \<Rightarrow> import_refusal + string" where
  "read_chunks limit got [] = (if got = [] then Inl File_Empty else Inr got)"
| "read_chunks limit got (c # cs) =
     (if length got + length c > limit then Inl File_Too_Large else read_chunks limit (got @ c) cs)"

definition upload ::
    "(string \<Rightarrow> string) \<Rightarrow> nat \<Rightarrow> nat \<Rightarrow> acc_user \<Rightarrow> nat \<Rightarrow> string list \<Rightarrow> string \<Rightarrow> string \<Rightarrow> string
     \<Rightarrow> (nat \<times> nat) option \<Rightarrow> string \<times> string \<Rightarrow> 'reg import_db
     \<Rightarrow> import_refusal + (import_batch \<times> bool \<times> 'reg import_db)" where
  "upload H limit pk usr project parts file_name import_type record_type inspection stored db =
     bind_r (read_chunks limit [] parts) (\<lambda>content.
     let digest = H content; size = length content; detected = detect_import_type content;
         claimed = py_upper (py_strip import_type); rtype = py_upper (py_strip record_type)
     in bind_r (check (claimed = [] \<or> claimed = detected) (Type_Mismatch claimed detected)) (\<lambda>_.
        bind_r (check (rtype = [] \<or> record_type_of rtype \<noteq> None) (Not_Importable rtype)) (\<lambda>_.
        bind_r (check (case inspection of None \<Rightarrow> True | Some (_, p) \<Rightarrow> p = project) Other_Project) (\<lambda>_.
        case first_where (\<lambda>b. ib_inspector b = ac_id usr \<and> ib_project b = project \<and> ib_import_type b = detected
               \<and> ib_hash b = digest \<and> ib_record_type b = rtype \<and> ib_inspection b = map_option fst inspection
               \<and> (ib_status b = Imp_Pending \<or> ib_status b = Imp_Failed)) (rev (id_batches db)) of
          Some b \<Rightarrow> Inr (b, False, db)
        | None \<Rightarrow>
            (let (name, kept) = stored in
             bind_r (check (length kept = size) (Not_Stored_Intact size (length kept))) (\<lambda>_.
             let b = \<lparr>ib_id = pk, ib_inspector = ac_id usr, ib_inspector_name = display_name usr,
                      ib_project = project, ib_inspection = map_option fst inspection, ib_import_type = detected,
                      ib_record_type = rtype, ib_file_name = file_name, ib_size = size, ib_storage = name,
                      ib_hash = digest, ib_status = Imp_Pending, ib_errors = [], ib_truncated = False,
                      ib_records = 0, ib_valid = 0, ib_invalid = 0, ib_skipped = 0, ib_validated_at = None,
                      ib_imported_at = None\<rparr>
             in Inr (b, True, db\<lparr>id_batches := id_batches db @ [b], id_files := (name, kept) # id_files db\<rparr>)))))))"

section \<open>Reading a stored file\<close>

type_synonym reader = "string \<Rightarrow> string \<Rightarrow> string + (source_row list \<times> nat)"

definition parse_file ::
    "(string \<Rightarrow> string) \<Rightarrow> reader \<Rightarrow> nat \<Rightarrow> import_batch \<Rightarrow> 'reg import_db \<Rightarrow> read_fault + (source_row list \<times> nat)" where
  "parse_file H read max_rows b db =
     (case map_of (id_files db) (ib_storage b) of
        None \<Rightarrow> Inl Storage_Unreadable
      | Some content \<Rightarrow>
          bind_r (check (content \<noteq> []) Stored_File_Empty) (\<lambda>_.
          bind_r (check (H content = ib_hash b) Hash_Mismatch) (\<lambda>_.
          case read content (ib_import_type b) of
            Inl e \<Rightarrow> Inl (Reader_Refused e)
          | Inr (rows, skipped) \<Rightarrow>
              bind_r (check (length rows \<le> max_rows) (Too_Many_Rows (length rows))) (\<lambda>_. Inr (rows, skipped)))))"

section \<open>Types and groups\<close>

definition inferred_type :: "source_row \<Rightarrow> string" where
  "inferred_type r =
     (let declared = py_upper (py_strip (py_str (json_or (cell r ''record_type'') (JStr []))))
      in if declared \<noteq> [] then declared
         else case List.find (\<lambda>t. list_all (\<lambda>c. normalise_key c \<in> fst ` set (sr_data r)) (required_of t)) registry_types of
                Some t \<Rightarrow> rt_name t | None \<Rightarrow> [])"

definition record_types_for :: "import_batch \<Rightarrow> source_row list \<Rightarrow> string list" where
  "record_types_for b rows =
     (if ib_record_type b \<noteq> [] then map (\<lambda>_. ib_record_type b) rows else map inferred_type rows)"

definition missing_required :: "record_type \<Rightarrow> source_row \<Rightarrow> string list" where
  "missing_required t r = filter (\<lambda>k. blank (cell r (normalise_key k))) (required_of t)"

type_synonym row_group = "record_type \<times> source_row list"

definition group_key :: "source_row list \<Rightarrow> string \<times> string \<times> string" where
  "group_key rows = upv_key (hd rows)"

fun group_loop ::
    "row_group list \<Rightarrow> (source_row \<times> string \<times> record_fault) list \<Rightarrow> ((string \<times> string \<times> string) \<times> nat) list
     \<Rightarrow> (source_row \<times> string) list \<Rightarrow> row_group list \<times> (source_row \<times> string \<times> record_fault) list" where
  "group_loop groups dropped seen [] = (groups, dropped)"
| "group_loop groups dropped seen ((r, ty) # rs) =
     (case record_type_of ty of
        None \<Rightarrow> group_loop groups (dropped @ [(r, ty, Type_Not_Importable ty)]) seen rs
      | Some t \<Rightarrow>
          if missing_required t r \<noteq> []
          then group_loop groups (dropped @ [(r, ty, Required_Missing (missing_required t r) t)]) seen rs
          else if \<not> groups_of t then group_loop (groups @ [(t, [r])]) dropped seen rs
          else if groups \<noteq> [] \<and> fst (last groups) = t \<and> group_key (snd (last groups)) = upv_key r
          then group_loop (butlast groups @ [(t, snd (last groups) @ [r])]) dropped seen rs
          else case map_of seen (upv_key r) of
                 Some n \<Rightarrow> group_loop groups (dropped @ [(r, ty, Two_Blocks n)]) seen rs
               | None \<Rightarrow> group_loop (groups @ [(t, [r])]) dropped ((upv_key r, sr_number r) # seen) rs)"

definition group_rows ::
    "source_row list \<Rightarrow> string list \<Rightarrow> row_group list \<times> (source_row \<times> string \<times> record_fault) list" where
  "group_rows rows types = group_loop [] [] [] (zip rows types)"

section \<open>Preparing records\<close>

record prepared =
  pr_record :: import_record
  pr_payload :: payload
  pr_session :: "nat option"

definition import_context_of :: "import_batch \<Rightarrow> 'reg import_db \<Rightarrow> import_context" where
  "import_context_of b db =
     (let of_project = (\<lambda>rows. map snd (filter (\<lambda>r. fst r = ib_project b) rows))
      in \<lparr>cx_project = ib_project b, cx_inspection = ib_inspection b,
          cx_sessions = of_project (id_sessions db),
          cx_inspections = rev (filter (\<lambda>r. fst r \<noteq> []) (of_project (id_inspections db)))\<rparr>)"

definition dropped_record :: "import_batch \<Rightarrow> source_row \<times> string \<times> record_fault \<Rightarrow> prepared" where
  "dropped_record b = (\<lambda>(r, ty, fault).
     \<lparr>pr_record = \<lparr>ir_batch = ib_id b, ir_row = sr_number r, ir_row_end = sr_number r, ir_type = ty,
        ir_raw = [sr_data r], ir_data = [], ir_valid = False, ir_error = Some fault, ir_target = None\<rparr>,
      pr_payload = [], pr_session = None\<rparr>)"

definition group_record :: "import_batch \<Rightarrow> row_group \<Rightarrow> payload \<Rightarrow> record_fault option \<Rightarrow> import_record" where
  "group_record b g data fault =
     \<lparr>ir_batch = ib_id b, ir_row = sr_number (hd (snd g)), ir_row_end = sr_number (last (snd g)),
      ir_type = rt_name (fst g), ir_raw = map sr_data (snd g), ir_data = data, ir_valid = (fault = None),
      ir_error = fault, ir_target = None\<rparr>"

type_synonym 'reg validator = "record_type \<Rightarrow> payload \<Rightarrow> 'reg \<Rightarrow> string option"

definition prepare_group ::
    "'reg validator \<Rightarrow> 'reg \<Rightarrow> import_context \<Rightarrow> import_batch \<Rightarrow> row_group \<Rightarrow> import_refusal + prepared" where
  "prepare_group valid reg ctx b g =
     (case build (fst g) ctx (snd g) of
        Inl Unhandled \<Rightarrow> Inl Exception_Escapes
      | Inl e \<Rightarrow> Inr \<lparr>pr_record = group_record b g [] (Some (Build_Refused e)), pr_payload = [], pr_session = None\<rparr>
      | Inr (payload, session) \<Rightarrow>
          Inr \<lparr>pr_record = group_record b g payload (map_option Serializer_Refused (valid (fst g) payload reg)),
               pr_payload = payload, pr_session = session\<rparr>)"

fun prepare_groups ::
    "'reg validator \<Rightarrow> 'reg \<Rightarrow> import_context \<Rightarrow> import_batch \<Rightarrow> row_group list \<Rightarrow> import_refusal + prepared list" where
  "prepare_groups valid reg ctx b [] = Inr []"
| "prepare_groups valid reg ctx b (g # gs) =
     bind_r (prepare_group valid reg ctx b g) (\<lambda>p.
     bind_r (prepare_groups valid reg ctx b gs) (\<lambda>ps. Inr (p # ps)))"

definition record_errors :: "prepared list \<Rightarrow> batch_error list" where
  "record_errors ps = concat (map (\<lambda>p. case ir_error (pr_record p) of
     None \<Rightarrow> [] | Some f \<Rightarrow> [Row_Error (ir_row (pr_record p)) (ir_type (pr_record p)) f]) ps)"

definition error_row :: "batch_error \<Rightarrow> nat" where
  "error_row e = (case e of Row_Error n _ _ \<Rightarrow> n | _ \<Rightarrow> 0)"

definition prepare ::
    "'reg validator \<Rightarrow> import_batch \<Rightarrow> source_row list \<Rightarrow> 'reg import_db
     \<Rightarrow> import_refusal + (prepared list \<times> batch_error list)" where
  "prepare valid b rows db =
     (let (groups, dropped) = group_rows rows (record_types_for b rows)
      in bind_r (prepare_groups valid (id_registry db) (import_context_of b db) b groups) (\<lambda>ps.
         let items = map (dropped_record b) dropped @ ps
         in Inr (items, sort_key error_row (record_errors items))))"

section \<open>Validate\<close>

definition save_batch :: "nat \<Rightarrow> (import_batch \<Rightarrow> import_batch) \<Rightarrow> 'reg import_db \<Rightarrow> 'reg import_db" where
  "save_batch k f db = db\<lparr>id_batches := update_where (\<lambda>b. ib_id b = k) f (id_batches db)\<rparr>"

definition drop_records :: "nat \<Rightarrow> 'reg import_db \<Rightarrow> 'reg import_db" where
  "drop_records k db = db\<lparr>id_records := filter (\<lambda>r. ir_batch r \<noteq> k) (id_records db)\<rparr>"

definition finish_failed :: "nat \<Rightarrow> int \<Rightarrow> nat \<Rightarrow> batch_error list \<Rightarrow> 'reg import_db \<Rightarrow> 'reg import_db" where
  "finish_failed cap now k errors db =
     save_batch k (\<lambda>b. b\<lparr>ib_records := 0, ib_valid := 0, ib_invalid := 0, ib_errors := take cap errors,
        ib_truncated := (cap < length errors), ib_validated_at := Some now, ib_status := Imp_Failed\<rparr>)
       (drop_records k db)"

definition validated :: "nat \<Rightarrow> int \<Rightarrow> nat \<Rightarrow> prepared list \<Rightarrow> batch_error list \<Rightarrow> import_batch \<Rightarrow> import_batch" where
  "validated cap now skipped items errors b =
     (let good = length (filter (\<lambda>p. ir_valid (pr_record p)) items);
          bad = length items - good
      in b\<lparr>ib_records := length items, ib_valid := good, ib_invalid := bad, ib_skipped := skipped,
           ib_errors := (if items = [] \<and> errors = [] then [No_Records] else take cap errors),
           ib_truncated := (cap < length errors), ib_validated_at := Some now,
           ib_status := (if bad \<noteq> 0 \<or> errors \<noteq> [] \<or> items = [] then Imp_Failed else Imp_Validated)\<rparr>)"

text \<open>A batch without a type takes the only type its records have, if there is one.\<close>

definition adopted_type :: "import_batch \<Rightarrow> prepared list \<Rightarrow> string" where
  "adopted_type b items =
     (case remdups (filter (\<lambda>t. t \<noteq> []) (map (\<lambda>p. ir_type (pr_record p)) items)) of
        [t] \<Rightarrow> if ib_record_type b = [] then t else ib_record_type b
      | _ \<Rightarrow> ib_record_type b)"

definition validate ::
    "(string \<Rightarrow> string) \<Rightarrow> reader \<Rightarrow> 'reg validator \<Rightarrow> nat \<Rightarrow> nat \<Rightarrow> int \<Rightarrow> import_batch \<Rightarrow> 'reg import_db
     \<Rightarrow> import_refusal + 'reg import_db" where
  "validate H read valid cap max_rows now b db =
     (if ib_status b = Imp_Imported then Inl Already_Imported
      else case parse_file H read max_rows b db of
        Inl e \<Rightarrow> Inr (finish_failed cap now (ib_id b) [File_Error e] db)
      | Inr (rows, skipped) \<Rightarrow>
          bind_r (prepare valid b rows db) (\<lambda>(items, errors).
          let db1 = drop_records (ib_id b) db;
              db2 = db1\<lparr>id_records := id_records db1 @ map pr_record items\<rparr>
          in Inr (save_batch (ib_id b)
                   (\<lambda>r. (validated cap now skipped items errors r)
                          \<lparr>ib_record_type := (if adopted_type b items = ib_record_type b then ib_record_type r
                                              else adopted_type b items)\<rparr>) db2)))"

section \<open>Commit\<close>

type_synonym 'reg writer = "record_type \<Rightarrow> payload \<Rightarrow> nat option \<Rightarrow> nat option \<Rightarrow> 'reg \<Rightarrow> string + (nat \<times> 'reg)"

definition mark_target :: "nat \<Rightarrow> import_record \<Rightarrow> payload \<Rightarrow> record_type \<times> nat \<Rightarrow> 'reg import_db \<Rightarrow> 'reg import_db" where
  "mark_target k rec data target db =
     db\<lparr>id_records := update_where (\<lambda>r. ir_batch r = k \<and> ir_row r = ir_row rec \<and> ir_type r = ir_type rec)
          (\<lambda>r. r\<lparr>ir_data := data, ir_target := Some target\<rparr>) (id_records db)\<rparr>"

definition commit_item ::
    "'reg validator \<Rightarrow> 'reg writer \<Rightarrow> nat \<Rightarrow> nat \<Rightarrow> prepared \<Rightarrow> 'reg import_db \<Rightarrow> import_refusal + 'reg import_db" where
  "commit_item valid save usr k p db =
     (let rec = pr_record p
      in bind_r (check (ir_valid rec) (Row_No_Longer_Valid (ir_row rec))) (\<lambda>_.
         case record_type_of (ir_type rec) of
           None \<Rightarrow> Inl Exception_Escapes
         | Some t \<Rightarrow>
             bind_r (check (valid t (pr_payload p) (id_registry db) = None) (Row_No_Longer_Valid (ir_row rec))) (\<lambda>_.
             case save t (pr_payload p) (pr_session p) (if has_owner t then Some usr else None) (id_registry db) of
               Inl _ \<Rightarrow> Inl Exception_Escapes
             | Inr (pk, reg) \<Rightarrow> Inr (mark_target k rec (pr_payload p) (t, pk) (db\<lparr>id_registry := reg\<rparr>)))))"

fun commit_items ::
    "'reg validator \<Rightarrow> 'reg writer \<Rightarrow> nat \<Rightarrow> nat \<Rightarrow> prepared list \<Rightarrow> 'reg import_db \<Rightarrow> import_refusal + 'reg import_db" where
  "commit_items valid save usr k [] db = Inr db"
| "commit_items valid save usr k (p # ps) db =
     bind_r (commit_item valid save usr k p db) (commit_items valid save usr k ps)"

text \<open>A refusal inside the transaction rolls everything back: there is no new state.\<close>

definition commit ::
    "(string \<Rightarrow> string) \<Rightarrow> reader \<Rightarrow> 'reg validator \<Rightarrow> 'reg writer \<Rightarrow> nat \<Rightarrow> int \<Rightarrow> nat \<Rightarrow> import_batch
     \<Rightarrow> 'reg import_db \<Rightarrow> import_refusal + 'reg import_db" where
  "commit H read valid save max_rows now usr b db =
     (if ib_status b = Imp_Imported then Inl Already_Imported
      else bind_r (check (can_commit b) (Not_Validated (ib_status b) (ib_invalid b))) (\<lambda>_.
      case parse_file H read max_rows b db of
        Inl e \<Rightarrow> Inl (File_Unreadable e)
      | Inr (rows, _) \<Rightarrow>
          bind_r (prepare valid b rows db) (\<lambda>(items, _).
          bind_r (commit_items valid save usr (ib_id b) items db) (\<lambda>db1.
          Inr (save_batch (ib_id b) (\<lambda>r. r\<lparr>ib_status := Imp_Imported, ib_imported_at := Some now,
                 ib_valid := length items\<rparr>) db1)))))"

section \<open>Report\<close>

record batch_report =
  rp_status :: import_status
  rp_counts :: "nat \<times> nat \<times> nat \<times> nat"
  rp_error_count :: nat
  rp_truncated :: bool
  rp_errors :: "batch_error list"
  rp_can_commit :: bool

definition batch_status :: "nat \<Rightarrow> nat \<Rightarrow> import_batch \<Rightarrow> batch_report" where
  "batch_status cap limit b =
     \<lparr>rp_status = ib_status b, rp_counts = (ib_records b, ib_valid b, ib_invalid b, ib_skipped b),
      rp_error_count = length (ib_errors b), rp_truncated = ib_truncated b,
      rp_errors = take (if limit = 0 then cap else limit) (ib_errors b), rp_can_commit = can_commit b\<rparr>"

section \<open>Facts on the operations\<close>

text \<open>The wizard and the file path of telemetry split rows alike.\<close>

definition as_upv :: "upv_group list \<Rightarrow> row_group list" where
  "as_upv gs = map (\<lambda>(k, rs). (RT_UPV, rs)) gs"

definition keyed :: "upv_group list \<Rightarrow> bool" where
  "keyed gs \<longleftrightarrow> (\<forall>(k, rs) \<in> set gs. rs \<noteq> [] \<and> upv_key (hd rs) = k)"

lemma record_type_upv: "record_type_of ''UPV'' = Some RT_UPV"
  by code_simp

lemma group_loop_dropped: "\<exists>more. snd (group_loop gs d s rs) = d @ more"
proof (induction gs d s rs rule: group_loop.induct)
  case (2 groups dropped seen r ty rs)
  let ?P = "\<lambda>x. \<exists>more. snd x = dropped @ more"
  have "?P (group_loop groups (dropped @ [x]) seen rs)" if "\<exists>more. snd (group_loop groups (dropped @ [x]) seen rs) = (dropped @ [x]) @ more" for x
    using that by auto
  with 2 show ?case by (auto split: option.splits)
qed simp

lemma group_loops_agree:
  assumes "keyed gs" "list_all (\<lambda>r. missing_required RT_UPV r = []) rs"
  shows "(case group_upv_loop gs seen rs of
      Inr gs' \<Rightarrow> group_loop (as_upv gs) [] seen (map (\<lambda>r. (r, ''UPV'')) rs) = (as_upv gs', [])
    | Inl (r, n) \<Rightarrow> \<exists>more. snd (group_loop (as_upv gs) [] seen (map (\<lambda>r. (r, ''UPV'')) rs))
        = (r, ''UPV'', Two_Blocks n) # more)"
  using assms
proof (induction rs arbitrary: gs seen)
  case (Cons r rs)
  have last: "gs \<noteq> [] \<and> fst (last gs) = upv_key r \<longleftrightarrow>
      as_upv gs \<noteq> [] \<and> fst (last (as_upv gs)) = RT_UPV \<and> group_key (snd (last (as_upv gs))) = upv_key r"
  proof (cases gs rule: rev_cases)
    case (snoc gs' g)
    obtain k xs where g: "g = (k, xs)" by (cases g)
    then have "upv_key (hd xs) = k" using Cons.prems(1) snoc by (auto simp: keyed_def)
    then have "group_key xs = k" by (simp add: group_key_def)
    then show ?thesis unfolding snoc g by (simp add: as_upv_def)
  qed (simp add: as_upv_def)
  from Cons.prems(2) have req: "missing_required RT_UPV r = []" "list_all (\<lambda>r. missing_required RT_UPV r = []) rs"
    by simp_all
  show ?case
  proof (cases "gs \<noteq> [] \<and> fst (last gs) = upv_key r")
    case True
    then obtain gs' xs where gs: "gs = gs' @ [(upv_key r, xs)]"
      by (metis append_butlast_last_id prod.collapse)
    have k: "keyed (gs' @ [(upv_key r, xs @ [r])])"
      using Cons.prems(1) unfolding gs keyed_def by (auto simp: hd_append)
    have step: "group_loop (as_upv gs) [] seen (map (\<lambda>r. (r, ''UPV'')) (r # rs))
        = group_loop (as_upv (gs' @ [(upv_key r, xs @ [r])])) [] seen (map (\<lambda>r. (r, ''UPV'')) rs)"
      using True last req by (simp add: record_type_upv groups_of_def) (simp add: gs as_upv_def)
    have "group_upv_loop gs seen (r # rs) = group_upv_loop (gs' @ [(upv_key r, xs @ [r])]) seen rs"
      using gs by simp
    then show ?thesis unfolding step using Cons.IH [OF k req(2)] by simp
  next
    case False
    show ?thesis
    proof (cases "map_of seen (upv_key r)")
      case None
      have k: "keyed (gs @ [(upv_key r, [r])])" using Cons.prems(1) by (auto simp: keyed_def)
      have step: "group_loop (as_upv gs) [] seen (map (\<lambda>r. (r, ''UPV'')) (r # rs))
          = group_loop (as_upv (gs @ [(upv_key r, [r])])) [] ((upv_key r, sr_number r) # seen) (map (\<lambda>r. (r, ''UPV'')) rs)"
        using False last req None by (auto simp: record_type_upv groups_of_def as_upv_def)
      have "group_upv_loop gs seen (r # rs) = group_upv_loop (gs @ [(upv_key r, [r])]) ((upv_key r, sr_number r) # seen) rs"
        using False None by auto
      then show ?thesis unfolding step using Cons.IH [OF k req(2)] by simp
    next
      case (Some n)
      have step: "group_loop (as_upv gs) [] seen (map (\<lambda>r. (r, ''UPV'')) (r # rs))
          = group_loop (as_upv gs) [(r, ''UPV'', Two_Blocks n)] seen (map (\<lambda>r. (r, ''UPV'')) rs)"
        using False last req Some by (auto simp: record_type_upv groups_of_def)
      have "group_upv_loop gs seen (r # rs) = Inl (r, n)" using False Some by auto
      then show ?thesis
        unfolding step using group_loop_dropped [of "as_upv gs" "[(r, ''UPV'', Two_Blocks n)]"] by auto
    qed
  qed
qed simp

text \<open>Every prepared record is of its batch, and is valid exactly when it carries no fault.\<close>

definition item_ok :: "nat \<Rightarrow> prepared \<Rightarrow> bool" where
  "item_ok k p \<longleftrightarrow> ir_batch (pr_record p) = k \<and> ir_valid (pr_record p) = (ir_error (pr_record p) = None)"

lemma prepare_group_ok: "prepare_group valid reg ctx b g = Inr p \<Longrightarrow> item_ok (ib_id b) p"
  by (auto simp: prepare_group_def item_ok_def group_record_def split: sum.splits row_error.splits)

lemma prepare_groups_ok: "prepare_groups valid reg ctx b gs = Inr ps \<Longrightarrow> list_all (item_ok (ib_id b)) ps"
  by (induction gs arbitrary: ps) (auto simp: bind_r_Inr_iff prepare_group_ok)

lemma prepare_items:
  assumes "prepare valid b rows db = Inr (items, errors)"
  shows "list_all (item_ok (ib_id b)) items" "errors = sort_key error_row (record_errors items)"
proof -
  have "list_all (item_ok (ib_id b)) (map (dropped_record b) d)" for d
    by (auto simp: list_all_iff item_ok_def dropped_record_def)
  then show "list_all (item_ok (ib_id b)) items" "errors = sort_key error_row (record_errors items)"
    using assms by (auto simp: prepare_def bind_r_Inr_iff Let_def prepare_groups_ok split: prod.splits)
qed

lemma record_errors_Nil:
  "list_all (item_ok k) items \<Longrightarrow> record_errors items = [] \<longleftrightarrow> list_all (\<lambda>p. ir_valid (pr_record p)) items"
  by (induction items) (auto simp: record_errors_def item_ok_def split: option.splits)

text \<open>The counts of a validation.\<close>

lemma validated_counts:
  assumes "list_all (item_ok k) items" "errors = sort_key error_row (record_errors items)" "0 < cap"
  shows "ib_records (validated cap now sk items errors b) = length items"
    and "ib_records (validated cap now sk items errors b)
      = ib_valid (validated cap now sk items errors b) + ib_invalid (validated cap now sk items errors b)"
    and "ib_status (validated cap now sk items errors b) = Imp_Validated \<longleftrightarrow>
      items \<noteq> [] \<and> list_all (\<lambda>p. ir_valid (pr_record p)) items"
    and "ib_status (validated cap now sk items errors b) \<in> {Imp_Validated, Imp_Failed}"
    and "ib_status (validated cap now sk items errors b) = Imp_Validated \<longleftrightarrow>
      ib_errors (validated cap now sk items errors b) = []"
    and "ib_status (validated cap now sk items errors b) = Imp_Validated \<Longrightarrow>
      ib_invalid (validated cap now sk items errors b) = 0"
proof -
  let ?good = "filter (\<lambda>p. ir_valid (pr_record p)) items"
  have le: "length ?good \<le> length items" by simp
  have none: "errors = [] \<longleftrightarrow> list_all (\<lambda>p. ir_valid (pr_record p)) items"
    using record_errors_Nil [OF assms(1)] by (simp add: assms(2))
  have all: "list_all (\<lambda>p. ir_valid (pr_record p)) items \<Longrightarrow> ?good = items"
    by (simp add: list_all_iff filter_id_conv)
  show "ib_records (validated cap now sk items errors b) = length items"
    "ib_records (validated cap now sk items errors b)
      = ib_valid (validated cap now sk items errors b) + ib_invalid (validated cap now sk items errors b)"
    "ib_status (validated cap now sk items errors b) \<in> {Imp_Validated, Imp_Failed}"
    using le by (simp_all add: validated_def Let_def)
  show v: "ib_status (validated cap now sk items errors b) = Imp_Validated \<longleftrightarrow>
      items \<noteq> [] \<and> list_all (\<lambda>p. ir_valid (pr_record p)) items"
    using none all by (auto simp: validated_def Let_def)
  show "ib_status (validated cap now sk items errors b) = Imp_Validated \<longleftrightarrow>
      ib_errors (validated cap now sk items errors b) = []"
    unfolding v using none assms(3) by (auto simp: validated_def Let_def)
  show "ib_status (validated cap now sk items errors b) = Imp_Validated \<Longrightarrow>
      ib_invalid (validated cap now sk items errors b) = 0"
    unfolding v using all by (auto simp: validated_def Let_def)
qed

section \<open>The life of a batch\<close>

text \<open>
  One step is a request: an upload under a fresh key, or a validation or a commit of a batch as
  it is stored. The second list records the batches that were committed, in order.
\<close>

inductive import_reach ::
    "(string \<Rightarrow> string) \<Rightarrow> reader \<Rightarrow> 'reg validator \<Rightarrow> 'reg writer \<Rightarrow> nat \<Rightarrow> 'reg import_db \<Rightarrow> nat list \<Rightarrow> bool"
  for H :: "string \<Rightarrow> string" and read :: reader and valid :: "'reg validator" and save :: "'reg writer"
    and cap :: nat where
  import_start: "id_batches db = [] \<Longrightarrow> id_records db = [] \<Longrightarrow> import_reach H read valid save cap db []"
| import_upload: "import_reach H read valid save cap db committed \<Longrightarrow> pk \<notin> ib_id ` set (id_batches db) \<Longrightarrow>
     upload H limit pk usr project parts name ity rty insp stored db = Inr (b, created, db') \<Longrightarrow>
     import_reach H read valid save cap db' committed"
| import_validate: "import_reach H read valid save cap db committed \<Longrightarrow> b \<in> set (id_batches db) \<Longrightarrow>
     validate H read valid cap max_rows now b db = Inr db' \<Longrightarrow> import_reach H read valid save cap db' committed"
| import_commit: "import_reach H read valid save cap db committed \<Longrightarrow> b \<in> set (id_batches db) \<Longrightarrow>
     commit H read valid save max_rows now usr b db = Inr db' \<Longrightarrow>
     import_reach H read valid save cap db' (committed @ [ib_id b])"

definition records_of :: "nat \<Rightarrow> 'reg import_db \<Rightarrow> import_record list" where
  "records_of k db = filter (\<lambda>r. ir_batch r = k) (id_records db)"

definition batch_ok :: "'reg import_db \<Rightarrow> import_batch \<Rightarrow> bool" where
  "batch_ok db b \<longleftrightarrow> ib_records b = length (records_of (ib_id b) db)
     \<and> (ib_status b \<noteq> Imp_Imported \<longrightarrow> ib_records b = ib_valid b + ib_invalid b)
     \<and> (ib_status b = Imp_Failed \<longrightarrow> ib_errors b \<noteq> [])
     \<and> (ib_status b = Imp_Validated \<or> ib_status b = Imp_Imported \<longrightarrow>
          ib_invalid b = 0 \<and> ib_errors b = [] \<and> ib_records b \<noteq> 0
          \<and> list_all ir_valid (records_of (ib_id b) db))"

definition import_inv :: "'reg import_db \<Rightarrow> nat list \<Rightarrow> bool" where
  "import_inv db committed \<longleftrightarrow> distinct (map ib_id (id_batches db)) \<and> distinct committed
     \<and> set committed \<subseteq> ib_id ` set (id_batches db) \<and> ir_batch ` set (id_records db) \<subseteq> ib_id ` set (id_batches db)
     \<and> (\<forall>b \<in> set (id_batches db). batch_ok db b \<and> (ib_id b \<in> set committed) = (ib_status b = Imp_Imported))"

lemma batch_ok_cong:
  "map ir_valid (records_of (ib_id b) db') = map ir_valid (records_of (ib_id b) db) \<Longrightarrow> batch_ok db' b = batch_ok db b"
proof -
  assume m: "map ir_valid (records_of (ib_id b) db') = map ir_valid (records_of (ib_id b) db)"
  have "length (records_of (ib_id b) db') = length (records_of (ib_id b) db)"
    using arg_cong [OF m, of length] by simp
  moreover have "list_all ir_valid rs = list_all (\<lambda>x. x) (map ir_valid rs)" for rs
    by (simp add: list.pred_map comp_def)
  then have "list_all ir_valid (records_of (ib_id b) db') = list_all ir_valid (records_of (ib_id b) db)"
    using m by metis
  ultimately show ?thesis by (simp add: batch_ok_def)
qed

text \<open>A step that rewrites one batch and its records.\<close>

lemma inv_save:
  assumes inv: "import_inv db c" and k: "k \<in> ib_id ` set (id_batches db)"
    and bs: "id_batches db' = update_where (\<lambda>b. ib_id b = k) f (id_batches db)"
    and fid: "\<And>b. ib_id (f b) = ib_id b"
    and flags: "\<And>j. j \<noteq> k \<Longrightarrow> map ir_valid (records_of j db') = map ir_valid (records_of j db)"
    and recs: "ir_batch ` set (id_records db') \<subseteq> insert k (ir_batch ` set (id_records db))"
    and ok: "\<And>b. b \<in> set (id_batches db) \<Longrightarrow> ib_id b = k \<Longrightarrow>
       batch_ok db' (f b) \<and> (k \<in> set c') = (ib_status (f b) = Imp_Imported)"
    and c': "distinct c'" "set c' \<subseteq> insert k (set c)" "set c \<subseteq> set c'"
  shows "import_inv db' c'"
proof -
  have ids: "map ib_id (id_batches db') = map ib_id (id_batches db)"
    unfolding bs update_where_def using fid by simp
  then have idset: "ib_id ` set (id_batches db') = ib_id ` set (id_batches db)"
    by (metis set_map)
  have "batch_ok db' b \<and> (ib_id b \<in> set c') = (ib_status b = Imp_Imported)" if b: "b \<in> set (id_batches db')" for b
  proof -
    from b obtain b0 where b0: "b0 \<in> set (id_batches db)" "b = (if ib_id b0 = k then f b0 else b0)"
      unfolding bs update_where_def by auto
    show ?thesis
    proof (cases "ib_id b0 = k")
      case True
      then show ?thesis using ok [OF b0(1)] fid b0(2) by simp
    next
      case False
      then have "ib_id b0 \<in> set c' \<longleftrightarrow> ib_id b0 \<in> set c" using c'(2,3) by auto
      then show ?thesis
        using inv b0 False batch_ok_cong [OF flags] unfolding import_inv_def by auto
    qed
  qed
  moreover have "set c' \<subseteq> ib_id ` set (id_batches db')"
    using inv c'(2) k unfolding idset import_inv_def by auto
  moreover have "ir_batch ` set (id_records db') \<subseteq> ib_id ` set (id_batches db')"
    using inv recs k unfolding idset import_inv_def by blast
  ultimately show ?thesis
    using inv c'(1) unfolding import_inv_def ids by auto
qed

lemma records_of_drop: "records_of j (drop_records k db) = (if j = k then [] else records_of j db)"
  by (auto simp: records_of_def drop_records_def filter_filter filter_empty_conv intro: filter_cong)

lemma save_batch_simps [simp]:
  "id_batches (save_batch k f db) = update_where (\<lambda>b. ib_id b = k) f (id_batches db)"
  "id_records (save_batch k f db) = id_records db" "id_registry (save_batch k f db) = id_registry db"
  "id_files (save_batch k f db) = id_files db" "id_sessions (save_batch k f db) = id_sessions db"
  "id_inspections (save_batch k f db) = id_inspections db" "records_of j (save_batch k f db) = records_of j db"
  by (simp_all add: save_batch_def records_of_def)

lemma drop_records_simps [simp]:
  "id_batches (drop_records k db) = id_batches db" "id_registry (drop_records k db) = id_registry db"
  "id_files (drop_records k db) = id_files db" "id_sessions (drop_records k db) = id_sessions db"
  "id_inspections (drop_records k db) = id_inspections db"
  by (simp_all add: drop_records_def)

lemma inv_status:
  "import_inv db c \<Longrightarrow> b \<in> set (id_batches db) \<Longrightarrow> ib_id b \<in> set c \<longleftrightarrow> ib_status b = Imp_Imported"
  by (auto simp: import_inv_def)

lemma same_batch:
  "import_inv db c \<Longrightarrow> b \<in> set (id_batches db) \<Longrightarrow> b' \<in> set (id_batches db) \<Longrightarrow> ib_id b' = ib_id b \<Longrightarrow> b' = b"
  by (auto simp: import_inv_def distinct_map inj_on_def)

lemma inv_save_batch:
  assumes "import_inv db c" "k \<in> ib_id ` set (id_batches db)" "id_batches dbx = id_batches db"
    and "\<And>b. ib_id (f b) = ib_id b"
    and "\<And>j. j \<noteq> k \<Longrightarrow> map ir_valid (records_of j dbx) = map ir_valid (records_of j db)"
    and "ir_batch ` set (id_records dbx) \<subseteq> insert k (ir_batch ` set (id_records db))"
    and "\<And>b. b \<in> set (id_batches db) \<Longrightarrow> ib_id b = k \<Longrightarrow>
       batch_ok dbx (f b) \<and> (k \<in> set c') = (ib_status (f b) = Imp_Imported)"
    and "distinct c'" "set c' \<subseteq> insert k (set c)" "set c \<subseteq> set c'"
  shows "import_inv (save_batch k f dbx) c'"
proof -
  have "batch_ok (save_batch k f dbx) b = batch_ok dbx b" for b by (simp add: batch_ok_def)
  then show ?thesis by (intro inv_save [where k = k and f = f, OF assms(1)]) (use assms in simp_all)
qed

lemma import_inv_failed:
  assumes inv: "import_inv db c" and b: "b \<in> set (id_batches db)" "ib_status b \<noteq> Imp_Imported" and cap: "0 < cap"
  shows "import_inv (finish_failed cap now (ib_id b) [e] db) c"
proof -
  have c: "ib_id b \<notin> set c" using inv_status [OF inv b(1)] b(2) by simp
  have cap': "take cap [e] \<noteq> []" using cap by simp
  show ?thesis
    unfolding finish_failed_def
  proof (rule inv_save_batch [OF inv], goal_cases)
    case (4 j)
    then show ?case by (simp add: records_of_drop)
  next
    case (6 b')
    then show ?case using c cap' by (simp add: records_of_drop batch_ok_def)
  qed (use b inv in \<open>auto simp: import_inv_def drop_records_def\<close>)
qed

lemma import_inv_validate:
  assumes inv: "import_inv db c" and b: "b \<in> set (id_batches db)" and cap: "0 < cap"
    and run: "validate H read valid cap max_rows now b db = Inr db'"
  shows "import_inv db' c"
proof -
  have st: "ib_status b \<noteq> Imp_Imported" using run by (auto simp: validate_def)
  have c: "ib_id b \<notin> set c" using inv_status [OF inv b] st by simp
  show ?thesis
  proof (cases "parse_file H read max_rows b db")
    case (Inl e)
    then show ?thesis using run st import_inv_failed [OF inv b st cap] by (auto simp: validate_def)
  next
    case (Inr p)
    obtain rows sk where p: "p = (rows, sk)" by (cases p)
    from run st Inr p obtain items errors where prep: "prepare valid b rows db = Inr (items, errors)"
      by (cases "prepare valid b rows db") (auto simp: validate_def)
    define ty :: "import_batch \<Rightarrow> string" where "ty = (\<lambda>r. if adopted_type b items = ib_record_type b then ib_record_type r else adopted_type b items)"
    define dbx where "dbx = drop_records (ib_id b) db\<lparr>id_records := id_records (drop_records (ib_id b) db) @ map pr_record items\<rparr>"
    from run st Inr p prep have db': "db' = save_batch (ib_id b)
        (\<lambda>r. (validated cap now sk items errors r)\<lparr>ib_record_type := ty r\<rparr>) dbx"
      by (simp add: validate_def ty_def dbx_def Let_def)
    note items = prepare_items [OF prep]
    note counts = validated_counts [OF items(1) items(2) cap, of now sk]
    have mine: "records_of (ib_id b) dbx = map pr_record items"
      using items(1) by (auto simp: records_of_def dbx_def drop_records_def list_all_iff item_ok_def
          filter_id_conv filter_empty_conv)
    have others: "records_of j dbx = records_of j db" if "j \<noteq> ib_id b" for j
      using items(1) that by (auto simp: records_of_def dbx_def drop_records_def list_all_iff item_ok_def
          filter_empty_conv intro: filter_cong)
    show ?thesis
      unfolding db'
    proof (rule inv_save_batch [OF inv], goal_cases)
      case (4 j)
      then show ?case by (simp add: others)
    next
      case 5
      then show ?case using items(1)
        by (auto simp: dbx_def drop_records_def list_all_iff item_ok_def)
    next
      case (6 b')
      have v: "list_all ir_valid (map pr_record items) = list_all (\<lambda>p. ir_valid (pr_record p)) items"
        by (simp add: list.pred_map comp_def)
      have id: "ib_id (validated cap now sk items errors b') = ib_id b'" by (simp add: validated_def Let_def)
      show ?case
        unfolding batch_ok_def using counts [of b'] c 6(2) by (auto simp: id mine v)
    qed (use b inv in \<open>auto simp: dbx_def validated_def Let_def import_inv_def\<close>)
  qed
qed

lemma upload_effect:
  assumes "upload H limit pk usr project parts name ity rty insp stored db = Inr (b, created, db')"
  shows "(\<not> created \<and> db' = db) \<or> (created \<and> ib_id b = pk \<and> ib_status b = Imp_Pending \<and> ib_records b = 0 \<and> ib_valid b = 0
     \<and> ib_invalid b = 0 \<and> id_batches db' = id_batches db @ [b] \<and> id_records db' = id_records db
     \<and> id_registry db' = id_registry db)"
  using assms unfolding upload_def Let_def bind_r_Inr_iff
  by (auto split: option.splits prod.splits simp: bind_r_Inr_iff)

lemma import_inv_upload:
  assumes inv: "import_inv db c" and pk: "pk \<notin> ib_id ` set (id_batches db)"
    and run: "upload H limit pk usr project parts name ity rty insp stored db = Inr (b, created, db')"
  shows "import_inv db' c"
  using upload_effect [OF run]
proof (elim disjE conjE)
  assume new: "ib_id b = pk" "ib_status b = Imp_Pending" "ib_records b = 0" "ib_valid b = 0" "ib_invalid b = 0"
    "id_batches db' = id_batches db @ [b]" "id_records db' = id_records db"
  have same: "records_of j db' = records_of j db" for j by (simp add: records_of_def new)
  have none: "records_of pk db = []"
    using inv pk by (auto simp: records_of_def import_inv_def filter_empty_conv)
  have "batch_ok db' b" by (simp add: batch_ok_def new same none)
  moreover have "batch_ok db' x = batch_ok db x" for x by (simp add: batch_ok_def same)
  moreover have "pk \<notin> set c" using inv pk by (auto simp: import_inv_def)
  ultimately show ?thesis using inv pk new by (auto simp: import_inv_def)
qed (use inv in simp)

text \<open>What the rows of a commit do: the reference is to write all payloads in order.\<close>

fun save_all :: "'reg writer \<Rightarrow> nat \<Rightarrow> prepared list \<Rightarrow> 'reg \<Rightarrow> (nat list \<times> 'reg) option" where
  "save_all save usr [] reg = Some ([], reg)"
| "save_all save usr (p # ps) reg =
     (case record_type_of (ir_type (pr_record p)) of
        None \<Rightarrow> None
      | Some t \<Rightarrow>
          (case save t (pr_payload p) (pr_session p) (if has_owner t then Some usr else None) reg of
             Inl _ \<Rightarrow> None
           | Inr (pk, reg') \<Rightarrow> map_option (\<lambda>(pks, r). (pk # pks, r)) (save_all save usr ps reg')))"

lemma save_all_length: "save_all save usr ps reg = Some (pks, reg') \<Longrightarrow> length pks = length ps"
  by (induction ps arbitrary: pks reg) (auto split: option.splits sum.splits prod.splits)

definition record_flags :: "'reg import_db \<Rightarrow> (nat \<times> bool) list" where
  "record_flags db = map (\<lambda>r. (ir_batch r, ir_valid r)) (id_records db)"

lemma commit_items_effect:
  "commit_items valid save usr k ps db = Inr db' \<Longrightarrow>
     list_all (\<lambda>p. ir_valid (pr_record p)) ps \<and> id_batches db' = id_batches db \<and> id_files db' = id_files db
     \<and> record_flags db' = record_flags db
     \<and> (\<exists>pks. save_all save usr ps (id_registry db) = Some (pks, id_registry db'))"
proof (induction ps arbitrary: db)
  case (Cons p ps)
  then obtain db1 where one: "commit_item valid save usr k p db = Inr db1"
    and rest: "commit_items valid save usr k ps db1 = Inr db'"
    by (auto simp: bind_r_Inr_iff)
  from one obtain t pk reg where t: "record_type_of (ir_type (pr_record p)) = Some t" "ir_valid (pr_record p)"
    "save t (pr_payload p) (pr_session p) (if has_owner t then Some usr else None) (id_registry db) = Inr (pk, reg)"
    "db1 = mark_target k (pr_record p) (pr_payload p) (t, pk) (db\<lparr>id_registry := reg\<rparr>)"
    unfolding commit_item_def Let_def by (auto split: option.splits sum.splits)
  have "record_flags db1 = record_flags db"
    by (simp add: t(4) record_flags_def mark_target_def update_where_def)
  then show ?case
    using Cons.IH [OF rest] t by (auto simp: mark_target_def)
qed simp

lemma flags_of: "map ir_valid (records_of j db) = map snd (filter (\<lambda>q. fst q = j) (record_flags db))"
  by (simp add: records_of_def record_flags_def filter_map comp_def)

lemma commit_effect:
  assumes "commit H read valid save max_rows now usr b db = Inr db'"
  obtains rows sk items errs dbx pks where
    "ib_status b = Imp_Validated" "parse_file H read max_rows b db = Inr (rows, sk)"
    "prepare valid b rows db = Inr (items, errs)" "list_all (\<lambda>p. ir_valid (pr_record p)) items"
    "save_all save usr items (id_registry db) = Some (pks, id_registry dbx)"
    "id_batches dbx = id_batches db" "record_flags dbx = record_flags db"
    "db' = save_batch (ib_id b) (\<lambda>r. r\<lparr>ib_status := Imp_Imported, ib_imported_at := Some now,
                 ib_valid := length items\<rparr>) dbx"
proof -
  from assms have st: "ib_status b = Imp_Validated"
    by (auto simp: commit_def can_commit_def split: if_splits)
  from assms obtain rows sk items errs dbx where
    "parse_file H read max_rows b db = Inr (rows, sk)" "prepare valid b rows db = Inr (items, errs)"
    and run: "commit_items valid save usr (ib_id b) items db = Inr dbx"
    and "db' = save_batch (ib_id b) (\<lambda>r. r\<lparr>ib_status := Imp_Imported, ib_imported_at := Some now,
                 ib_valid := length items\<rparr>) dbx"
    by (auto simp: commit_def bind_r_Inr_iff split: if_splits sum.splits prod.splits)
  with st commit_items_effect [OF run] that show ?thesis by blast
qed

lemma import_inv_commit:
  assumes inv: "import_inv db c" and b: "b \<in> set (id_batches db)"
    and run: "commit H read valid save max_rows now usr b db = Inr db'"
  shows "import_inv db' (c @ [ib_id b])"
  using run
proof (rule commit_effect)
  fix items dbx
  assume st: "ib_status b = Imp_Validated" and bs: "id_batches dbx = id_batches db"
    and flags: "record_flags dbx = record_flags db"
    and db': "db' = save_batch (ib_id b) (\<lambda>r. r\<lparr>ib_status := Imp_Imported, ib_imported_at := Some now,
                 ib_valid := length (items :: prepared list)\<rparr>) dbx"
  have c: "ib_id b \<notin> set c" using inv_status [OF inv b] st by simp
  have same: "map ir_valid (records_of j dbx) = map ir_valid (records_of j db)" for j
    unfolding flags_of flags ..
  have "batch_ok dbx b" using inv b batch_ok_cong [OF same] by (auto simp: import_inv_def)
  then have ok: "batch_ok dbx (b\<lparr>ib_status := Imp_Imported, ib_imported_at := Some now, ib_valid := length items\<rparr>)"
    using st by (auto simp: batch_ok_def)
  have ids: "set (map ir_batch (id_records dbx)) = set (map ir_batch (id_records db))"
    using arg_cong [OF flags, of "map fst"] by (simp add: record_flags_def comp_def)
  show ?thesis
    unfolding db'
  proof (rule inv_save_batch [OF inv], goal_cases)
    case (6 b')
    then show ?case using ok same_batch [OF inv b, of b'] by simp
  next
    case 5
    then show ?case using ids by auto
  qed (use b bs c inv same in \<open>auto simp: import_inv_def\<close>)
qed

lemma import_inv_reach:
  assumes "import_reach H read valid save cap db c" "0 < cap"
  shows "import_inv db c"
  using assms
proof (induction rule: import_reach.induct)
  case (import_start db)
  then show ?case by (simp add: import_inv_def)
next
  case import_upload
  then show ?case by (blast intro: import_inv_upload)
next
  case import_validate
  then show ?case by (blast intro: import_inv_validate)
next
  case import_commit
  then show ?case by (blast intro: import_inv_commit)
qed

text \<open>Preparing looks at the identity, type, project and inspection of a batch, at nothing else.\<close>

lemma prepare_cong:
  assumes "ib_id b' = ib_id b" "ib_project b' = ib_project b" "ib_inspection b' = ib_inspection b"
    and "ib_record_type b' = ib_record_type b" "id_registry db' = id_registry db"
    and "id_sessions db' = id_sessions db" "id_inspections db' = id_inspections db"
  shows "prepare valid b' rows db' = prepare valid b rows db"
proof -
  have r: "group_record b' = group_record b"
    by (simp add: fun_eq_iff group_record_def assms(1))
  have g: "prepare_group valid reg ctx b' x = prepare_group valid reg ctx b x" for reg ctx x
    unfolding prepare_group_def r ..
  have "prepare_groups valid reg ctx b' gs = prepare_groups valid reg ctx b gs" for reg ctx gs
    by (induction gs) (simp_all add: g)
  moreover have "dropped_record b' = dropped_record b"
    by (simp add: dropped_record_def assms(1))
  moreover have "import_context_of b' db' = import_context_of b db"
    by (simp add: import_context_of_def assms)
  moreover have "record_types_for b' rows = record_types_for b rows"
    by (simp add: record_types_for_def assms(4))
  ultimately show ?thesis by (simp add: prepare_def assms(5))
qed

lemma parse_file_cong:
  assumes "ib_storage b' = ib_storage b" "ib_hash b' = ib_hash b" "ib_import_type b' = ib_import_type b"
    and "id_files db' = id_files db"
  shows "parse_file H read max_rows b' db' = parse_file H read max_rows b db"
  unfolding parse_file_def assms ..

lemma adopted_same: "ib_record_type b \<noteq> [] \<Longrightarrow> adopted_type b items = ib_record_type b"
  by (simp add: adopted_type_def split: list.splits)

section \<open>Properties\<close>

text \<open>
  The two import paths split alike. For rows that name an element and a test type, the
  wizard forms the same groups as the file path of telemetry and drops nothing when that path
  accepts the file; when that path refuses the file, the wizard drops first the very row that is
  refused, citing the same earlier block.
\<close>

theorem wizard_groups_as_telemetry:
  assumes "list_all (\<lambda>r. missing_required RT_UPV r = []) rows"
  shows "(case group_upv_rows rows of
      Inr gs \<Rightarrow> group_rows rows (map (\<lambda>_. ''UPV'') rows) = (map (\<lambda>g. (RT_UPV, snd g)) gs, [])
    | Inl (r, n) \<Rightarrow> \<exists>later. snd (group_rows rows (map (\<lambda>_. ''UPV'') rows)) = (r, ''UPV'', Two_Blocks n) # later)"
proof -
  have z: "zip rows (map (\<lambda>_. ''UPV'') rows) = map (\<lambda>r. (r, ''UPV'')) rows"
    by (induction rows) simp_all
  have u: "as_upv gs = map (\<lambda>g. (RT_UPV, snd g)) gs" for gs
    by (simp add: as_upv_def split_beta)
  show ?thesis
    using group_loops_agree [OF _ assms, of "[]" "[]"]
    by (simp add: group_upv_rows_def group_rows_def z keyed_def as_upv_def [of "[]"] u split: sum.splits prod.splits)
qed

theorem wizard_groups_as_telemetry_witness:
  "\<exists>later. snd (group_rows [demo_upv_row ''54'', (demo_upv_row ''54'')\<lparr>sr_data := [(''structural_element'', JStr ''C2''),
        (''test_type'', JStr ''CRACK'')]\<rparr>, demo_upv_row ''54''] [''UPV'', ''UPV'', ''UPV''])
     = (demo_upv_row ''54'', ''UPV'', Two_Blocks 2) # later"
proof -
  let ?rows = "[demo_upv_row ''54'', (demo_upv_row ''54'')\<lparr>sr_data := [(''structural_element'', JStr ''C2''),
        (''test_type'', JStr ''CRACK'')]\<rparr>, demo_upv_row ''54'']"
  have ok: "list_all (\<lambda>r. missing_required RT_UPV r = []) ?rows"
    by code_simp
  have run: "group_upv_rows ?rows = Inl (demo_upv_row ''54'', 2)"
    by code_simp
  show ?thesis
    using wizard_groups_as_telemetry [OF ok] unfolding run by simp
qed

text \<open>
  C17. A commit is all or nothing. If it succeeds, the batch was validated, the bytes in
  storage are the attested ones, every record of the file still passes, and the registry is
  what writing all their payloads in order makes of it, one new row for each. The batch is then
  imported and counts exactly those rows, and no other batch changes. A refusal, from whatever
  cause, yields no new state at all.
\<close>

theorem commit_all_or_nothing:
  assumes "commit H read valid save max_rows now usr b db = Inr db'"
  shows "\<exists>content rows skipped items errors pks. ib_status b = Imp_Validated
    \<and> map_of (id_files db) (ib_storage b) = Some content \<and> H content = ib_hash b
    \<and> read content (ib_import_type b) = Inr (rows, skipped)
    \<and> prepare valid b rows db = Inr (items, errors) \<and> list_all (\<lambda>p. ir_valid (pr_record p)) items
    \<and> save_all save usr items (id_registry db) = Some (pks, id_registry db') \<and> length pks = length items
    \<and> id_batches db' = update_where (\<lambda>x. ib_id x = ib_id b)
         (\<lambda>x. x\<lparr>ib_status := Imp_Imported, ib_imported_at := Some now, ib_valid := length pks\<rparr>) (id_batches db)"
  using assms
proof (rule commit_effect)
  fix rows sk items errs dbx pks
  assume st: "ib_status b = Imp_Validated" and parse: "parse_file H read max_rows b db = Inr (rows, sk)"
    and prep: "prepare valid b rows db = Inr (items, errs)" "list_all (\<lambda>p. ir_valid (pr_record p)) items"
    and saved: "save_all save usr items (id_registry db) = Some (pks, id_registry dbx)"
    and bs: "id_batches dbx = id_batches db"
    and db': "db' = save_batch (ib_id b) (\<lambda>r. r\<lparr>ib_status := Imp_Imported, ib_imported_at := Some now,
                 ib_valid := length items\<rparr>) dbx"
  from parse obtain content where
    "map_of (id_files db) (ib_storage b) = Some content" "H content = ib_hash b"
    "read content (ib_import_type b) = Inr (rows, sk)"
    by (auto simp: parse_file_def bind_r_Inr_iff split: option.splits sum.splits)
  moreover have "id_registry db' = id_registry dbx" by (simp add: db')
  moreover have "id_batches db' = update_where (\<lambda>x. ib_id x = ib_id b)
         (\<lambda>x. x\<lparr>ib_status := Imp_Imported, ib_imported_at := Some now, ib_valid := length pks\<rparr>) (id_batches db)"
    using save_all_length [OF saved] by (simp add: db' bs)
  ultimately show ?thesis using st prep saved save_all_length [OF saved] by auto
qed

text \<open>
  A file of one survey and one row of no type: the registry is the list of titles written. A
  second row can be left out.
\<close>

definition demo_survey_row :: source_row where
  "demo_survey_row = \<lparr>sr_number = 1, sr_data = [(''record_type'', JStr ''GPR''), (''survey_title'', JStr ''Slab'')]\<rparr>"

definition demo_stray_row :: source_row where
  "demo_stray_row = \<lparr>sr_number = 2, sr_data = [(''survey_area'', JStr ''B2'')]\<rparr>"

definition demo_reader :: reader where
  "demo_reader content ty =
     Inr (if content = ''one'' then [demo_survey_row] else [demo_survey_row, demo_stray_row], 0)"

definition demo_valid :: "payload list validator" where
  "demo_valid t p reg = None"

definition demo_save :: "payload list writer" where
  "demo_save t p s own reg = Inr (length reg, reg @ [p])"

definition demo_uploader :: acc_user where
  "demo_uploader = \<lparr>ac_id = 7, ac_first = ''Ada'', ac_last = [], ac_email = ''ada@x'', ac_active = True,
     ac_superuser = False, ac_profile = None\<rparr>"

definition demo_batch :: "string \<Rightarrow> import_status \<Rightarrow> nat \<Rightarrow> int option \<Rightarrow> int option \<Rightarrow> import_batch" where
  "demo_batch rty st n vat iat = \<lparr>ib_id = 1, ib_inspector = 7, ib_inspector_name = ''Ada'', ib_project = 4,
     ib_inspection = None, ib_import_type = ''CSV'', ib_record_type = rty, ib_file_name = ''f.csv'', ib_size = 3,
     ib_storage = ''k'', ib_hash = ''one'', ib_status = st, ib_errors = [], ib_truncated = False, ib_records = n,
     ib_valid = n, ib_invalid = 0, ib_skipped = 0, ib_validated_at = vat, ib_imported_at = iat\<rparr>"

definition demo_import_db :: "import_batch list \<Rightarrow> import_record list \<Rightarrow> payload list \<Rightarrow> payload list import_db" where
  "demo_import_db bs recs reg = \<lparr>id_batches = bs, id_records = recs,
     id_files = (if bs = [] then [] else [(''k'', ''one'')]), id_sessions = [], id_inspections = [], id_registry = reg\<rparr>"

definition demo_payload :: payload where
  "demo_payload = [(''project'', PId 4), (''title'', PText ''Slab''), (''survey_area'', PText []),
     (''structural_element'', PText []), (''notes'', PText [])]"

definition demo_record :: "(record_type \<times> nat) option \<Rightarrow> import_record" where
  "demo_record target = \<lparr>ir_batch = 1, ir_row = 1, ir_row_end = 1, ir_type = ''GPR'', ir_raw = [sr_data demo_survey_row],
     ir_data = demo_payload, ir_valid = True, ir_error = None, ir_target = target\<rparr>"

text \<open>The example after its upload, its validation and its commit, and after a second commit.\<close>

definition demo_uploaded :: "payload list import_db" where
  "demo_uploaded = demo_import_db [demo_batch ''GPR'' Imp_Pending 0 None None] [] []"

definition demo_validated :: "payload list import_db" where
  "demo_validated = demo_import_db [demo_batch ''GPR'' Imp_Validated 1 (Some 5) None] [demo_record None] []"

definition demo_committed :: "nat \<Rightarrow> payload list \<Rightarrow> payload list import_db" where
  "demo_committed n reg = demo_import_db [demo_batch ''GPR'' Imp_Imported 1 (Some 5) (Some 9)]
     [demo_record (Some (RT_GPR, n))] reg"

lemma demo_upload:
  "upload (\<lambda>s. s) 100 1 demo_uploader 4 [''one''] ''f.csv'' [] ''GPR'' None (''k'', ''one'') (demo_import_db [] [] [])
     = Inr (demo_batch ''GPR'' Imp_Pending 0 None None, True, demo_uploaded)"
proof -
  have w: "py_upper (py_strip ''GPR'') = ''GPR''" "py_upper (py_strip []) = []" "detect_import_type ''one'' = ''CSV''"
    "display_name demo_uploader = ''Ada''" "record_type_of ''GPR'' = Some RT_GPR"
    by code_simp+
  show ?thesis
    by (simp add: upload_def w Let_def demo_import_db_def first_where_def demo_uploaded_def demo_batch_def)
      (simp add: demo_uploader_def)
qed

lemma demo_parse:
  "ib_storage b = ''k'' \<Longrightarrow> ib_hash b = ''one'' \<Longrightarrow>
   parse_file (\<lambda>s. s) demo_reader 20000 b (demo_import_db [x] recs reg) = Inr ([demo_survey_row], 0)"
  by (simp add: parse_file_def demo_import_db_def demo_reader_def)

definition demo_item :: prepared where
  "demo_item = \<lparr>pr_record = demo_record None, pr_payload = demo_payload, pr_session = None\<rparr>"

lemma demo_groups: "group_rows [demo_survey_row] [''GPR''] = ([(RT_GPR, [demo_survey_row])], [])"
  by code_simp

lemma demo_built: "cx_project ctx = 4 \<Longrightarrow> build RT_GPR ctx [demo_survey_row] = Inr (demo_payload, None)"
proof -
  have "cell demo_survey_row ''survey_title'' = JStr ''Slab''" "py_strip ''Slab'' = ''Slab''"
    by code_simp+
  moreover have "cell demo_survey_row k = JNull" if "k \<noteq> ''survey_title''" "k \<noteq> ''record_type''" for k
    using that by (simp add: cell_def demo_survey_row_def dict_get_def)
  ultimately show "cx_project ctx = 4 \<Longrightarrow> ?thesis"
    by (simp add: build_def build_gpr_def text_of_def number_cell_def blank_def at_cell_def optional_def demo_payload_def)
qed

lemma demo_prepare:
  "prepare demo_valid (demo_batch ''GPR'' st n vat iat) [demo_survey_row] (demo_import_db bs recs reg)
     = Inr ([demo_item], [])"
proof -
  let ?b = "demo_batch ''GPR'' st n vat iat"
  have b: "ib_id ?b = 1" "ib_record_type ?b = ''GPR''" "ib_project ?b = 4" by (simp_all add: demo_batch_def)
  have ctx: "cx_project (import_context_of ?b (demo_import_db bs recs reg)) = 4"
    by (simp add: import_context_of_def b Let_def)
  have num: "sr_number demo_survey_row = 1" by (simp add: demo_survey_row_def)
  show ?thesis
    by (simp add: prepare_def record_types_for_def b demo_groups prepare_group_def demo_built [OF ctx] demo_valid_def
        group_record_def demo_item_def demo_record_def record_errors_def rt_name_def num)
qed

lemma demo_adopted: "adopted_type (demo_batch ''GPR'' st n vat iat) items = ''GPR''"
  by (subst adopted_same) (simp_all add: demo_batch_def)

lemma demo_validate:
  "validate (\<lambda>s. s) demo_reader demo_valid 200 20000 5 (demo_batch ''GPR'' Imp_Pending 0 None None) demo_uploaded
     = Inr demo_validated"
proof -
  define b where "b = demo_batch ''GPR'' Imp_Pending 0 None None"
  have p: "parse_file (\<lambda>s. s) demo_reader 20000 b demo_uploaded = Inr ([demo_survey_row], 0)"
    unfolding demo_uploaded_def by (rule demo_parse) (simp_all add: b_def demo_batch_def)
  have q: "prepare demo_valid b [demo_survey_row] demo_uploaded = Inr ([demo_item], [])"
    unfolding demo_uploaded_def b_def by (rule demo_prepare)
  have "ib_status b \<noteq> Imp_Imported" "ib_record_type b = ''GPR''" "ib_id b = 1" "adopted_type b [demo_item] = ''GPR''"
    by (simp_all add: b_def demo_adopted, simp_all add: demo_batch_def)
  then show ?thesis
    unfolding b_def [symmetric]
    by (simp add: validate_def p q Let_def)
      (simp add: save_batch_def drop_records_def demo_uploaded_def demo_import_db_def demo_validated_def validated_def
        demo_item_def demo_batch_def demo_record_def Let_def)
qed

lemma demo_commit:
  "id_batches db = [x] \<Longrightarrow> ib_id x = 1 \<Longrightarrow> db = demo_import_db [x] [demo_record target] reg \<Longrightarrow>
   commit (\<lambda>s. s) demo_reader demo_valid demo_save 20000 9 7 (demo_batch ''GPR'' Imp_Validated 1 (Some 5) None) db
     = Inr (demo_import_db [x\<lparr>ib_status := Imp_Imported, ib_imported_at := Some 9, ib_valid := 1\<rparr>]
              [demo_record (Some (RT_GPR, length reg))] (reg @ [demo_payload]))"
proof -
  define b where "b = demo_batch ''GPR'' Imp_Validated 1 (Some 5) None"
  assume x: "ib_id x = 1" and db: "db = demo_import_db [x] [demo_record target] reg"
  have p: "parse_file (\<lambda>s. s) demo_reader 20000 b db = Inr ([demo_survey_row], 0)"
    unfolding db by (rule demo_parse) (simp_all add: b_def demo_batch_def)
  have q: "prepare demo_valid b [demo_survey_row] db = Inr ([demo_item], [])"
    unfolding db b_def by (rule demo_prepare)
  have s: "ib_status b = Imp_Validated" "ib_id b = 1" "record_type_of ''GPR'' = Some RT_GPR"
    by (simp add: b_def demo_batch_def, simp add: b_def demo_batch_def, code_simp)
  have i: "ir_valid (pr_record demo_item)" "ir_type (pr_record demo_item) = ''GPR''" "pr_payload demo_item = demo_payload"
    by (simp_all add: demo_item_def demo_record_def)
  show ?thesis
    unfolding b_def [symmetric]
    by (simp add: commit_def can_commit_def p q s commit_item_def i demo_valid_def demo_save_def Let_def)
      (simp add: db demo_import_db_def mark_target_def save_batch_def demo_item_def demo_record_def x)
qed

lemma demo_commit_first:
  "commit (\<lambda>s. s) demo_reader demo_valid demo_save 20000 9 7 (demo_batch ''GPR'' Imp_Validated 1 (Some 5) None) demo_validated
     = Inr (demo_committed 0 [demo_payload])"
  by (subst demo_commit [where x = "demo_batch ''GPR'' Imp_Validated 1 (Some 5) None" and reg = "[]" and target = None])
    (simp_all add: demo_validated_def demo_import_db_def demo_batch_def demo_committed_def)

lemma demo_commit_second:
  "commit (\<lambda>s. s) demo_reader demo_valid demo_save 20000 9 7 (demo_batch ''GPR'' Imp_Validated 1 (Some 5) None)
       (demo_committed 0 [demo_payload])
     = Inr (demo_committed 1 [demo_payload, demo_payload])"
  by (subst demo_commit [where x = "demo_batch ''GPR'' Imp_Imported 1 (Some 5) (Some 9)" and reg = "[demo_payload]"
        and target = "Some (RT_GPR, 0)"])
    (simp_all add: demo_committed_def demo_import_db_def demo_batch_def)

theorem commit_all_or_nothing_witness:
  "length (id_registry (demo_committed 0 [demo_payload])) = 1
   \<and> (\<exists>pks. length pks = 1 \<and> id_batches (demo_committed 0 [demo_payload])
        = [demo_batch ''GPR'' Imp_Imported (length (pks :: nat list)) (Some 5) (Some 9)])"
proof -
  from commit_all_or_nothing [OF demo_commit_first] obtain items pks where
    "save_all demo_save 7 items (id_registry demo_validated) = Some (pks, id_registry (demo_committed 0 [demo_payload]))"
    "id_batches (demo_committed 0 [demo_payload]) = update_where (\<lambda>x. ib_id x = ib_id (demo_batch ''GPR'' Imp_Validated 1 (Some 5) None))
         (\<lambda>x. x\<lparr>ib_status := Imp_Imported, ib_imported_at := Some 9, ib_valid := length pks\<rparr>) (id_batches demo_validated)"
    by blast
  then show ?thesis
    by (intro conjI exI [of _ pks])
      (simp_all add: demo_committed_def demo_validated_def demo_import_db_def demo_batch_def)
qed

text \<open>
  C16. Along every run of uploads, validations and commits of stored batches: each batch is
  committed at most once, and is imported exactly when it was committed; its record count is the
  number of its stored records, valid plus invalid until it is imported; a failed batch says why;
  and a validated or imported batch has at least one record, no error and only valid records.
\<close>

theorem batches_imported_once:
  assumes "import_reach H read valid save cap db committed" "0 < cap"
  shows "distinct committed \<and> import_inv db committed"
  using import_inv_reach [OF assms] by (simp add: import_inv_def)

theorem batches_imported_once_witness:
  "import_inv (demo_committed 0 [demo_payload]) [1]"
proof -
  have fresh: "id_batches (demo_import_db [] [] []) = []" "id_records (demo_import_db [] [] []) = []"
    "1 \<notin> ib_id ` set (id_batches (demo_import_db [] [] []))"
    by (simp_all add: demo_import_db_def)
  have mem: "demo_batch ''GPR'' Imp_Pending 0 None None \<in> set (id_batches demo_uploaded)"
    "demo_batch ''GPR'' Imp_Validated 1 (Some 5) None \<in> set (id_batches demo_validated)"
    by (simp_all add: demo_uploaded_def demo_validated_def demo_import_db_def)
  note up = import_upload [OF import_start [OF fresh(1,2)] fresh(3) demo_upload,
      where read = demo_reader and valid = demo_valid and save = demo_save and cap = 200]
  note run = import_commit [OF import_validate [OF up mem(1) demo_validate] mem(2) demo_commit_first]
  show ?thesis using batches_imported_once [OF run] by (simp add: demo_batch_def)
qed

text \<open>
  Validation replaces its records. For a batch that declares its record type, validating
  the stored batch again, at the same instant, changes nothing: neither the batch nor its
  records nor the registry.
\<close>

theorem validate_idempotent:
  assumes "validate H read valid cap max_rows now b db = Inr db1"
    and "b \<in> set (id_batches db)" "distinct (map ib_id (id_batches db))" "ib_record_type b \<noteq> []"
    and "b1 \<in> set (id_batches db1)" "ib_id b1 = ib_id b"
  shows "validate H read valid cap max_rows now b1 db1 = Inr db1 \<and> id_registry db1 = id_registry db"
proof -
  have only: "b' = b" if "b' \<in> set (id_batches db)" "ib_id b' = ib_id b" for b'
    using assms(2,3) that by (auto simp: distinct_map inj_on_def)
  have st: "ib_status b \<noteq> Imp_Imported" using assms(1) by (auto simp: validate_def)
  have upd: "update_where (\<lambda>x. ib_id x = k) f (update_where (\<lambda>x. ib_id x = k) f rows)
      = update_where (\<lambda>x. ib_id x = k) f rows"
    if "\<And>x. ib_id (f x) = ib_id x" "\<And>x. f (f x) = f x" for f :: "import_batch \<Rightarrow> import_batch" and k rows
    using that by (simp add: update_where_def)
  have row: "b1 = f b" if "id_batches db1 = update_where (\<lambda>x. ib_id x = ib_id b) f (id_batches db)"
    "\<And>x. ib_id (f x) = ib_id x" for f
    using assms(5,6) only that by (auto simp: update_where_def split: if_splits)
  show ?thesis
  proof (cases "parse_file H read max_rows b db")
    case (Inl e)
    let ?f = "\<lambda>b :: import_batch. b\<lparr>ib_records := 0, ib_valid := 0, ib_invalid := 0, ib_errors := take cap [File_Error e],
        ib_truncated := (cap < length [File_Error e]), ib_validated_at := Some now, ib_status := Imp_Failed\<rparr>"
    from Inl st assms(1) have db1: "db1 = save_batch (ib_id b) ?f (drop_records (ib_id b) db)"
      by (simp add: validate_def finish_failed_def)
    have b1: "b1 = ?f b" by (rule row) (simp_all add: db1)
    have "parse_file H read max_rows b1 db1 = Inl e"
      unfolding Inl [symmetric] by (rule parse_file_cong) (simp_all add: b1 db1)
    then have "validate H read valid cap max_rows now b1 db1
        = Inr (save_batch (ib_id b) ?f (drop_records (ib_id b) db1))"
      by (simp add: validate_def finish_failed_def b1)
    moreover have "save_batch (ib_id b) ?f (drop_records (ib_id b) db1) = db1"
      unfolding db1 save_batch_def drop_records_def using upd [of ?f "ib_id b" "id_batches db"] by simp
    ultimately show ?thesis by (simp add: db1)
  next
    case (Inr p)
    obtain rows sk where p: "p = (rows, sk)" by (cases p)
    from assms(1) st Inr p obtain items errors where prep: "prepare valid b rows db = Inr (items, errors)"
      by (cases "prepare valid b rows db") (auto simp: validate_def)
    let ?f = "\<lambda>r. (validated cap now sk items errors r)\<lparr>ib_record_type := ib_record_type r\<rparr>"
    let ?db = "\<lambda>d. drop_records (ib_id b) d\<lparr>id_records := id_records (drop_records (ib_id b) d) @ map pr_record items\<rparr>"
    from assms(1) st Inr p prep have db1: "db1 = save_batch (ib_id b) ?f (?db db)"
      by (simp add: validate_def Let_def adopted_same [OF assms(4)])
    have b1: "b1 = ?f b" by (rule row) (simp_all add: db1 validated_def Let_def)
    have keep: "ib_id b1 = ib_id b" "ib_project b1 = ib_project b" "ib_inspection b1 = ib_inspection b"
      "ib_record_type b1 = ib_record_type b" "ib_storage b1 = ib_storage b" "ib_hash b1 = ib_hash b"
      "ib_import_type b1 = ib_import_type b" "ib_status b1 \<noteq> Imp_Imported"
      by (simp_all add: b1 validated_def Let_def)
    have "parse_file H read max_rows b1 db1 = Inr (rows, sk)"
      unfolding Inr [unfolded p, symmetric] by (rule parse_file_cong) (simp_all add: keep db1)
    moreover have "prepare valid b1 rows db1 = Inr (items, errors)"
      unfolding prep [symmetric] by (rule prepare_cong) (simp_all add: keep db1)
    moreover have "adopted_type b1 items = ib_record_type b1"
      by (rule adopted_same) (simp add: keep assms(4))
    ultimately have "validate H read valid cap max_rows now b1 db1 = Inr (save_batch (ib_id b) ?f (?db db1))"
      using keep by (simp add: validate_def Let_def)
    moreover have "?f (?f x) = ?f x" for x by (simp add: validated_def Let_def)
    moreover have "filter (\<lambda>r. ir_batch r \<noteq> ib_id b) (map pr_record items) = []"
      using prepare_items(1) [OF prep] by (auto simp: filter_empty_conv list_all_iff item_ok_def)
    ultimately show ?thesis
      unfolding db1 save_batch_def drop_records_def
      using upd [of ?f "ib_id b" "id_batches db"] by (simp add: validated_def Let_def)
  qed
qed

theorem validate_idempotent_witness:
  "validate (\<lambda>s. s) demo_reader demo_valid 200 20000 5 (demo_batch ''GPR'' Imp_Validated 1 (Some 5) None) demo_validated
     = Inr demo_validated"
  by (rule validate_idempotent [OF demo_validate, THEN conjunct1])
    (simp_all add: demo_uploaded_def demo_validated_def demo_import_db_def demo_batch_def)

text \<open>
  Two requests to commit one batch, each having loaded it before the other finished, both
  succeed and write every row twice: the check is on the loaded batch, nothing locks the row and
  the saved status is not compared.
\<close>

theorem stale_commit_imports_twice:
  "commit (\<lambda>s. s) demo_reader demo_valid demo_save 20000 9 7 (demo_batch ''GPR'' Imp_Validated 1 (Some 5) None) demo_validated
     = Inr (demo_committed 0 [demo_payload])
   \<and> commit (\<lambda>s. s) demo_reader demo_valid demo_save 20000 9 7 (demo_batch ''GPR'' Imp_Validated 1 (Some 5) None)
       (demo_committed 0 [demo_payload])
     = Inr (demo_committed 1 [demo_payload, demo_payload])"
  by (intro conjI demo_commit_first demo_commit_second)

text \<open>
  A batch without a declared type adopts the only type its valid rows have, so a second
  validation of the same file reports its stray row under another type and for another reason.
\<close>

lemma validate_twice_differs:
  "record_types_for (demo_batch [] st n vat iat) [demo_survey_row, demo_stray_row] = [''GPR'', []]"
  "group_rows [demo_survey_row, demo_stray_row] [''GPR'', []]
     = ([(RT_GPR, [demo_survey_row])], [(demo_stray_row, [], Type_Not_Importable [])])"
  "group_rows [demo_survey_row, demo_stray_row] [''GPR'', ''GPR'']
     = ([(RT_GPR, [demo_survey_row])], [(demo_stray_row, ''GPR'', Required_Missing [''SURVEY TITLE''] RT_GPR)])"
  by code_simp+

end
