(* ===== verification/Telemetry_Files.thy ===== *)
theory Telemetry_Files
  imports Import_Registry
begin

text \<open>
  Captures that arrive as files: the reading of an export into packets,
  \<^verbatim>\<open>apps/telemetry/export_import.py\<close>, and the regrouping of a capture's packets into tests
  at promotion, \<^verbatim>\<open>_promote_pundit\<close> in \<^verbatim>\<open>apps/telemetry/services.py\<close>. \<open>fr\<close> is
  the \<^verbatim>\<open>repr\<close> of a float. Packets are JSON objects; the rows of the file come from the readers
  of \<^verbatim>\<open>apps/data_import/readers.py\<close>, which are not modelled.
\<close>

section \<open>Rows and columns\<close>

definition context_key :: "string \<Rightarrow> bool" where
  "context_key k \<longleftrightarrow> k \<in> set upv_context_keys"

definition unknown_columns :: "source_row list \<Rightarrow> string list" where
  "unknown_columns rows =
     sort (remdups (filter (\<lambda>k. k \<notin> set (upv_measurement_keys @ upv_context_keys))
       (concat (map (\<lambda>r. map fst (filter (\<lambda>(k, v). k \<noteq> [] \<and> \<not> blank v) (sr_data r))) rows))))"

text \<open>The values given with the upload fill gaps; a cell that is not blank wins.\<close>

definition merge_row :: "dict \<Rightarrow> source_row \<Rightarrow> source_row" where
  "merge_row config r =
     r\<lparr>sr_data := dict_merge (filter (\<lambda>(k, _). context_key k) config) (filter (\<lambda>(_, v). \<not> blank v) (sr_data r))\<rparr>"

definition merge_context :: "source_row list \<Rightarrow> dict \<Rightarrow> source_row list" where
  "merge_context rows config = map (merge_row config) rows"

section \<open>From rows to packets\<close>

fun pval_json :: "(fval \<Rightarrow> string) \<Rightarrow> pval \<Rightarrow> json" where
  "pval_json fr (PText s) = JStr s"
| "pval_json fr (PNum x) = JFloat (fr x)"
| "pval_json fr (PInt i) = JInt i"
| "pval_json fr (PBool b) = JBool b"
| "pval_json fr (PId n) = JStr (show_nat n)"
| "pval_json fr (PReadings rs) = JArr (map (\<lambda>r. JObj (map (\<lambda>(k, v). (k, pval_json fr v)) r)) rs)"

definition payload_json :: "(fval \<Rightarrow> string) \<Rightarrow> payload \<Rightarrow> dict" where
  "payload_json fr p = map (\<lambda>(k, v). (k, pval_json fr v)) p"

type_synonym capture_test = "dict \<times> dict list"

text \<open>The context and the readings of a built test.\<close>

definition test_of_payload :: "(fval \<Rightarrow> string) \<Rightarrow> payload \<Rightarrow> capture_test" where
  "test_of_payload fr p =
     (payload_json fr (filter (\<lambda>(k, _). context_key k) p),
      (case map_of p ''readings'' of Some (PReadings rs) \<Rightarrow> map (payload_json fr) rs | _ \<Rightarrow> []))"

datatype file_refusal =
    Unsupported_Type string
  | No_Rows nat
  | Unknown_Columns "string list"
  | Test_Type_Required
  | Separate_Blocks source_row nat
  | Row_Refused row_error
  | No_Readings
  | Folder_In_Use string
  | File_Exception

fun build_tests ::
    "(fval \<Rightarrow> string) \<Rightarrow> import_context \<Rightarrow> upv_group list \<Rightarrow> file_refusal + capture_test list" where
  "build_tests fr ctx [] = Inr []"
| "build_tests fr ctx ((k, rows) # gs) =
     (case build_upv ctx rows of
        Inl Unhandled \<Rightarrow> Inl File_Exception
      | Inl e \<Rightarrow> Inl (Row_Refused e)
      | Inr p \<Rightarrow>
          (let t = test_of_payload fr p
           in bind_r (check (snd t \<noteq> []) No_Readings) (\<lambda>_.
              bind_r (build_tests fr ctx gs) (\<lambda>ts. Inr (t # ts)))))"

definition packets_of :: "capture_test list \<Rightarrow> dict list" where
  "packets_of ts = concat (map (\<lambda>(c, rs). map (dict_merge c) rs) ts)"

text \<open>What all tests of the file agree on.\<close>

fun shared_context :: "capture_test list \<Rightarrow> dict" where
  "shared_context [] = []"
| "shared_context [t] = fst t"
| "shared_context (t # u # ts) = shared_context ((filter (\<lambda>(k, v). map_of (fst u) k = Some v) (fst t), snd u) # ts)"

section \<open>Creating the session\<close>

text \<open>What a file session is created with; its packets are appended at positions 1, 2, ...\<close>

record file_session =
  fs_config :: dict
  fs_reference :: "string option"
  fs_packets :: "(nat \<times> dict) list"
  fs_rows :: nat
  fs_skipped :: nat
  fs_tests :: nat

text \<open>
  \<open>read_result\<close> is what the readers made of the bytes, \<open>taken\<close> the references in use. A
  resend of stored bytes is answered before this and is not part of it.
\<close>

definition create_from_file ::
    "(fval \<Rightarrow> string) \<Rightarrow> import_context \<Rightarrow> string \<Rightarrow> source_row list \<times> nat \<Rightarrow> dict \<Rightarrow> string option
     \<Rightarrow> string list \<Rightarrow> file_refusal + file_session" where
  "create_from_file fr ctx data_type read_result config folder_name taken =
     bind_r (check (data_type = ''pundit'') (Unsupported_Type data_type)) (\<lambda>_.
     let (rows, skipped) = read_result in
     bind_r (check (rows \<noteq> []) (No_Rows skipped)) (\<lambda>_.
     bind_r (check (unknown_columns rows = []) (Unknown_Columns (unknown_columns rows))) (\<lambda>_.
     let merged = merge_context rows config in
     bind_r (check (py_strip (py_str (json_or (cell (hd merged) ''test_type'') (JStr []))) \<noteq> []) Test_Type_Required) (\<lambda>_.
     case group_upv_rows merged of
       Inl (r, n) \<Rightarrow> Inl (Separate_Blocks r n)
     | Inr groups \<Rightarrow>
         bind_r (build_tests fr ctx groups) (\<lambda>tests.
         let packets = packets_of tests; config' = dict_merge config (shared_context tests);
             strategy = dict_get (dict_default ''injection_strategy'' (JStr ''append'') config') ''injection_strategy'';
             folder = (if strategy \<noteq> JStr ''new_folder'' then []
                       else or_default (or_empty folder_name)
                              (case dict_get config' ''folder_name'' of JStr s \<Rightarrow> py_strip s | _ \<Rightarrow> []))
         in bind_r (check (packets \<noteq> []) No_Readings) (\<lambda>_.
            bind_r (check (folder = [] \<or> folder \<notin> set taken) (Folder_In_Use folder)) (\<lambda>_.
            Inr \<lparr>fs_config = config', fs_reference = (if folder = [] then None else Some folder),
                 fs_packets = zip [1..<Suc (length packets)] packets, fs_rows = length rows, fs_skipped = skipped,
                 fs_tests = length groups\<rparr>)))))))"

section \<open>Regrouping at promotion\<close>

text \<open>The items of a packet's context, in the order of their keys.\<close>

definition packet_context :: "bool \<Rightarrow> dict \<Rightarrow> dict" where
  "packet_context regroup payload =
     (if regroup then sort_key fst (filter (\<lambda>(k, _). context_key k) payload) else [])"

fun regroup_loop :: "bool \<Rightarrow> capture_test list \<Rightarrow> dict list \<Rightarrow> capture_test list" where
  "regroup_loop regroup groups [] = groups"
| "regroup_loop regroup groups (p # ps) =
     (if groups \<noteq> [] \<and> fst (last groups) = packet_context regroup p
      then regroup_loop regroup (butlast groups @ [(fst (last groups), snd (last groups) @ [p])]) ps
      else regroup_loop regroup (groups @ [(packet_context regroup p, [p])]) ps)"

definition packet_reading :: "dict \<Rightarrow> dict" where
  "packet_reading payload = dict_default ''point_label'' (JStr []) (filter (\<lambda>(k, _). \<not> context_key k) payload)"

definition promotion_groups :: "bool \<Rightarrow> dict list \<Rightarrow> capture_test list" where
  "promotion_groups regroup packets =
     map (\<lambda>(c, ps). (c, map packet_reading ps)) (regroup_loop regroup [] packets)"

text \<open>A file session from before the packets carried a context repeats its point labels.\<close>

definition packet_label :: "dict \<Rightarrow> string" where
  "packet_label p = (case json_or (dict_get p ''point_label'') (JStr []) of JStr s \<Rightarrow> py_upper (py_strip s) | _ \<Rightarrow> [])"

definition degenerate :: "bool \<Rightarrow> capture_test list \<Rightarrow> bool" where
  "degenerate regroup groups \<longleftrightarrow>
     (case groups of
        [(c, ps)] \<Rightarrow> regroup \<and> c = [] \<and> length ps > 1
          \<and> length ps \<noteq> length (remdups (filter (\<lambda>l. l \<noteq> []) (map packet_label ps)))
      | _ \<Rightarrow> False)"

text \<open>Reading the stored file again; any failure means that it cannot be recovered.\<close>

definition reparse_file_packets ::
    "(fval \<Rightarrow> string) \<Rightarrow> import_context \<Rightarrow> dict \<Rightarrow> source_row list option \<Rightarrow> capture_test list option" where
  "reparse_file_packets fr ctx config stored = (case stored of
      None \<Rightarrow> None
    | Some rows \<Rightarrow>
        if rows = [] then None
        else (case group_upv_rows (merge_context rows config) of
           Inl _ \<Rightarrow> None
         | Inr groups \<Rightarrow>
             (let built = map (\<lambda>g. build_upv ctx (snd g)) groups
              in if list_all is_ok built \<and> groups \<noteq> []
                 then Some (map (\<lambda>b. case b of Inr p \<Rightarrow> test_of_payload fr p | Inl _ \<Rightarrow> ([], [])) built)
                 else None)))"

definition promote_pundit ::
    "(fval \<Rightarrow> string) \<Rightarrow> import_context \<Rightarrow> bool \<Rightarrow> dict \<Rightarrow> dict list \<Rightarrow> source_row list option \<Rightarrow> capture_test list" where
  "promote_pundit fr ctx from_file config packets stored =
     (if degenerate from_file (regroup_loop from_file [] packets)
      then (case reparse_file_packets fr ctx config stored of
              Some ts \<Rightarrow> ts | None \<Rightarrow> promotion_groups from_file packets)
      else promotion_groups from_file packets)"

section \<open>What each test is created with\<close>

text \<open>Which of the registry's tests, a project and an element each, the strategy removes first.\<close>

definition strategy_of :: "dict \<Rightarrow> json" where
  "strategy_of config = dict_get (dict_default ''injection_strategy'' (JStr ''append'') config) ''injection_strategy''"

definition removed_tests ::
    "nat option \<Rightarrow> dict \<Rightarrow> capture_test list \<Rightarrow> (nat option \<times> json) list \<Rightarrow> (nat option \<times> json) list" where
  "removed_tests project config groups registry =
     (if json_truthy (dict_get config ''clear_folder'')
      then (if project = None then [] else filter (\<lambda>t. fst t = project) registry)
      else if strategy_of config = JStr ''override''
      then (let elements = filter json_truthy (map (\<lambda>(c, _). dict_get (dict_merge config c) ''structural_element'') groups)
            in filter (\<lambda>t. elements \<noteq> [] \<and> fst t = project \<and> snd t \<in> set elements) registry)
      else [])"

definition test_input :: "string \<Rightarrow> nat option \<Rightarrow> nat option \<Rightarrow> dict \<Rightarrow> capture_test \<Rightarrow> dict" where
  "test_input reference project device config = (\<lambda>(context, readings).
     (let id = (\<lambda>k. case k of None \<Rightarrow> JNull | Some n \<Rightarrow> JStr (show_nat n));
          folder = (case json_or (dict_get config ''folder_name'') (json_or (dict_get config ''test_location'') (JStr [])) of
                      JStr s \<Rightarrow> py_strip s | _ \<Rightarrow> []);
          tc = dict_merge config context;
          tc1 = (if strategy_of config = JStr ''new_folder''
                 then (if folder \<noteq> [] then dict_put ''test_location'' (JStr folder) tc
                       else if json_truthy (dict_get tc ''structural_element'')
                       then dict_put ''structural_element'' (JStr (py_str (dict_get tc ''structural_element'') @ '' (New)'')) tc
                       else tc)
                 else if \<not> json_truthy (dict_get tc ''test_location'') \<and> json_truthy (dict_get config ''test_location'')
                 then dict_put ''test_location'' (dict_get config ''test_location'') tc
                 else tc);
          tc2 = dict_default ''structural_element'' (JStr (''Telemetry capture '' @ reference)) tc1
      in dict_merge tc2
           [(''project'', id project), (''device'', id device), (''latitude'', dict_get config ''latitude''),
            (''longitude'', dict_get config ''longitude''),
            (''location_address'', json_or (dict_get config ''location_address'') (JStr [])),
            (''readings'', JArr (map (\<lambda>r. JObj (dict_default ''point_label'' (JStr []) r)) readings))]))"

section \<open>Regrouping undoes the split\<close>

text \<open>A test as the importer builds it: a context of context keys, readings of other keys.\<close>

definition proper_test :: "capture_test \<Rightarrow> bool" where
  "proper_test = (\<lambda>(c, rs). rs \<noteq> [] \<and> list_all (\<lambda>(k, _). context_key k) c
     \<and> list_all (\<lambda>r. distinct (map fst r) \<and> list_all (\<lambda>(k, _). \<not> context_key k) r) rs)"

definition adjacent_differ :: "capture_test list \<Rightarrow> bool" where
  "adjacent_differ ts \<longleftrightarrow> successively (\<lambda>t u. sort_key fst (fst t) \<noteq> sort_key fst (fst u)) ts"

lemma dict_put_new: "k \<notin> fst ` set d \<Longrightarrow> dict_put k v d = d @ [(k, v)]"
  by (induction d) auto

lemma dict_merge_disjoint:
  "distinct (map fst e) \<Longrightarrow> fst ` set d \<inter> fst ` set e = {} \<Longrightarrow> dict_merge d e = d @ e"
proof (induction e arbitrary: d)
  case (Cons p e)
  obtain k v where p: "p = (k, v)" by (cases p)
  with Cons.prems have "dict_put k v d = d @ [(k, v)]" by (intro dict_put_new) auto
  moreover have "dict_merge (d @ [(k, v)]) e = (d @ [(k, v)]) @ e"
    by (rule Cons.IH) (use Cons.prems p in auto)
  ultimately show ?case by (simp add: p dict_merge_def)
qed (simp add: dict_merge_def)

lemma proper_packet:
  assumes "proper_test (c, rs)" "r \<in> set rs"
  shows "packet_context True (dict_merge c r) = sort_key fst c"
    and "packet_reading (dict_merge c r) = dict_default ''point_label'' (JStr []) r"
proof -
  from assms have c: "\<And>k v. (k, v) \<in> set c \<Longrightarrow> context_key k" and r: "distinct (map fst r)"
    and n: "\<And>k v. (k, v) \<in> set r \<Longrightarrow> \<not> context_key k"
    by (auto simp: proper_test_def list_all_iff)
  have "fst ` set c \<inter> fst ` set r = {}" using c n by fastforce
  then have "dict_merge c r = c @ r" using r by (intro dict_merge_disjoint)
  moreover have "filter (\<lambda>(k, _). context_key k) c = c" "filter (\<lambda>(k, _). context_key k) r = []"
    "filter (\<lambda>(k, _). \<not> context_key k) c = []" "filter (\<lambda>(k, _). \<not> context_key k) r = r"
    using c n by (auto simp: filter_id_conv filter_empty_conv)
  ultimately show "packet_context True (dict_merge c r) = sort_key fst c"
    "packet_reading (dict_merge c r) = dict_default ''point_label'' (JStr []) r"
    by (simp_all add: packet_context_def packet_reading_def)
qed

lemma regroup_block:
  assumes "\<And>p. p \<in> set ps \<Longrightarrow> packet_context b p = k"
  shows "regroup_loop b (acc @ [(k, qs)]) (ps @ rest) = regroup_loop b (acc @ [(k, qs @ ps)]) rest"
  using assms
proof (induction ps arbitrary: qs)
  case (Cons p ps)
  then show ?case using Cons.IH [of "qs @ [p]"] by simp
qed simp

definition packed :: "capture_test \<Rightarrow> capture_test" where
  "packed = (\<lambda>(c, rs). (sort_key fst c, map (dict_merge c) rs))"

lemma regroup_packets:
  assumes "list_all proper_test ts" "adjacent_differ ts"
    and "acc \<noteq> [] \<Longrightarrow> ts \<noteq> [] \<Longrightarrow> fst (last acc) \<noteq> sort_key fst (fst (hd ts))"
  shows "regroup_loop True acc (packets_of ts) = acc @ map packed ts"
  using assms
proof (induction ts arbitrary: acc)
  case Nil
  then show ?case by (simp add: packets_of_def)
next
  case (Cons t ts)
  obtain c rs where t: "t = (c, rs)" by (cases t)
  with Cons.prems(1) obtain r rs' where rs: "rs = r # rs'" by (cases rs) (auto simp: proper_test_def)
  have ctx: "packet_context True (dict_merge c x) = sort_key fst c" if "x \<in> set rs" for x
    using proper_packet(1) [of c rs x] Cons.prems(1) t that by simp
  have "regroup_loop True acc (packets_of (t # ts))
      = regroup_loop True (acc @ [(sort_key fst c, [dict_merge c r])]) (map (dict_merge c) rs' @ packets_of ts)"
    using Cons.prems(3) ctx [of r] by (auto simp: t rs packets_of_def)
  also have "\<dots> = regroup_loop True (acc @ [(sort_key fst c, [dict_merge c r] @ map (dict_merge c) rs')]) (packets_of ts)"
    by (rule regroup_block) (use ctx rs in auto)
  also have "\<dots> = regroup_loop True (acc @ [packed t]) (packets_of ts)"
    by (simp add: packed_def t rs)
  also have "\<dots> = (acc @ [packed t]) @ map packed ts"
    using Cons.prems by (intro Cons.IH) (auto simp: adjacent_differ_def packed_def t neq_Nil_conv successively_Cons)
  finally show ?case by simp
qed

text \<open>What the builder gives is proper.\<close>

lemma build_reading_keys:
  assumes "build_reading tt r = Inr rd"
  shows "distinct (map fst rd) \<and> list_all (\<lambda>k. \<not> context_key k) (map fst rd)"
proof -
  have keys: "map fst (nonblank k s) = (if s = [] then [] else [k])" "map fst (optional k f x) = (if x = None then [] else [k])"
    for k s and f :: "'b \<Rightarrow> pval" and x
    by (simp_all add: nonblank_def optional_def split: option.splits)
  from assms obtain m rb where
    m: "map fst m \<in> {[''path_length_mm'', ''transit_time_us''],
        [''path_length_mm'', ''transit_time_us'', ''uncracked_transit_time_us''], [''surface_condition'']}"
    and rd: "rd = nonblank ''point_label'' (text_of (cell r ''point'')) @ m @ optional ''rebound_number'' PNum rb
           @ nonblank ''notes'' (text_of (cell r ''notes''))"
    by (rule build_reading_shape) (rule that [rotated], assumption, auto split: if_splits option.splits)
  have free: "\<not> context_key k" if "k \<in> set [''point_label'', ''path_length_mm'', ''transit_time_us'',
      ''uncracked_transit_time_us'', ''surface_condition'', ''rebound_number'', ''notes'']" for k
    using that by (auto simp: context_key_def upv_context_keys_def)
  show ?thesis
    using m unfolding rd by (auto simp: keys free)
qed

lemma build_readings_keys:
  "build_readings tt rows = Inr rds \<Longrightarrow>
   list_all (\<lambda>rd. distinct (map fst rd) \<and> list_all (\<lambda>k. \<not> context_key k) (map fst rd)) rds"
  by (induction rows arbitrary: rds) (auto simp: bind_r_Inr_iff build_reading_keys)

lemma payload_json_keys [simp]: "map fst (payload_json fr p) = map fst p"
  by (simp add: payload_json_def comp_def split_beta)

lemma payload_json_all: "list_all (\<lambda>x. P (fst x)) (payload_json fr p) = list_all (\<lambda>x. P (fst x)) p"
  by (induction p) (auto simp: payload_json_def)

lemma list_all_keys: "list_all (\<lambda>(k, _). P k) xs = list_all P (map fst xs)"
  by (induction xs) auto

lemma build_upv_test:
  assumes "build_upv ctx rows = Inr p"
  shows "proper_test (test_of_payload fr p) \<and> fst (test_of_payload fr p) \<noteq> []
    \<and> length (snd (test_of_payload fr p)) = length rows"
proof -
  from assms obtain first rest where rows: "rows = first # rest"
    by (cases rows) (simp_all add: build_upv_def)
  from assms obtain tt readings tr freq where
    b: "build_readings tt rows = Inr readings"
    and p: "p = [(''project'', PId (cx_project ctx)), (''test_type'', PText tt),
            (''structural_element'', PText (text_of (cell first ''structural_element''))),
            (''floor'', PText (text_of (cell first ''floor''))),
            (''test_location'', PText (text_of (cell first ''test_location''))),
            (''weather_condition'', PText (text_of (cell first ''weather_condition''))),
            (''readings'', PReadings readings)]
           @ nonblank ''transducer_type'' tr @ optional ''transducer_frequency_khz'' PInt freq"
    unfolding build_upv_def rows list.case bind_r_Inr_iff by auto
  have snd: "snd (test_of_payload fr p) = map (payload_json fr) readings"
    by (simp add: test_of_payload_def p)
  have "context_key ''test_type''" by (simp add: context_key_def upv_context_keys_def)
  then have ne: "fst (test_of_payload fr p) \<noteq> []"
    by (auto simp: test_of_payload_def p payload_json_def)
  have "list_all context_key (map fst (fst (test_of_payload fr p)))"
    by (auto simp: test_of_payload_def list_all_iff)
  moreover have "map (payload_json fr) readings \<noteq> []" "length readings = length rows"
    using build_readings_length [OF b] rows by auto
  moreover have "list_all (\<lambda>r. distinct (map fst r) \<and> list_all (\<lambda>(k, _). \<not> context_key k) r) (map (payload_json fr) readings)"
    unfolding list_all_keys using build_readings_keys [OF b]
    by (simp add: list.pred_map comp_def payload_json_all [where P = "\<lambda>k. \<not> context_key k"])
  ultimately have "proper_test (fst (test_of_payload fr p), snd (test_of_payload fr p))"
    unfolding proper_test_def snd list_all_keys by simp
  then have "proper_test (test_of_payload fr p)" by (simp only: prod.collapse)
  with ne snd \<open>length readings = length rows\<close> show ?thesis by simp
qed

lemma build_tests_proper:
  "build_tests fr ctx groups = Inr tests \<Longrightarrow>
   list_all proper_test tests \<and> list_all (\<lambda>t. fst t \<noteq> []) tests \<and> length tests = length groups
   \<and> length (packets_of tests) = length (concat (map snd groups))"
proof (induction groups arbitrary: tests)
  case (Cons g groups)
  obtain k rows where g: "g = (k, rows)" by (cases g)
  with Cons.prems obtain p ts where p: "build_upv ctx rows = Inr p" and ts: "build_tests fr ctx groups = Inr ts"
    and tests: "tests = test_of_payload fr p # ts"
    by (auto simp: bind_r_Inr_iff Let_def split: sum.splits row_error.splits)
  have "length (packets_of tests) = length (snd (test_of_payload fr p)) + length (packets_of ts)"
    by (simp add: packets_of_def tests split_beta)
  then show ?case
    using Cons.IH [OF ts] build_upv_test [OF p, of fr] by (simp add: tests g)
qed (simp add: packets_of_def)

lemma create_from_file_built:
  assumes "create_from_file fr ctx data_type (rows, skipped) config folder taken = Inr fs"
  obtains groups tests where "group_upv_rows (merge_context rows config) = Inr groups"
    "build_tests fr ctx groups = Inr tests" "map snd (fs_packets fs) = packets_of tests"
    "fs_tests fs = length groups" "fs_config fs = dict_merge config (shared_context tests)"
    "list_all (\<lambda>k. k \<in> set (upv_measurement_keys @ upv_context_keys))
       (concat (map (\<lambda>r. map fst (filter (\<lambda>(k, v). k \<noteq> [] \<and> \<not> blank v) (sr_data r))) rows))"
proof -
  from assms obtain groups tests where
    "unknown_columns rows = []" "group_upv_rows (merge_context rows config) = Inr groups"
    "build_tests fr ctx groups = Inr tests" "fs_packets fs = zip [1..<Suc (length (packets_of tests))] (packets_of tests)"
    "fs_tests fs = length groups" "fs_config fs = dict_merge config (shared_context tests)"
    unfolding create_from_file_def Let_def
    by (auto simp: bind_r_Inr_iff split: sum.splits prod.splits)
  moreover from this(1) have "list_all (\<lambda>k. k \<in> set (upv_measurement_keys @ upv_context_keys))
       (concat (map (\<lambda>r. map fst (filter (\<lambda>(k, v). k \<noteq> [] \<and> \<not> blank v) (sr_data r))) rows))"
    unfolding unknown_columns_def by (simp add: list_all_iff filter_empty_conv)
  ultimately show ?thesis by (intro that) (simp_all add: map_snd_zip del: upt_Suc)
qed

lemma not_degenerate:
  "list_all (\<lambda>t. fst t \<noteq> []) ts \<Longrightarrow> \<not> degenerate b (map packed ts)"
  by (cases ts rule: remdups_adj.cases) (auto simp: degenerate_def packed_def split_beta)

section \<open>Properties\<close>

text \<open>
  C19. Promotion undoes the split. A file that is accepted holds known columns only, is split
  into tests once, and becomes one packet per row. As long as neighbouring tests of the file
  differ in some context value, regrouping its packets at promotion gives back exactly those tests, in order,
  each with its context and its readings, whatever has become of the stored file.
\<close>

theorem promotion_restores_tests:
  assumes "create_from_file fr ctx data_type (rows, skipped) config folder taken = Inr fs"
  shows "\<exists>groups tests. group_upv_rows (merge_context rows config) = Inr groups
    \<and> build_tests fr ctx groups = Inr tests \<and> length tests = fs_tests fs
    \<and> length (fs_packets fs) = length (concat (map snd groups))
    \<and> (adjacent_differ tests \<longrightarrow>
         promote_pundit fr ctx True (fs_config fs) (map snd (fs_packets fs)) stored
           = map (\<lambda>(c, rs). (sort_key fst c, map (dict_default ''point_label'' (JStr [])) rs)) tests)"
  using assms
proof (rule create_from_file_built)
  fix groups tests
  assume groups: "group_upv_rows (merge_context rows config) = Inr groups"
    and tests: "build_tests fr ctx groups = Inr tests" and packets: "map snd (fs_packets fs) = packets_of tests"
    and count: "fs_tests fs = length groups"
  note built = build_tests_proper [OF tests]
  have restored: "map (\<lambda>(c, ps). (c, map packet_reading ps)) (map packed tests)
      = map (\<lambda>(c, rs). (sort_key fst c, map (dict_default ''point_label'' (JStr [])) rs)) tests"
    using built proper_packet(2) by (auto simp: packed_def list_all_iff split_beta)
  have "promote_pundit fr ctx True (fs_config fs) (packets_of tests) stored
      = map (\<lambda>(c, rs). (sort_key fst c, map (dict_default ''point_label'' (JStr [])) rs)) tests" if "adjacent_differ tests"
  proof -
    have "regroup_loop True [] (packets_of tests) = map packed tests"
      using regroup_packets [of tests "[]"] built that by simp
    then show ?thesis
      using not_degenerate [of tests True] built restored by (simp add: promote_pundit_def promotion_groups_def)
  qed
  moreover have "length (fs_packets fs) = length (packets_of tests)"
    using arg_cong [OF packets, of length] by simp
  ultimately show ?thesis
    using groups tests built count packets by (intro exI [of _ groups] exI [of _ tests]) auto
qed

text \<open>Surface readings of one element, under two spellings of the test type or of two elements.\<close>

definition demo_surface_row :: "nat \<Rightarrow> string \<Rightarrow> string \<Rightarrow> source_row" where
  "demo_surface_row n element tt = \<lparr>sr_number = n, sr_data = [(''structural_element'', JStr element),
     (''test_type'', JStr tt), (''surface_condition'', JStr ''Fair'')]\<rparr>"

definition demo_file :: "source_row list \<Rightarrow> file_refusal + file_session" where
  "demo_file rows = create_from_file (\<lambda>_. ''0.0'') demo_context ''pundit'' (rows, 0) [] None []"

definition demo_session :: "source_row list \<Rightarrow> file_session" where
  "demo_session rows = (case demo_file rows of Inr fs \<Rightarrow> fs
     | Inl _ \<Rightarrow> \<lparr>fs_config = [], fs_reference = None, fs_packets = [], fs_rows = 0, fs_skipped = 0, fs_tests = 0\<rparr>)"

theorem promotion_restores_tests_witness:
  "\<exists>groups tests. group_upv_rows (merge_context [demo_surface_row 1 ''C1'' ''SURFACE'', demo_surface_row 2 ''C2'' ''SURFACE''] []) = Inr groups
     \<and> build_tests (\<lambda>_. ''0.0'') demo_context groups = Inr tests \<and> length tests = 2"
proof -
  let ?rows = "[demo_surface_row 1 ''C1'' ''SURFACE'', demo_surface_row 2 ''C2'' ''SURFACE'']"
  have run: "create_from_file (\<lambda>_. ''0.0'') demo_context ''pundit'' (?rows, 0) [] None [] = Inr (demo_session ?rows)"
    and two: "fs_tests (demo_session ?rows) = 2"
    by code_simp+
  from promotion_restores_tests [OF run] show ?thesis unfolding two by blast
qed

text \<open>
  The condition is needed: two spellings of one test type split the rows of an element into two
  tests, whose contexts agree, so that promotion files them as one.
\<close>

lemma aliased_types_merge:
  "fs_tests (demo_session [demo_surface_row 1 ''C1'' ''SURFACE'', demo_surface_row 2 ''C1'' ''HOMOGENEITY'']) = 2
   \<and> length (promotion_groups True (map snd (fs_packets (demo_session
        [demo_surface_row 1 ''C1'' ''SURFACE'', demo_surface_row 2 ''C1'' ''HOMOGENEITY''])))) = 1"
  by (intro conjI; code_simp)

end
