(* ===== verification/Audit_Ledger.thy ===== *)
theory Audit_Ledger
  imports Import_Registry Access
begin

text \<open>
  The audit ledger: \<^verbatim>\<open>apps/audit/models.py\<close>, \<^verbatim>\<open>apps/audit/services.py\<close> and the
  middleware that records requests, \<^verbatim>\<open>apps/audit/middleware.py\<close>. \<open>H\<close> is SHA-256 in
  hexadecimal; identities, salts and the clock are arguments. A share of verified events is the
  two counts it is computed from; its rendering as a percentage is not modelled.
\<close>

section \<open>Events\<close>

record audit_event =
  ev_id :: nat
  ev_reference :: string
  ev_user :: "nat option"
  ev_user_name :: string
  ev_user_role :: string
  ev_user_email :: "string option"
  ev_action :: string
  ev_type :: "string option"
  ev_resource_type :: string
  ev_resource_id :: string
  ev_project :: "string option"
  ev_ip :: "string option"
  ev_agent :: "string option"
  ev_time :: int
  ev_previous :: json
  ev_new :: json
  ev_metadata :: json
  ev_severity :: string
  ev_signature :: "string option"
  ev_verified :: bool

definition str_instant :: "int \<Rightarrow> string" where
  "str_instant t = map (\<lambda>c. if c = CHR ''T'' then CHR '' '' else c) (iso_instant t)"

definition calculate_hash :: "(string \<Rightarrow> string) \<Rightarrow> audit_event \<Rightarrow> string" where
  "calculate_hash H e = ''0x'' @ take 16 (H (show_nat (ev_id e) @ '':'' @ ev_action e @ '':'' @ ev_resource_type e
     @ '':'' @ ev_resource_id e @ '':'' @ str_instant (ev_time e)))"

definition salted_signature :: "(string \<Rightarrow> string) \<Rightarrow> string \<Rightarrow> string \<Rightarrow> string \<Rightarrow> string \<Rightarrow> string" where
  "salted_signature H action rtype rid salt =
     ''0x'' @ take 14 (H (action @ '':'' @ rtype @ '':'' @ rid @ '':'' @ salt))"

datatype audit_refusal = Modification_Forbidden | Deletion_Forbidden

text \<open>An event is saved once; a saved one can be neither saved again nor deleted.\<close>

definition save_event ::
    "(string \<Rightarrow> string) \<Rightarrow> string \<Rightarrow> audit_event \<Rightarrow> audit_event list \<Rightarrow> audit_refusal + audit_event list" where
  "save_event H salt e db =
     bind_r (check (\<not> list_ex (\<lambda>x. ev_id x = ev_id e) db) Modification_Forbidden) (\<lambda>_.
     let signed = (case ev_signature e of Some (c # s) \<Rightarrow> e
           | _ \<Rightarrow> e\<lparr>ev_signature := Some (salted_signature H (ev_action e) (ev_resource_type e) (ev_resource_id e) salt)\<rparr>)
     in Inr (db @ [signed]))"

definition delete_event :: "audit_event \<Rightarrow> audit_event list \<Rightarrow> audit_refusal + audit_event list" where
  "delete_event e db = Inl Deletion_Forbidden"

section \<open>Recording\<close>

definition or_text :: "string option \<Rightarrow> string \<Rightarrow> string" where
  "or_text x d = or_default (or_empty x) d"

text \<open>The parts of a call that are copied into the event as they are.\<close>

record log_call =
  lc_action :: string
  lc_resource_type :: string
  lc_resource_id :: string
  lc_user_name :: "string option"
  lc_user_role :: "string option"
  lc_user_email :: "string option"
  lc_project :: "string option"
  lc_previous :: json
  lc_new :: json
  lc_ip :: "string option"
  lc_agent :: "string option"
  lc_severity :: string
  lc_metadata :: json
  lc_event_type :: "string option"

definition log_event ::
    "(string \<Rightarrow> string) \<Rightarrow> (nat \<Rightarrow> string) \<Rightarrow> nat \<Rightarrow> string \<Rightarrow> string \<Rightarrow> int \<Rightarrow> log_call \<Rightarrow> acc_user option
     \<Rightarrow> audit_event list \<Rightarrow> audit_refusal + audit_event list" where
  "log_event H username pk ref salt now c usr db =
     (let name = or_text (lc_user_name c) (case usr of
            Some u \<Rightarrow> or_default (or_default (full_name u) (username (ac_id u))) ''System'' | None \<Rightarrow> ''System'');
          role = or_text (lc_user_role c) (case usr of
            Some u \<Rightarrow> or_default (case ac_profile u of
                Some p \<Rightarrow> (case pf_role p of Some r \<Rightarrow> r | None \<Rightarrow> ''Government Officer'')
              | None \<Rightarrow> ''Government Officer'') ''System''
          | None \<Rightarrow> ''System'');
          email = (case lc_user_email c of Some (x # s) \<Rightarrow> Some (x # s) | _ \<Rightarrow> map_option ac_email usr)
      in save_event H salt
          \<lparr>ev_id = pk, ev_reference = ref, ev_user = map_option ac_id usr, ev_user_name = name, ev_user_role = role,
           ev_user_email = email, ev_action = lc_action c,
           ev_type = Some (or_text (lc_event_type c) (lc_action c)), ev_resource_type = lc_resource_type c,
           ev_resource_id = lc_resource_id c, ev_project = lc_project c, ev_ip = lc_ip c, ev_agent = lc_agent c,
           ev_time = now, ev_previous = lc_previous c, ev_new = lc_new c,
           ev_metadata = json_or (lc_metadata c) (JObj []), ev_severity = lc_severity c,
           ev_signature = Some (salted_signature H (lc_action c) (lc_resource_type c) (lc_resource_id c) salt),
           ev_verified = True\<rparr> db)"

section \<open>The middleware\<close>

record http_call =
  hc_method :: string
  hc_path :: string
  hc_status :: nat
  hc_forwarded :: "string option"
  hc_remote :: "string option"

fun split_on :: "char \<Rightarrow> string \<Rightarrow> string list" where
  "split_on d [] = [[]]"
| "split_on d (c # s) =
     (if c = d then [] # split_on d s
      else case split_on d s of w # ws \<Rightarrow> (c # w) # ws | [] \<Rightarrow> [[c]])"

definition client_ip :: "http_call \<Rightarrow> string option" where
  "client_ip c = (case hc_forwarded c of
      Some (x # s) \<Rightarrow> Some (takeWhile (\<lambda>k. k \<noteq> CHR '','') (x # s))
    | _ \<Rightarrow> hc_remote c)"

definition mutating :: "string \<Rightarrow> bool" where
  "mutating m \<longleftrightarrow> m \<in> set [''POST'', ''PUT'', ''PATCH'', ''DELETE'']"

definition crud_action :: "string \<Rightarrow> string" where
  "crud_action m =
     (case map_of [(''POST'', ''CREATE''), (''PUT'', ''UPDATE''), (''PATCH'', ''UPDATE''), (''DELETE'', ''DELETE (Archive)'')] m of
        Some a \<Rightarrow> a | None \<Rightarrow> m)"

text \<open>The event names the user by key only: the name and role keep their defaults.\<close>

definition log_action ::
    "(string \<Rightarrow> string) \<Rightarrow> nat \<Rightarrow> string \<Rightarrow> string \<Rightarrow> int \<Rightarrow> http_call \<Rightarrow> acc_user option \<Rightarrow> audit_event list
     \<Rightarrow> audit_refusal + audit_event list" where
  "log_action H pk ref salt now c usr db =
     (let parts = filter (\<lambda>s. s \<noteq> []) (split_on (CHR ''/'') (hc_path c));
          rtype = (if length parts > 1 then parts ! 1 else ''unknown'');
          rid = (if length parts > 2 then parts ! 2 else ''N/A'')
      in save_event H salt
          \<lparr>ev_id = pk, ev_reference = ref, ev_user = map_option ac_id usr, ev_user_name = ''System'',
           ev_user_role = ''System'', ev_user_email = None, ev_action = crud_action (hc_method c), ev_type = None,
           ev_resource_type = rtype, ev_resource_id = rid, ev_project = None, ev_ip = client_ip c, ev_agent = None,
           ev_time = now, ev_previous = JNull,
           ev_new = JObj [(''path'', JStr (hc_path c)), (''status'', JInt (int (hc_status c)))],
           ev_metadata = JObj [], ev_severity = ''Normal'', ev_signature = None, ev_verified = True\<rparr> db)"

text \<open>A failure to record is logged and swallowed: the response goes out as it is.\<close>

definition process_response ::
    "(string \<Rightarrow> string) \<Rightarrow> nat \<Rightarrow> string \<Rightarrow> string \<Rightarrow> int \<Rightarrow> http_call \<Rightarrow> acc_user option \<Rightarrow> audit_event list
     \<Rightarrow> audit_event list" where
  "process_response H pk ref salt now c usr db =
     (if mutating (hc_method c) \<and> 200 \<le> hc_status c \<and> hc_status c < 500
      then (case log_action H pk ref salt now c usr db of Inr db' \<Rightarrow> db' | Inl _ \<Rightarrow> db)
      else db)"

section \<open>Verification and summary\<close>

datatype chain_status = Chain_Empty | Chain_Valid | Tamper_Detected

record chain_report =
  cr_status :: chain_status
  cr_share :: "(nat \<times> nat) option"
  cr_total :: nat
  cr_tampered :: nat
  cr_root :: string
  cr_latest :: "string option"

definition signature_text :: "string option \<Rightarrow> string" where
  "signature_text s = (case s of None \<Rightarrow> ''None'' | Some x \<Rightarrow> x)"

definition verify_hash_chain :: "(string \<Rightarrow> string) \<Rightarrow> audit_event list \<Rightarrow> chain_report" where
  "verify_hash_chain H db =
     (let events = sort_key ev_time db; total = length events;
          verified = length (filter ev_verified events); tampered = total - verified
      in \<lparr>cr_status = (if total = 0 then Chain_Empty else if tampered = 0 then Chain_Valid else Tamper_Detected),
          cr_share = (if total = 0 then None else Some (verified, total)), cr_total = total, cr_tampered = tampered,
          cr_root = ''0x'' @ take 16 (H (concat (map (\<lambda>e. signature_text (ev_signature e)) events))),
          cr_latest = (if events = [] then None else ev_signature (last events))\<rparr>)"

record audit_summary =
  as_total :: nat
  as_today :: nat
  as_critical :: nat
  as_unverified :: nat
  as_failed_logins :: "nat option"

definition contains_ci :: "string \<Rightarrow> string \<Rightarrow> bool" where
  "contains_ci needle s \<longleftrightarrow> is_infix (py_lower needle) (py_lower s)"

definition audit_summary_of :: "int \<Rightarrow> audit_event list \<Rightarrow> audit_summary" where
  "audit_summary_of now db =
     \<lparr>as_total = length db,
      as_today = rows_where (\<lambda>e. ev_time e div 86400000000 = now div 86400000000) db,
      as_critical = rows_where (\<lambda>e. ev_severity e = ''Critical'' \<or> ev_severity e = ''High'') db,
      as_unverified = rows_where (\<lambda>e. \<not> ev_verified e) db,
      as_failed_logins = (if list_ex (\<lambda>e. contains_ci ''LOGIN'' (ev_action e)) db
         then Some (rows_where (\<lambda>e. contains_ci ''LOGIN'' (ev_action e) \<and> ev_severity e = ''Critical''
                                   \<and> now - 86400000000 \<le> ev_time e) db)
         else None)\<rparr>"

section \<open>Differences of states\<close>

text \<open>
  Values are compared as Python compares them: a truth value is the number it counts as, a
  number is its value, and objects do not depend on the order of their keys. A stored state holds
  no not-a-number (a JSON column of the database has none), which Python alone calls unequal to
  itself.
\<close>

datatype py_val = Py_None | Py_Num fval | Py_Text string | Py_List "py_val list" | Py_Dict "(string \<times> py_val) list"

fun py_value :: "json \<Rightarrow> py_val" where
  "py_value JNull = Py_None"
| "py_value (JBool b) = Py_Num (Fin (if b then 1 else 0))"
| "py_value (JInt i) = Py_Num (Fin (of_int i))"
| "py_value (JFloat r) = Py_Num (case read_float r of Some x \<Rightarrow> x | None \<Rightarrow> NaN)"
| "py_value (JStr s) = Py_Text s"
| "py_value (JArr xs) = Py_List (map py_value xs)"
| "py_value (JObj kvs) = Py_Dict (sort_key fst (map (\<lambda>(k, v). (k, py_value v)) kvs))"

definition state_dict :: "json \<Rightarrow> dict option" where
  "state_dict j = (case json_or j (JObj []) of JObj d \<Rightarrow> Some d | _ \<Rightarrow> None)"

definition changed_fields :: "dict \<Rightarrow> dict \<Rightarrow> string list" where
  "changed_fields prev cur =
     filter (\<lambda>k. py_value (dict_get prev k) \<noteq> py_value (dict_get cur k))
       (sort (remdups (map fst prev @ map fst cur)))"

text \<open>A state that is no object has no keys: the exception of that case is \<open>None\<close>.\<close>

definition compute_diff :: "audit_event \<Rightarrow> (string \<times> json \<times> json) list option" where
  "compute_diff e = (case (state_dict (ev_previous e), state_dict (ev_new e)) of
      (Some prev, Some cur) \<Rightarrow>
        Some (map (\<lambda>k. (k, dict_get prev k, dict_get cur k)) (changed_fields prev cur))
    | _ \<Rightarrow> None)"

section \<open>Export\<close>

record audit_filter =
  af_resource_type :: string
  af_action :: string
  af_severity :: string

definition csv_cell :: "string \<Rightarrow> string" where
  "csv_cell s = [CHR 0x22] @ s @ [CHR 0x22]"

definition none_text :: "string option \<Rightarrow> string" where
  "none_text s = (case s of None \<Rightarrow> ''None'' | Some x \<Rightarrow> x)"

definition csv_row :: "audit_event \<Rightarrow> string" where
  "csv_row e = join_with '','' (map csv_cell
     [ev_reference e, iso_instant (ev_time e), ev_user_name e, ev_user_role e, ev_action e, ev_resource_type e,
      ev_resource_id e, none_text (ev_project e), ev_severity e, none_text (ev_signature e)])"

definition csv_header :: string where
  "csv_header = ''Audit Reference,Timestamp,Actor,Role,Action,Resource Type,Resource ID,Project,Severity,Signature Hash''"

definition filtered_events :: "audit_filter \<Rightarrow> audit_event list \<Rightarrow> audit_event list" where
  "filtered_events f db =
     filter (\<lambda>e. (af_resource_type f = [] \<or> py_lower (ev_resource_type e) = py_lower (af_resource_type f))
       \<and> (af_action f = [] \<or> contains_ci (af_action f) (ev_action e))
       \<and> (af_severity f = [] \<or> py_lower (ev_severity e) = py_lower (af_severity f)))
     (rev (sort_key ev_time db))"

definition export_audit_csv ::
    "(string \<Rightarrow> string) \<Rightarrow> (nat \<Rightarrow> string) \<Rightarrow> nat \<Rightarrow> string \<Rightarrow> string \<Rightarrow> string \<Rightarrow> int \<Rightarrow> audit_filter \<Rightarrow> acc_user option
     \<Rightarrow> audit_event list \<Rightarrow> audit_refusal + (string \<times> audit_event list)" where
  "export_audit_csv H username pk ref export_ref salt now f usr db =
     (let rows = filtered_events f db;
          csv = join_with [CHR 0x0A] (csv_header # map csv_row (take 500 rows))
      in bind_r (log_event H username pk ref salt now
          \<lparr>lc_action = ''AUDIT_LEDGER_EXPORTED'', lc_resource_type = ''AuditLedger'',
           lc_resource_id = ''EXP-'' @ export_ref, lc_user_name = None, lc_user_role = None, lc_user_email = None,
           lc_project = Some ''Central Platform Security'', lc_previous = JNull, lc_new = JNull, lc_ip = None,
           lc_agent = None, lc_severity = ''Normal'',
           lc_metadata = JObj [(''records_count'', JInt (int (length rows))), (''format'', JStr ''CSV'')],
           lc_event_type = None\<rparr> usr db) (\<lambda>db'. Inr (csv, db')))"

section \<open>Runs of the ledger\<close>

inductive ledger_run :: "(string \<Rightarrow> string) \<Rightarrow> (nat \<Rightarrow> string) \<Rightarrow> audit_event list \<Rightarrow> bool"
  for H :: "string \<Rightarrow> string" and username :: "nat \<Rightarrow> string" where
  run_empty: "ledger_run H username []"
| run_log: "ledger_run H username db \<Longrightarrow> log_event H username pk ref salt now c usr db = Inr db' \<Longrightarrow>
     ledger_run H username db'"
| run_response: "ledger_run H username db \<Longrightarrow> ledger_run H username (process_response H pk ref salt now h usr db)"
| run_export: "ledger_run H username db \<Longrightarrow>
     export_audit_csv H username pk ref xref salt now f usr db = Inr (csv, db') \<Longrightarrow> ledger_run H username db'"

definition appended :: "audit_event list \<Rightarrow> audit_event list \<Rightarrow> bool" where
  "appended db db' \<longleftrightarrow> (\<exists>e. db' = db @ [e] \<and> ev_verified e \<and> ev_id e \<notin> ev_id ` set db)"

lemma save_event_appends:
  assumes "save_event H salt e db = Inr db'" "ev_verified e"
  shows "appended db db'"
proof -
  from assms(1) have "ev_id e \<notin> ev_id ` set db"
    by (force simp: save_event_def list_ex_iff)
  moreover from assms(1) have "\<exists>s. db' = db @ [e] \<or> db' = db @ [e\<lparr>ev_signature := s\<rparr>]"
    by (auto simp: save_event_def Let_def split: option.splits list.splits)
  ultimately show ?thesis using assms(2) by (auto simp: appended_def)
qed

lemma log_event_appends: "log_event H username pk ref salt now c usr db = Inr db' \<Longrightarrow> appended db db'"
  unfolding log_event_def Let_def by (erule save_event_appends) simp

lemma log_action_appends: "log_action H pk ref salt now c usr db = Inr db' \<Longrightarrow> appended db db'"
  unfolding log_action_def Let_def by (erule save_event_appends) simp

lemma export_appends: "export_audit_csv H username pk ref xref salt now f usr db = Inr (csv, db') \<Longrightarrow> appended db db'"
  unfolding export_audit_csv_def Let_def bind_r_Inr_iff by (auto dest: log_event_appends)

definition ledger_ok :: "audit_event list \<Rightarrow> bool" where
  "ledger_ok db \<longleftrightarrow> distinct (map ev_id db) \<and> list_all ev_verified db"

lemma appended_ok: "ledger_ok db \<Longrightarrow> appended db db' \<Longrightarrow> ledger_ok db'"
  by (auto simp: ledger_ok_def appended_def)

lemma ledger_run_ok: "ledger_run H username db \<Longrightarrow> ledger_ok db"
proof (induction rule: ledger_run.induct)
  case run_empty
  then show ?case by (simp add: ledger_ok_def)
next
  case run_log
  then show ?case by (blast intro: appended_ok log_event_appends)
next
  case (run_response db pk ref salt now h usr)
  then show ?case
    by (auto simp: process_response_def split: sum.splits intro: appended_ok log_action_appends)
next
  case run_export
  then show ?case by (blast intro: appended_ok export_appends)
qed

lemma insort_key_map: "(\<And>x. k' (f x) = k x) \<Longrightarrow> insort_key k' (f x) (map f xs) = map f (insort_key k x xs)"
  by (induction xs) auto

lemma sort_key_map: "(\<And>x. k' (f x) = k x) \<Longrightarrow> sort_key k' (map f xs) = map f (sort_key k xs)"
  by (induction xs) (simp_all add: insort_key_map)

lemma verify_edited:
  assumes "\<And>e. ev_time (f e) = ev_time e" "\<And>e. ev_signature (f e) = ev_signature e" "\<And>e. ev_verified (f e) = ev_verified e"
  shows "verify_hash_chain H (map f db) = verify_hash_chain H db"
  using sort_key_map [of ev_time f ev_time db] assms
  by (simp add: verify_hash_chain_def filter_map comp_def last_map Let_def)

lemma verify_all_verified:
  assumes "list_all ev_verified db"
  shows "cr_tampered (verify_hash_chain H db) = 0 \<and> cr_status (verify_hash_chain H db) \<noteq> Tamper_Detected"
proof -
  have "filter ev_verified (sort_key ev_time db) = sort_key ev_time db"
    using assms by (simp add: filter_id_conv list_all_iff)
  then show ?thesis by (simp add: verify_hash_chain_def Let_def)
qed

text \<open>Reading a state after a change.\<close>

definition apply_changes :: "(string \<times> json \<times> json) list \<Rightarrow> dict \<Rightarrow> dict" where
  "apply_changes ch d = fold (\<lambda>(k, old, new). dict_put k new) ch d"

lemma dict_get_put: "dict_get (dict_put k v d) j = (if j = k then v else dict_get d j)"
  by (simp add: dict_get_def)

lemma apply_changes_get:
  "distinct (map fst ch) \<Longrightarrow> dict_get (apply_changes ch d) j =
     (case map_of ch j of None \<Rightarrow> dict_get d j | Some (old, new) \<Rightarrow> new)"
proof (induction ch arbitrary: d)
  case (Cons c ch)
  obtain k old new where c: "c = (k, old, new)" by (cases c)
  have "j \<noteq> k \<or> map_of ch j = None" using Cons.prems c by (auto simp: map_of_eq_None_iff)
  with Cons show ?case by (auto simp: apply_changes_def c dict_get_put split: option.splits)
qed (simp add: apply_changes_def)

lemma map_of_map_pair: "map_of (map (\<lambda>k. (k, f k, g k)) ks) j = (if j \<in> set ks then Some (f j, g j) else None)"
  by (induction ks) auto

section \<open>Properties\<close>

text \<open>
  What the ledger can and cannot show. Along every run of its operations identities are
  unique and every event is marked verified, and saving an event again or deleting one is
  refused. But verification reads only marks, times and stored signatures: whoever rewrites
  the action, the actor, the resource, the states or any other content of stored events gets the
  same report, which is never that of tampering.
\<close>

theorem ledger_verification_blind:
  assumes "ledger_run H username db"
    and "\<And>e. ev_time (f e) = ev_time e" "\<And>e. ev_signature (f e) = ev_signature e" "\<And>e. ev_verified (f e) = ev_verified e"
  shows "distinct (map ev_id db)
    \<and> (e \<in> set db \<longrightarrow> save_event H salt e db = Inl Modification_Forbidden \<and> delete_event e db = Inl Deletion_Forbidden)
    \<and> verify_hash_chain H (map f db) = verify_hash_chain H db
    \<and> cr_tampered (verify_hash_chain H (map f db)) = 0
    \<and> cr_status (verify_hash_chain H (map f db)) \<noteq> Tamper_Detected"
proof -
  have ok: "ledger_ok db" using assms(1) by (rule ledger_run_ok)
  have "save_event H salt e db = Inl Modification_Forbidden" if "e \<in> set db"
    using that by (auto simp: save_event_def list_ex_iff check_def)
  then show ?thesis
    using ok verify_edited [OF assms(2-4)] verify_all_verified [of db H]
    by (simp add: ledger_ok_def delete_event_def)
qed

definition demo_call :: log_call where
  "demo_call = \<lparr>lc_action = ''PERMIT_REVOKED'', lc_resource_type = ''Permit'', lc_resource_id = ''7'', lc_user_name = None,
     lc_user_role = None, lc_user_email = None, lc_project = None, lc_previous = JNull, lc_new = JNull, lc_ip = None,
     lc_agent = None, lc_severity = ''Critical'', lc_metadata = JNull, lc_event_type = None\<rparr>"

theorem ledger_verification_blind_witness:
  "\<exists>e. log_event (\<lambda>s. s) (\<lambda>_. []) 1 ''AUD-1'' ''5a17'' 0 demo_call None [] = Inr [e]
     \<and> ev_action e = ''PERMIT_REVOKED''
     \<and> verify_hash_chain (\<lambda>s. s) [e\<lparr>ev_action := ''PERMIT_ISSUED''\<rparr>] = verify_hash_chain (\<lambda>s. s) [e]
     \<and> cr_status (verify_hash_chain (\<lambda>s. s) [e\<lparr>ev_action := ''PERMIT_ISSUED''\<rparr>]) \<noteq> Tamper_Detected"
proof -
  obtain e where e: "log_event (\<lambda>s. s) (\<lambda>_. []) 1 ''AUD-1'' ''5a17'' 0 demo_call None [] = Inr [e]"
    and a: "ev_action e = ''PERMIT_REVOKED''"
    by (simp add: log_event_def save_event_def salted_signature_def Let_def demo_call_def)
  have "verify_hash_chain (\<lambda>s. s) [e\<lparr>ev_action := ''PERMIT_ISSUED''\<rparr>] = verify_hash_chain (\<lambda>s. s) [e]
     \<and> cr_status (verify_hash_chain (\<lambda>s. s) [e\<lparr>ev_action := ''PERMIT_ISSUED''\<rparr>]) \<noteq> Tamper_Detected"
    using ledger_verification_blind [OF run_log [OF run_empty e], where f = "\<lambda>e. e\<lparr>ev_action := ''PERMIT_ISSUED''\<rparr>"
        and e = e and salt = "[]"] by auto
  with e a show ?thesis by blast
qed

text \<open>
  C18. The reported changes are the changes. When both states are objects, the report lists in
  order, once each, exactly the fields whose values differ (an absent field counting as null),
  and writing the reported values into the previous state gives the new state at every field.
\<close>

theorem diff_patches:
  assumes "state_dict (ev_previous e) = Some prev" "state_dict (ev_new e) = Some cur"
  shows "\<exists>ch. compute_diff e = Some ch \<and> sorted (map fst ch) \<and> distinct (map fst ch)
    \<and> (k \<in> fst ` set ch) = (py_value (dict_get prev k) \<noteq> py_value (dict_get cur k))
    \<and> py_value (dict_get (apply_changes ch prev) k) = py_value (dict_get cur k)"
proof -
  let ?ks = "changed_fields prev cur"
  let ?ch = "map (\<lambda>k. (k, dict_get prev k, dict_get cur k)) ?ks"
  have ks: "map fst ?ch = ?ks" by (simp add: comp_def)
  have "distinct ?ks" "sorted ?ks" by (simp_all add: changed_fields_def sorted_wrt_filter)
  moreover have set: "j \<in> set ?ks \<longleftrightarrow> py_value (dict_get prev j) \<noteq> py_value (dict_get cur j)" for j
  proof -
    have "dict_get d j = JNull" if "j \<notin> fst ` set d" for d
      using that by (simp add: dict_get_def map_of_eq_None_iff [THEN iffD2])
    then have "py_value (dict_get prev j) = py_value (dict_get cur j)" if "j \<notin> fst ` set prev \<union> fst ` set cur"
      using that by simp
    then show ?thesis by (auto simp: changed_fields_def simp del: Un_iff)
  qed
  moreover have "map_of ?ch k = (if k \<in> set ?ks then Some (dict_get prev k, dict_get cur k) else None)"
    by (rule map_of_map_pair)
  ultimately show ?thesis
    using apply_changes_get [of ?ch prev k] assms unfolding ks
    by (intro exI [of _ ?ch]) (auto simp: compute_diff_def comp_def image_image)
qed

theorem diff_patches_witness:
  "\<exists>ch. compute_diff (\<lparr>ev_id = 1, ev_reference = [], ev_user = None, ev_user_name = [], ev_user_role = [], ev_user_email = None,
       ev_action = [], ev_type = None, ev_resource_type = [], ev_resource_id = [], ev_project = None, ev_ip = None,
       ev_agent = None, ev_time = 0, ev_previous = JObj [(''a'', JNull)], ev_new = JObj [(''b'', JStr ''x'')],
       ev_metadata = JNull, ev_severity = [], ev_signature = None, ev_verified = True\<rparr>) = Some ch
     \<and> ''b'' \<in> fst ` set ch"
proof -
  let ?e = "\<lparr>ev_id = 1, ev_reference = [], ev_user = None, ev_user_name = [], ev_user_role = [], ev_user_email = None,
       ev_action = [], ev_type = None, ev_resource_type = [], ev_resource_id = [], ev_project = None, ev_ip = None,
       ev_agent = None, ev_time = 0, ev_previous = JObj [(''a'', JNull)], ev_new = JObj [(''b'', JStr ''x'')],
       ev_metadata = JNull, ev_severity = [], ev_signature = None, ev_verified = True\<rparr>"
  have "state_dict (ev_previous ?e) = Some [(''a'', JNull)]" "state_dict (ev_new ?e) = Some [(''b'', JStr ''x'')]"
    by (simp_all add: state_dict_def json_or_def)
  from diff_patches [OF this, of "''b''"] show ?thesis by (auto simp: dict_get_def)
qed

end
