(* ===== verification/Strength_Curves.thy ===== *)
theory Strength_Curves
  imports Nexucon_Prelude Complex_Main
begin

text \<open>
  The conversion of a pulse velocity to a compressive strength:
  \<^verbatim>\<open>apps/digital_eye/strength_curves.py\<close> and the model \<open>StrengthCurve\<close> of
  \<^verbatim>\<open>apps/digital_eye/models.py\<close>. Finite floats are real numbers and arithmetic is exact;
  overflow to an infinity does not occur. A parameter set is a JSON value; every exception of
  the code's \<^verbatim>\<open>try\<close> blocks gives \<^verbatim>\<open>None\<close>, as in the code. Velocities reach the
  engine in km/s and are used in m/s.
\<close>

section \<open>Parameter sets\<close>

datatype jval =
  VNull | VBool bool | VNum real | VText string | VList "jval list" | VDict "(string \<times> jval) list"

datatype curve_type = Linear | Polynomial | Exponential | SonReb | Lookup | Other_Type string

text \<open>A Boolean counts as a number in arithmetic; other values raise.\<close>

fun num_of :: "jval \<Rightarrow> real option" where
  "num_of (VNum x) = Some x"
| "num_of (VBool b) = Some (if b then 1 else 0)"
| "num_of _ = None"

fun item :: "jval \<Rightarrow> string \<Rightarrow> jval option" where
  "item (VDict d) k = map_of d k"
| "item _ k = None"

definition num_at :: "jval \<Rightarrow> string \<Rightarrow> real option" where
  "num_at p k = Option.bind (item p k) num_of"

text \<open>\<^verbatim>\<open>params['coeffs']\<close> with every entry read by \<^verbatim>\<open>float()\<close>. A text among the
  entries, which \<open>validate_curve_params\<close> refuses, is taken as unusable.\<close>

definition coeffs_of :: "jval \<Rightarrow> real list option" where
  "coeffs_of p = (case item p ''coeffs'' of Some (VList cs) \<Rightarrow> those (map num_of cs) | _ \<Rightarrow> None)"

text \<open>The points of a lookup table in the order of their velocities; the strength of a point
  is read only when its segment is used.\<close>

definition table_point :: "jval \<Rightarrow> (real \<times> real option) option" where
  "table_point p = map_option (\<lambda>v. (v, num_at p ''f'')) (num_at p ''v'')"

definition table_of :: "jval \<Rightarrow> (real \<times> real option) list option" where
  "table_of p = (case item p ''points'' of
      Some (VList ps) \<Rightarrow> map_option (sort_key fst) (those (map table_point ps)) | _ \<Rightarrow> None)"

section \<open>Applying a curve\<close>

definition poly_value :: "real list \<Rightarrow> real \<Rightarrow> real" where
  "poly_value cs v = (\<Sum>(i, c) \<leftarrow> enumerate 0 cs. c * v ^ i)"

fun lookup_scan :: "real \<Rightarrow> (real \<times> real option) list \<Rightarrow> real option" where
  "lookup_scan v [] = None"
| "lookup_scan v [p] = snd p"
| "lookup_scan v (p1 # p2 # ps) =
     (if fst p1 \<le> v \<and> v \<le> fst p2
      then if fst p2 = fst p1 then snd p1
           else case (snd p1, snd p2) of
                  (Some f1, Some f2) \<Rightarrow> Some (f1 + (f2 - f1) * (v - fst p1) / (fst p2 - fst p1))
                | _ \<Rightarrow> None
      else lookup_scan v (p2 # ps))"

definition lookup_value :: "(real \<times> real option) list \<Rightarrow> real \<Rightarrow> real option" where
  "lookup_value pts v =
     (if length pts < 2 then None
      else if v < fst (hd pts) \<or> fst (last pts) < v then None
      else lookup_scan v pts)"

text \<open>\<open>curve_value\<close> is the body of the \<^verbatim>\<open>try\<close> block, at a velocity in m/s.\<close>

definition curve_value :: "curve_type \<Rightarrow> jval \<Rightarrow> real \<Rightarrow> real option \<Rightarrow> real option" where
  "curve_value ty params v rebound = (case ty of
      Linear \<Rightarrow> (case (num_at params ''m'', num_at params ''c'') of
          (Some m, Some c) \<Rightarrow> Some (m * v + c) | _ \<Rightarrow> None)
    | Polynomial \<Rightarrow> map_option (\<lambda>cs. poly_value cs v) (coeffs_of params)
    | Exponential \<Rightarrow> (case (num_at params ''a'', num_at params ''b'', num_at params ''c'') of
          (Some a, Some b, Some c) \<Rightarrow> Some (a * exp (b * v) + c) | _ \<Rightarrow> None)
    | SonReb \<Rightarrow> (case rebound of
          None \<Rightarrow> None
        | Some r \<Rightarrow> if r \<le> 0 then None
            else case (num_at params ''a'', num_at params ''b'', num_at params ''c'') of
                (Some a, Some b, Some c) \<Rightarrow> Some (a * v powr b * r powr c) | _ \<Rightarrow> None)
    | Lookup \<Rightarrow> Option.bind (table_of params) (\<lambda>pts. lookup_value pts v)
    | Other_Type _ \<Rightarrow> None)"

definition in_range :: "(real \<times> real) option \<Rightarrow> real \<Rightarrow> bool" where
  "in_range rng v = (case rng of None \<Rightarrow> True | Some (lo, hi) \<Rightarrow> lo \<le> v \<and> v \<le> hi)"

definition apply_curve_params ::
    "curve_type \<Rightarrow> jval \<Rightarrow> real option \<Rightarrow> real option \<Rightarrow> (real \<times> real) option \<Rightarrow> real option" where
  "apply_curve_params ty params velocity rebound valid_range = (case velocity of
      None \<Rightarrow> None
    | Some v \<Rightarrow> if v \<le> 0 then None
                else if \<not> in_range valid_range (v * 1000) then None
                else curve_value ty params (v * 1000) rebound)"

section \<open>The slope of a curve\<close>

definition poly_slope :: "real list \<Rightarrow> real \<Rightarrow> real" where
  "poly_slope cs v = (\<Sum>(i, c) \<leftarrow> filter (\<lambda>(i, c). 1 \<le> i) (enumerate 0 cs). c * of_nat i * v ^ (i - 1))"

fun slope_scan :: "real \<Rightarrow> (real \<times> real option) list \<Rightarrow> real option" where
  "slope_scan v (p1 # p2 # ps) =
     (if fst p1 \<le> v \<and> v \<le> fst p2
      then if fst p2 = fst p1 then None
           else case (snd p1, snd p2) of
                  (Some f1, Some f2) \<Rightarrow> Some ((f2 - f1) / (fst p2 - fst p1)) | _ \<Rightarrow> None
      else slope_scan v (p2 # ps))"
| "slope_scan v _ = None"

definition curve_slope_mpa_per_ms :: "curve_type \<Rightarrow> jval \<Rightarrow> real option \<Rightarrow> real option \<Rightarrow> real option" where
  "curve_slope_mpa_per_ms ty params velocity rebound = (case velocity of
      None \<Rightarrow> None
    | Some x \<Rightarrow> if x \<le> 0 then None
      else let v = x * 1000 in case ty of
        Linear \<Rightarrow> num_at params ''m''
      | Polynomial \<Rightarrow> map_option (\<lambda>cs. poly_slope cs v) (coeffs_of params)
      | Exponential \<Rightarrow> (case (num_at params ''a'', num_at params ''b'') of
            (Some a, Some b) \<Rightarrow> Some (a * b * exp (b * v)) | _ \<Rightarrow> None)
      | SonReb \<Rightarrow> (case rebound of
            None \<Rightarrow> None
          | Some r \<Rightarrow> if r \<le> 0 then None
              else case (num_at params ''a'', num_at params ''b'', num_at params ''c'') of
                  (Some a, Some b, Some c) \<Rightarrow> Some (a * b * v powr (b - 1) * r powr c) | _ \<Rightarrow> None)
      | Lookup \<Rightarrow> Option.bind (table_of params) (\<lambda>pts.
            if length pts < 2 \<or> v < fst (hd pts) \<or> fst (last pts) < v then None else slope_scan v pts)
      | Other_Type _ \<Rightarrow> None)"

section \<open>Temperature\<close>

definition temperature_correction_applied :: "real option \<Rightarrow> bool" where
  "temperature_correction_applied t = (case t of None \<Rightarrow> False | Some t \<Rightarrow> \<not> (5 \<le> t \<and> t \<le> 30))"

definition temperature_corrected_velocity :: "real option \<Rightarrow> real option \<Rightarrow> real option" where
  "temperature_corrected_velocity velocity t = (case (velocity, t) of
      (Some v, Some c) \<Rightarrow> if temperature_correction_applied t then Some (v * (1 + 0.002 * (c - 20))) else Some v
    | _ \<Rightarrow> velocity)"

section \<open>Validation of a parameter set\<close>

datatype curve_fault =
    Not_An_Object | Required string | Not_A_Number string | Bad_Coeffs
  | Bad_Points | Bad_Point | Points_Not_Numbers | Velocity_Not_Positive | Duplicate_Velocity
  | Unknown_Curve_Type

text \<open>\<^verbatim>\<open>isinstance(x, (int, float))\<close> without the Booleans.\<close>

fun plain_number :: "jval \<Rightarrow> real option" where
  "plain_number (VNum x) = Some x"
| "plain_number _ = None"

definition require_number :: "jval \<Rightarrow> string \<Rightarrow> curve_fault + unit" where
  "require_number p k = (case item p k of
      None \<Rightarrow> Inl (Required k)
    | Some v \<Rightarrow> if plain_number v = None then Inl (Not_A_Number k) else Inr ())"

fun require_numbers :: "jval \<Rightarrow> string list \<Rightarrow> curve_fault + unit" where
  "require_numbers p [] = Inr ()"
| "require_numbers p (k # ks) = bind_r (require_number p k) (\<lambda>_. require_numbers p ks)"

definition point_checked :: "jval \<Rightarrow> curve_fault + real" where
  "point_checked p = (case (item p ''v'', item p ''f'') of
      (Some v, Some f) \<Rightarrow> (case (plain_number v, plain_number f) of
          (Some x, Some _) \<Rightarrow> if x \<le> 0 then Inl Velocity_Not_Positive else Inr x
        | _ \<Rightarrow> Inl Points_Not_Numbers)
    | _ \<Rightarrow> Inl Bad_Point)"

fun points_checked :: "jval list \<Rightarrow> curve_fault + real list" where
  "points_checked [] = Inr []"
| "points_checked (p # ps) =
     bind_r (point_checked p) (\<lambda>v. bind_r (points_checked ps) (\<lambda>vs. Inr (v # vs)))"

definition validate_curve_params :: "curve_type \<Rightarrow> jval \<Rightarrow> curve_fault + unit" where
  "validate_curve_params ty params = (case params of
      VDict _ \<Rightarrow> (case ty of
          Linear \<Rightarrow> require_numbers params [''m'', ''c'']
        | Polynomial \<Rightarrow> (case item params ''coeffs'' of
              Some (VList cs) \<Rightarrow>
                check (3 \<le> length cs \<and> list_all (\<lambda>c. plain_number c \<noteq> None) cs) Bad_Coeffs
            | _ \<Rightarrow> Inl Bad_Coeffs)
        | Exponential \<Rightarrow> require_numbers params [''a'', ''b'', ''c'']
        | SonReb \<Rightarrow> require_numbers params [''a'', ''b'', ''c'']
        | Lookup \<Rightarrow> (case item params ''points'' of
              Some (VList ps) \<Rightarrow> if length ps < 2 then Inl Bad_Points
                else bind_r (points_checked ps) (\<lambda>vs. check (distinct vs) Duplicate_Velocity)
            | _ \<Rightarrow> Inl Bad_Points)
        | Other_Type _ \<Rightarrow> Inl Unknown_Curve_Type)
    | _ \<Rightarrow> Inl Not_An_Object)"

text \<open>The guard on a calibration strength; it takes what \<^verbatim>\<open>float()\<close> makes of the value.\<close>

datatype strength_arg = No_Strength | Not_Float | Strength real | Not_Finite

datatype plausibility_fault = Must_Be_A_Number | Above_Ceiling real

definition strength_plausibility_error :: "strength_arg \<Rightarrow> plausibility_fault option" where
  "strength_plausibility_error f = (case f of
      No_Strength \<Rightarrow> None
    | Not_Float \<Rightarrow> Some Must_Be_A_Number
    | Not_Finite \<Rightarrow> None
    | Strength x \<Rightarrow> if 100 < x then Some (Above_Ceiling x) else None)"

section \<open>What a strength presupposes\<close>

lemma apply_curve_params_Some:
  "apply_curve_params ty params velocity rebound rng = Some s \<longleftrightarrow>
   (\<exists>v. velocity = Some v \<and> 0 < v \<and> in_range rng (v * 1000) \<and>
        curve_value ty params (v * 1000) rebound = Some s)"
  by (auto simp: apply_curve_params_def split: option.splits)

text \<open>Points of a table are in the order of their velocities; interpolation stays between the
  strengths of the segment.\<close>

lemma segment_bounds:
  fixes f1 f2 a b v :: real
  assumes "a \<le> v" "v \<le> b" "a \<noteq> b"
  shows "min f1 f2 \<le> f1 + (f2 - f1) * (v - a) / (b - a)" "f1 + (f2 - f1) * (v - a) / (b - a) \<le> max f1 f2"
proof -
  define t where "t = (v - a) / (b - a)"
  have t: "0 \<le> t" "t \<le> 1" using assms by (simp_all add: t_def)
  have e: "f1 + (f2 - f1) * (v - a) / (b - a) = (1 - t) * f1 + t * f2"
    by (simp add: t_def algebra_simps diff_divide_distrib add_divide_distrib)
  have "(1 - t) * min f1 f2 + t * min f1 f2 \<le> (1 - t) * f1 + t * f2"
    using t by (intro add_mono mult_left_mono) auto
  moreover have "(1 - t) * f1 + t * f2 \<le> (1 - t) * max f1 f2 + t * max f1 f2"
    using t by (intro add_mono mult_left_mono) auto
  ultimately show "min f1 f2 \<le> f1 + (f2 - f1) * (v - a) / (b - a)"
      "f1 + (f2 - f1) * (v - a) / (b - a) \<le> max f1 f2"
    unfolding e by (simp_all add: algebra_simps)
qed

lemma lookup_scan_bounds:
  assumes "lookup_scan v pts = Some s"
  shows "(\<exists>p \<in> set pts. \<exists>f. snd p = Some f \<and> f \<le> s) \<and> (\<exists>p \<in> set pts. \<exists>f. snd p = Some f \<and> s \<le> f)"
  using assms
proof (induction v pts rule: lookup_scan.induct)
  case (3 v p1 p2 ps)
  show ?case
  proof (cases "fst p1 \<le> v \<and> v \<le> fst p2 \<and> fst p2 \<noteq> fst p1")
    case True
    with 3(2) obtain f1 f2 where f: "snd p1 = Some f1" "snd p2 = Some f2"
        "s = f1 + (f2 - f1) * (v - fst p1) / (fst p2 - fst p1)"
      by (auto split: option.splits)
    have b: "min f1 f2 \<le> s" "s \<le> max f1 f2"
      using segment_bounds [of "fst p1" v "fst p2" f1 f2] True by (auto simp: f(3))
    then have "f1 \<le> s \<or> f2 \<le> s" "s \<le> f1 \<or> s \<le> f2" by linarith+
    then show ?thesis using f(1,2) by auto
  next
    case False
    then show ?thesis using 3 by (auto split: if_splits)
  qed
qed auto

lemma lookup_scan_at_point:
  assumes "sorted (map fst pts)" "distinct (map fst pts)" "p \<in> set pts" "2 \<le> length pts"
  shows "lookup_scan (fst p) pts = snd p \<or> (lookup_scan (fst p) pts = None \<and> None \<in> snd ` set pts)"
  using assms
proof (induction "fst p" pts rule: lookup_scan.induct)
  case (3 p1 p2 ps)
  show ?case
  proof (cases "fst p1 \<le> fst p \<and> fst p \<le> fst p2")
    case True
    have "p = p1 \<or> p = p2"
    proof (rule ccontr)
      assume n: "\<not> (p = p1 \<or> p = p2)"
      then have "p \<in> set ps" using 3(4) by auto
      then have "fst p \<in> fst ` set ps" by simp
      moreover have "fst p2 \<notin> fst ` set ps" using 3(3) by simp
      ultimately have "fst p \<noteq> fst p2" by metis
      moreover have "fst p2 \<le> fst p" using 3(2) \<open>p \<in> set ps\<close> by simp
      ultimately show False using True by simp
    qed
    then show ?thesis using True 3(3) by (auto split: option.splits simp: image_iff)
  next
    case False
    then have "p \<noteq> p1" using 3(2) by auto
    then have p: "p \<in> set (p2 # ps)" using 3(4) by auto
    then have ps: "ps \<noteq> []" using False 3(2) by (cases ps) auto
    have "lookup_scan (fst p) (p2 # ps) = snd p \<or>
        lookup_scan (fst p) (p2 # ps) = None \<and> None \<in> snd ` set (p2 # ps)"
      using 3(1) [OF False _ _ p] 3(2,3) ps by (cases ps) auto
    then show ?thesis using False by auto
  qed
qed auto

lemma table_of_sorted: "table_of p = Some pts \<Longrightarrow> sorted (map fst pts)"
  by (auto simp: table_of_def split: option.splits jval.splits)

lemma sorted_ends:
  fixes pts :: "(real \<times> 'a) list"
  assumes "sorted (map fst pts)" "x \<in> set pts"
  shows "fst (hd pts) \<le> fst x" "fst x \<le> fst (last pts)"
  using assms by (induction pts) (auto simp: last_in_set)

section \<open>Well-formed parameters have values\<close>

lemma plain_number_num_of: "plain_number v = Some x \<Longrightarrow> num_of v = Some x"
  by (cases v) auto

lemma require_number_ok: "require_number p k = Inr u \<Longrightarrow> \<exists>x. num_at p k = Some x"
  by (auto simp: require_number_def num_at_def dest: plain_number_num_of split: option.splits if_splits)

lemma require_numbers_ok: "require_numbers p ks = Inr u \<Longrightarrow> k \<in> set ks \<Longrightarrow> \<exists>x. num_at p k = Some x"
  by (induction ks) (auto simp: bind_r_Inr_iff dest: require_number_ok)

lemma abc_numbers:
  assumes "require_numbers p [''a'', ''b'', ''c''] = Inr u"
  shows "\<exists>a b c. num_at p ''a'' = Some a \<and> num_at p ''b'' = Some b \<and> num_at p ''c'' = Some c"
  using require_numbers_ok [OF assms, of "''a''"] require_numbers_ok [OF assms, of "''b''"]
    require_numbers_ok [OF assms, of "''c''"] by simp

lemma those_Some: "those (map f xs) = Some ys \<longleftrightarrow> list_all2 (\<lambda>x y. f x = Some y) xs ys"
proof (induction xs arbitrary: ys)
  case (Cons x xs)
  then show ?case by (cases ys) (auto split: option.splits)
qed auto

lemma those_member: "those (map f xs) = Some ys \<Longrightarrow> x \<in> set xs \<Longrightarrow> f x = Some y \<Longrightarrow> y \<in> set ys"
  by (induction xs arbitrary: ys) (auto split: option.splits)

lemma those_total: "list_all (\<lambda>x. f x \<noteq> None) xs \<Longrightarrow> \<exists>ys. those (map f xs) = Some ys"
  by (induction xs) auto

lemma points_checked_ok:
  "points_checked ps = Inr vs \<Longrightarrow>
   \<exists>pts. those (map table_point ps) = Some pts \<and> map fst pts = vs \<and> list_all (\<lambda>q. snd q \<noteq> None) pts"
proof (induction ps arbitrary: vs)
  case (Cons p ps)
  then obtain v vs' where v: "point_checked p = Inr v" and vs': "points_checked ps = Inr vs'"
      and vs: "vs = v # vs'"
    by (auto simp: bind_r_Inr_iff)
  from v obtain f where "table_point p = Some (v, Some f)"
    by (auto simp: point_checked_def table_point_def num_at_def dest!: plain_number_num_of
        split: option.splits if_splits)
  with Cons.IH [OF vs'] vs show ?case by auto
qed auto

lemma valid_table:
  assumes "validate_curve_params Lookup params = Inr ()"
  obtains pts where "table_of params = Some pts" "2 \<le> length pts" "distinct (map fst pts)"
    "list_all (\<lambda>q. snd q \<noteq> None) pts"
proof -
  from assms obtain ps vs where ps: "item params ''points'' = Some (VList ps)" "2 \<le> length ps"
      and vs: "points_checked ps = Inr vs" "distinct vs"
    by (auto simp: validate_curve_params_def bind_r_Inr_iff split: jval.splits option.splits if_splits)
  from points_checked_ok [OF vs(1)] obtain pts where pts: "those (map table_point ps) = Some pts"
      "map fst pts = vs" "list_all (\<lambda>q. snd q \<noteq> None) pts" by blast
  have len: "length pts = length ps"
    using pts(1) unfolding those_Some by (auto dest: list_all2_lengthD)
  have "distinct (map fst (sort_key fst pts))"
    using vs(2) pts(2) by (metis distinct_map distinct_sort set_sort)
  then show ?thesis
    using that [of "sort_key fst pts"] ps pts len by (auto simp: table_of_def list_all_iff)
qed

lemma lookup_scan_total:
  assumes "list_all (\<lambda>q. snd q \<noteq> None) pts" "pts \<noteq> []"
  shows "\<exists>s. lookup_scan v pts = Some s"
  using assms by (induction v pts rule: lookup_scan.induct) auto

lemma valid_curve_value:
  assumes "validate_curve_params ty params = Inr ()"
    and "ty = SonReb \<Longrightarrow> \<exists>r. rebound = Some r \<and> 0 < r"
    and "ty = Lookup \<Longrightarrow> \<exists>pts. table_of params = Some pts \<and> fst (hd pts) \<le> v \<and> v \<le> fst (last pts)"
  shows "\<exists>s. curve_value ty params v rebound = Some s"
proof (cases ty)
  case Polynomial
  with assms(1) obtain cs where cs: "item params ''coeffs'' = Some (VList cs)"
      "list_all (\<lambda>c. plain_number c \<noteq> None) cs"
    by (auto simp: validate_curve_params_def split: jval.splits option.splits)
  then have "list_all (\<lambda>c. num_of c \<noteq> None) cs"
    by (auto simp: list_all_iff dest!: plain_number_num_of)
  then show ?thesis
    using those_total [of num_of cs] cs(1) Polynomial by (auto simp: curve_value_def coeffs_of_def)
next
  case Lookup
  obtain pts where pts: "table_of params = Some pts" "2 \<le> length pts" "list_all (\<lambda>q. snd q \<noteq> None) pts"
    using assms(1) Lookup by (metis valid_table)
  with assms(3) [OF Lookup] have span: "fst (hd pts) \<le> v" "v \<le> fst (last pts)" by auto
  have "pts \<noteq> []" using pts(2) by auto
  from lookup_scan_total [OF pts(3) this] show ?thesis
    using pts span Lookup by (auto simp: curve_value_def lookup_value_def)
next
  case Linear
  with assms(1) have "require_numbers params [''m'', ''c''] = Inr ()"
    by (simp add: validate_curve_params_def split: jval.splits)
  from require_numbers_ok [OF this] obtain m c where "num_at params ''m'' = Some m" "num_at params ''c'' = Some c"
    by force
  then show ?thesis by (simp add: curve_value_def Linear)
next
  case Exponential
  with assms(1) have "require_numbers params [''a'', ''b'', ''c''] = Inr ()"
    by (simp add: validate_curve_params_def split: jval.splits)
  from abc_numbers [OF this] show ?thesis by (auto simp add: curve_value_def Exponential)
next
  case SonReb
  with assms(1) have "require_numbers params [''a'', ''b'', ''c''] = Inr ()"
    by (simp add: validate_curve_params_def split: jval.splits)
  from abc_numbers [OF this] assms(2) [OF SonReb] show ?thesis by (auto simp add: curve_value_def SonReb)
qed (use assms(1) in \<open>auto simp: validate_curve_params_def split: jval.splits\<close>)

section \<open>The slope is the derivative\<close>

lemma poly_value_deriv:
  "((\<lambda>v. \<Sum>(i, c) \<leftarrow> enumerate n cs. c * v ^ i) has_real_derivative
    (\<Sum>(i, c) \<leftarrow> filter (\<lambda>(i, c). 1 \<le> i) (enumerate n cs). c * of_nat i * v ^ (i - 1))) (at v)"
proof (induction cs arbitrary: n)
  case (Cons c cs)
  have pw: "((\<lambda>v. c * v ^ n) has_real_derivative c * (of_nat n * v ^ (n - 1))) (at v)"
    by (rule DERIV_cmult) (auto intro!: derivative_eq_intros)
  show ?case
    using DERIV_add [OF pw Cons.IH [of "Suc n"]] by (cases n) (auto simp: algebra_simps)
qed simp

lemma affine_deriv: "((\<lambda>v. m * v + c) has_real_derivative m) (at v)" for m c v :: real
  by (auto intro!: derivative_eq_intros)

lemma exp_deriv: "((\<lambda>v. a * exp (b * v) + c) has_real_derivative a * b * exp (b * v)) (at v)" for a b c v :: real
  by (auto intro!: derivative_eq_intros)

lemma sonreb_deriv:
  fixes a b k v :: real
  assumes "0 < v"
  shows "((\<lambda>v. a * v powr b * k) has_real_derivative a * b * v powr (b - 1) * k) (at v)"
proof -
  have "((\<lambda>v. v powr b) has_real_derivative b * v powr (b - 1)) (at v)"
    using assms by (rule has_real_derivative_powr)
  from DERIV_cmult [OF this, of "a * k"] show ?thesis by (simp add: algebra_simps)
qed

section \<open>Results\<close>

text \<open>
  No strength is extrapolated: a curve yields one only for a positive velocity inside its
  calibrated range; a lookup table only inside its span, and then a strength between two of
  its own.
\<close>
theorem strength_within_calibration:
  assumes "apply_curve_params ty params velocity rebound rng = Some s"
  shows "\<exists>v. velocity = Some v \<and> 0 < v \<and> in_range rng (v * 1000) \<and>
    (ty = Lookup \<longrightarrow> (\<exists>pts lo hi p q. table_of params = Some pts \<and> {lo, hi, p, q} \<subseteq> set pts \<and>
       fst lo \<le> v * 1000 \<and> v * 1000 \<le> fst hi \<and>
       (\<exists>fp fq. snd p = Some fp \<and> snd q = Some fq \<and> fp \<le> s \<and> s \<le> fq)))"
proof -
  from assms obtain v where v: "velocity = Some v" "0 < v" "in_range rng (v * 1000)"
      and val: "curve_value ty params (v * 1000) rebound = Some s"
    by (auto simp: apply_curve_params_Some)
  have span: "\<exists>pts lo hi p q. table_of params = Some pts \<and> {lo, hi, p, q} \<subseteq> set pts \<and>
       fst lo \<le> v * 1000 \<and> v * 1000 \<le> fst hi \<and>
       (\<exists>fp fq. snd p = Some fp \<and> snd q = Some fq \<and> fp \<le> s \<and> s \<le> fq)" if ty: "ty = Lookup"
  proof -
    from val ty obtain pts where pts: "table_of params = Some pts" "2 \<le> length pts"
        "fst (hd pts) \<le> v * 1000" "v * 1000 \<le> fst (last pts)" "lookup_scan (v * 1000) pts = Some s"
      by (auto simp: curve_value_def lookup_value_def bind_eq_Some_conv split: if_splits)
    from lookup_scan_bounds [OF pts(5)] obtain p q fp fq where
        pq: "p \<in> set pts" "snd p = Some fp" "fp \<le> s" "q \<in> set pts" "snd q = Some fq" "s \<le> fq" by blast
    have "pts \<noteq> []" using pts(2) by auto
    with pq have "{hd pts, last pts, p, q} \<subseteq> set pts" by simp
    with pts(1,3,4) pq show ?thesis by (intro exI conjI)
  qed
  show ?thesis by (intro exI [of _ v] conjI impI) (fact v, fact v, fact v, erule span)
qed

definition demo_table :: jval where
  "demo_table = VDict [(''points'', VList [
     VDict [(''v'', VNum 4000), (''f'', VNum 30)], VDict [(''v'', VNum 3000), (''f'', VNum 20)]])]"

lemma demo_table_points: "table_of demo_table = Some [(3000, Some 20), (4000, Some 30)]"
  by (simp add: table_of_def demo_table_def table_point_def num_at_def insort_key_def)

lemma strength_within_calibration_witness:
  "apply_curve_params Lookup demo_table (Some (7/2)) None (Some (2000, 5000)) = Some 25 \<and>
   in_range (Some (2000, 5000)) (7/2 * 1000)"
proof -
  have "apply_curve_params Lookup demo_table (Some (7/2)) None (Some (2000, 5000)) = Some 25"
    by (simp add: apply_curve_params_def in_range_def curve_value_def lookup_value_def demo_table_points)
  moreover from strength_within_calibration [OF this] have "in_range (Some (2000, 5000)) (7/2 * 1000)"
    by (elim exE conjE) (simp only: option.inject)
  ultimately show ?thesis ..
qed

text \<open>
  The slope that turns a strength error into a velocity step is the derivative of the
  curve at that velocity, for every curve that is not piecewise.
\<close>
theorem curve_slope_is_derivative:
  assumes "curve_slope_mpa_per_ms ty params (Some x) rebound = Some d" "ty \<noteq> Lookup"
    and "validate_curve_params ty params = Inr ()"
  shows "((\<lambda>v. the (curve_value ty params v rebound)) has_real_derivative d) (at (x * 1000))"
proof (cases ty)
  case Linear
  from assms(3) Linear have "require_numbers params [''m'', ''c''] = Inr ()"
    by (simp add: validate_curve_params_def split: jval.splits)
  from require_numbers_ok [OF this, of "''c''"] obtain c where "num_at params ''c'' = Some c" by auto
  then show ?thesis
    using assms(1) Linear affine_deriv by (auto simp: curve_slope_mpa_per_ms_def curve_value_def split: if_splits)
next
  case Polynomial
  with assms(1) obtain cs where "coeffs_of params = Some cs" "d = poly_slope cs (x * 1000)"
    by (auto simp: curve_slope_mpa_per_ms_def Let_def split: if_splits)
  then show ?thesis
    using poly_value_deriv [of 0 cs "x * 1000"]
    unfolding curve_value_def Polynomial poly_value_def poly_slope_def by simp
next
  case Exponential
  from assms(3) Exponential have "require_numbers params [''a'', ''b'', ''c''] = Inr ()"
    by (simp add: validate_curve_params_def split: jval.splits)
  from abc_numbers [OF this] show ?thesis
    using assms(1) Exponential exp_deriv
    by (auto simp: curve_slope_mpa_per_ms_def curve_value_def Let_def split: if_splits)
next
  case SonReb
  from assms(3) SonReb have "require_numbers params [''a'', ''b'', ''c''] = Inr ()"
    by (simp add: validate_curve_params_def split: jval.splits)
  from abc_numbers [OF this] assms(1) SonReb show ?thesis
    using sonreb_deriv [of "x * 1000"]
    by (auto simp: curve_slope_mpa_per_ms_def curve_value_def Let_def split: if_splits option.splits)
qed (use assms in \<open>auto simp: curve_slope_mpa_per_ms_def split: if_splits\<close>)

definition demo_linear :: jval where
  "demo_linear = VDict [(''m'', VNum (1/100)), (''c'', VNum (- 20))]"

lemma curve_slope_is_derivative_witness:
  "((\<lambda>v. the (curve_value Linear demo_linear v None)) has_real_derivative 1/100) (at (4 * 1000))"
  by (rule curve_slope_is_derivative)
    (simp_all add: curve_slope_mpa_per_ms_def demo_linear_def num_at_def validate_curve_params_def
      require_number_def)

text \<open>
  A lookup table that passed validation reproduces each of its own points, whatever their
  order in the parameter set.
\<close>
theorem lookup_reproduces_points:
  assumes "validate_curve_params Lookup params = Inr ()"
    and "item params ''points'' = Some (VList ps)" "p \<in> set ps"
    and "num_at p ''v'' = Some v" "num_at p ''f'' = Some f" "in_range rng v"
  shows "apply_curve_params Lookup params (Some (v / 1000)) rebound rng = Some f"
proof -
  obtain pts where pts: "table_of params = Some pts" "2 \<le> length pts" "distinct (map fst pts)"
      "list_all (\<lambda>q. snd q \<noteq> None) pts"
    using assms(1) by (rule valid_table)
  obtain raw where raw: "those (map table_point ps) = Some raw" "pts = sort_key fst raw"
    using pts(1) assms(2) by (auto simp: table_of_def)
  have "table_point p = Some (v, Some f)" using assms(4,5) by (simp add: table_point_def)
  with raw(1) assms(3) have "(v, Some f) \<in> set raw"
    by (auto intro: those_member)
  then have mem: "(v, Some f) \<in> set pts" by (simp add: raw(2))
  have "lookup_scan v pts = Some f"
    using lookup_scan_at_point [OF table_of_sorted [OF pts(1)] pts(3) mem pts(2)] pts(4)
    by (auto simp: list_all_iff)
  moreover have "0 < v"
  proof -
    from assms(1,2) obtain vs where vs: "points_checked ps = Inr vs"
      by (auto simp: validate_curve_params_def bind_r_Inr_iff split: jval.splits if_splits)
    have "0 < v" if ok: "point_checked p = Inr w" for w
    proof -
      from ok obtain a b x where "item p ''v'' = Some a" "plain_number a = Some x" "0 < x"
        by (auto simp: point_checked_def split: option.splits if_splits)
      with assms(4) plain_number_num_of [of a x] show ?thesis by (simp add: num_at_def)
    qed
    moreover have pc: "points_checked qs = Inr ws \<Longrightarrow> p \<in> set qs \<Longrightarrow> \<exists>w. point_checked p = Inr w" for qs ws
      by (induction qs arbitrary: ws) (auto simp: bind_r_Inr_iff)
    moreover from pc [OF vs assms(3)] obtain w where "point_checked p = Inr w" ..
    ultimately show ?thesis by simp
  qed
  moreover have "fst (hd pts) \<le> v" "v \<le> fst (last pts)"
    using sorted_ends [OF table_of_sorted [OF pts(1)] mem] by simp_all
  ultimately show ?thesis
    using pts(1,2) assms(6) by (simp add: apply_curve_params_def curve_value_def lookup_value_def)
qed

lemma lookup_reproduces_points_witness:
  "apply_curve_params Lookup demo_table (Some (3000 / 1000)) None None = Some 20"
  by (rule lookup_reproduces_points)
    (auto simp: demo_table_def validate_curve_params_def point_checked_def num_at_def in_range_def)

text \<open>Well-formed parameters are usable everywhere in range: a missing strength then means a
  missing input or a velocity outside the calibration.\<close>

lemma valid_params_evaluate:
  assumes "validate_curve_params ty params = Inr ()" "0 < v" "in_range rng (v * 1000)" "ty \<noteq> Lookup"
    and "ty = SonReb \<Longrightarrow> 0 < r"
  shows "\<exists>s. apply_curve_params ty params (Some v) (Some r) rng = Some s"
  using valid_curve_value [OF assms(1), of "Some r" "v * 1000"] assms(2-)
  by (auto simp: apply_curve_params_def)

end
