(* ===== verification/Strength_Adjustment.thy ===== *)
theory Strength_Adjustment
  imports Strength_Curves
begin

text \<open>
  How the scatter of a calibration enters a reported strength:
  \<^verbatim>\<open>apps/digital_eye/se_adjustment.py\<close>, the fit statistics and the path of every
  reported figure in \<^verbatim>\<open>apps/digital_eye/strength_curves.py\<close>, and the checks of
  \<^verbatim>\<open>StrengthCurveSerializer\<close>. The sentences of a disclosure are given by a constructor
  for each of them.
\<close>

section \<open>Rounding\<close>

text \<open>\<^verbatim>\<open>round(x, k)\<close>: to the nearest multiple of a power of ten, ties to the even one.\<close>

definition round_half_even :: "real \<Rightarrow> int" where
  "round_half_even y =
     (let f = \<lfloor>y\<rfloor>; d = y - of_int f
      in if d < 1/2 then f else if d > 1/2 then f + 1 else if even f then f else f + 1)"

definition round_to :: "nat \<Rightarrow> real \<Rightarrow> real" where
  "round_to k x = of_int (round_half_even (x * 10 ^ k)) / 10 ^ k"

lemma round_half_even_of_int [simp]: "round_half_even (of_int i) = i"
  by (simp add: round_half_even_def)

lemma round_to_zero [simp]: "round_to k 0 = 0"
  using round_half_even_of_int [of 0] by (simp add: round_to_def)

lemma round_to_nonneg: "0 \<le> x \<Longrightarrow> 0 \<le> round_to k x"
  by (auto simp: round_to_def round_half_even_def Let_def intro!: divide_nonneg_nonneg)

lemma round_to_close: "\<bar>round_to k x - x\<bar> \<le> 1 / (2 * 10 ^ k)"
proof -
  let ?y = "x * 10 ^ k"
  have "\<bar>of_int (round_half_even ?y) - ?y\<bar> \<le> 1/2"
    by (auto simp: round_half_even_def Let_def)
  then have "\<bar>of_int (round_half_even ?y) - ?y\<bar> / 10 ^ k \<le> (1/2) / 10 ^ k"
    by (rule divide_right_mono) simp
  moreover have "round_to k x - x = (of_int (round_half_even ?y) - ?y) / 10 ^ k"
    by (simp add: round_to_def diff_divide_distrib)
  ultimately show ?thesis by (simp add: abs_divide)
qed

section \<open>Curves and their statistics\<close>

datatype se_method = No_Adjustment | Bias_Correction | Confidence_Margin | Other_Method string

record strength_curve =
  cv_id :: nat
  cv_name :: string
  cv_type :: curve_type
  cv_params :: jval
  cv_points :: "jval list"
  cv_min_ms :: "real option"
  cv_max_ms :: "real option"
  cv_r2 :: "real option"
  cv_se :: "real option"
  cv_aic :: "real option"
  cv_method :: se_method
  cv_factor :: real
  cv_default :: bool

definition valid_range :: "strength_curve \<Rightarrow> (real \<times> real) option" where
  "valid_range c = (case (cv_min_ms c, cv_max_ms c) of (Some lo, Some hi) \<Rightarrow> Some (lo, hi) | _ \<Rightarrow> None)"

definition curve_apply :: "strength_curve \<Rightarrow> real option \<Rightarrow> real option \<Rightarrow> real option" where
  "curve_apply c velocity rebound =
     apply_curve_params (cv_type c) (cv_params c) velocity rebound (valid_range c)"

text \<open>\<^verbatim>\<open>_fit_stats\<close>: R squared, standard error and AIC of predictions.\<close>

definition fit_stats :: "real list \<Rightarrow> real list \<Rightarrow> nat \<Rightarrow> real option \<times> real option \<times> real option" where
  "fit_stats obs pred k =
     (let n = length obs;
          ss_res = (\<Sum>(fo, fp) \<leftarrow> zip obs pred. (fo - fp)\<^sup>2);
          mean = sum_list obs / of_nat n;
          ss_tot = (\<Sum>fo \<leftarrow> obs. (fo - mean)\<^sup>2)
      in (if 0 < ss_tot then Some (1 - ss_res / ss_tot) else None,
          if k < n then Some (sqrt (ss_res / of_nat (n - k))) else None,
          if 0 < ss_res \<and> 0 < n then Some (of_nat n * ln (ss_res / of_nat n) + 2 * of_nat k) else None))"

text \<open>The pairs that count: objects whose \<open>v\<close> and \<open>f\<close> are numbers.\<close>

definition calibration_pair :: "jval \<Rightarrow> (real \<times> real \<times> jval) option" where
  "calibration_pair p = (case (Option.bind (item p ''v'') plain_number, Option.bind (item p ''f'') plain_number) of
      (Some v, Some f) \<Rightarrow> Some (v, f, p) | _ \<Rightarrow> None)"

definition calibration_pairs :: "jval list \<Rightarrow> (real \<times> real \<times> jval) list" where
  "calibration_pairs ps = List.map_filter calibration_pair ps"

text \<open>A prediction at a calibration pair has no range gate.\<close>

definition predicted :: "curve_type \<Rightarrow> jval \<Rightarrow> real \<times> real \<times> jval \<Rightarrow> real option" where
  "predicted ty params = (\<lambda>(v, f, p). apply_curve_params ty params (Some (v / 1000)) (num_at p ''r'') None)"

definition scored_pairs :: "curve_type \<Rightarrow> jval list \<Rightarrow> (real \<times> real \<times> jval) list" where
  "scored_pairs ty ps =
     (if ty = SonReb
      then filter (\<lambda>(v, f, p). case Option.bind (item p ''r'') plain_number of Some r \<Rightarrow> 0 < r | None \<Rightarrow> False)
             (calibration_pairs ps)
      else calibration_pairs ps)"

definition param_count :: "curve_type \<Rightarrow> jval \<Rightarrow> nat" where
  "param_count ty params = (case ty of
      Polynomial \<Rightarrow> (case item params ''coeffs'' of Some (VList cs) \<Rightarrow> length cs | _ \<Rightarrow> 0)
    | Linear \<Rightarrow> 2 | _ \<Rightarrow> 3)"

definition curve_fit_stats ::
    "curve_type \<Rightarrow> jval \<Rightarrow> jval list \<Rightarrow> real option \<times> real option \<times> real option" where
  "curve_fit_stats ty params ps =
     (if ty \<notin> {Linear, Polynomial, Exponential, SonReb} then (None, None, None)
      else let pairs = scored_pairs ty ps
           in if length pairs < 2 then (None, None, None)
              else case those (map (predicted ty params) pairs) of
                     None \<Rightarrow> (None, None, None)
                   | Some preds \<Rightarrow> fit_stats (map (\<lambda>(v, f, p). f) pairs) preds (param_count ty params))"

text \<open>\<^verbatim>\<open>StrengthCurve.save()\<close> derives the statistics.\<close>

definition curve_saved :: "strength_curve \<Rightarrow> strength_curve" where
  "curve_saved c = (case curve_fit_stats (cv_type c) (cv_params c) (cv_points c) of
      (r2, se, aic) \<Rightarrow> c\<lparr>cv_r2 := r2, cv_se := se, cv_aic := aic\<rparr>)"

section \<open>The standard error of a calibration\<close>

datatype unavailable = Table_Has_No_Error | Too_Few_Pairs nat | Cannot_Evaluate | No_Freedom

record se_analysis =
  an_pairs :: nat
  an_se :: "real option"
  an_bias :: "real option"
  an_r2 :: "real option"
  an_aic :: "real option"
  an_available :: bool
  an_reason :: "unavailable option"

definition min_pairs_for_adjustment :: nat where
  "min_pairs_for_adjustment = 3"

definition standard_error_analysis :: "strength_curve \<Rightarrow> se_analysis" where
  "standard_error_analysis c =
     (let pairs = calibration_pairs (cv_points c);
          none = \<lparr>an_pairs = length pairs, an_se = None, an_bias = None, an_r2 = cv_r2 c, an_aic = cv_aic c,
                  an_available = False, an_reason = None\<rparr>
      in if cv_type c = Lookup then none\<lparr>an_reason := Some Table_Has_No_Error\<rparr>
         else if length pairs < min_pairs_for_adjustment
         then none\<lparr>an_reason := Some (Too_Few_Pairs (length pairs))\<rparr>
         else case those (map (predicted (cv_type c) (cv_params c)) pairs) of
                None \<Rightarrow> none\<lparr>an_reason := Some Cannot_Evaluate\<rparr>
              | Some preds \<Rightarrow>
                  let residuals = map (\<lambda>((v, f, p), fp). f - fp) (zip pairs preds);
                      se = fst (snd (curve_fit_stats (cv_type c) (cv_params c) (cv_points c)))
                  in none\<lparr>an_bias := Some (round_to 4 (sum_list residuals / of_nat (length residuals))),
                          an_se := map_option (round_to 4) se,
                          an_available := se \<noteq> None,
                          an_reason := if se = None then Some No_Freedom else None\<rparr>)"

section \<open>The policy on a strength\<close>

datatype se_detail =
    No_Estimate | Not_Configured | Not_Supported unavailable | Bias_Added | Margin_Deducted
  | Factor_Not_Positive real | Unknown_Method
  | Kept_On_Strength_No_Slope | Kept_On_Strength_Out_Of_Range | Moved_The_Velocity

record velocity_step =
  vs_slope :: real
  vs_delta :: real
  vs_base :: real
  vs_adjusted :: real

record disclosure =
  ds_method :: se_method
  ds_factor :: real
  ds_points :: "int option"
  ds_base :: "real option"
  ds_adjusted :: "real option"
  ds_se :: "real option"
  ds_bias :: "real option"
  ds_applied :: bool
  ds_detail :: se_detail
  ds_step :: "velocity_step option"

text \<open>An empty method text counts as no method; without a curve there is none.\<close>

definition method_of :: "strength_curve option \<Rightarrow> se_method" where
  "method_of c = (case c of
      None \<Rightarrow> No_Adjustment
    | Some c \<Rightarrow> if cv_method c = Other_Method [] then No_Adjustment else cv_method c)"

definition averaged_points :: "int option \<Rightarrow> int option" where
  "averaged_points n = (case n of Some k \<Rightarrow> if k < 1 then None else Some k | None \<Rightarrow> None)"

definition disclosed :: "strength_curve option \<Rightarrow> int option \<Rightarrow> real option \<Rightarrow> disclosure" where
  "disclosed c n base =
     \<lparr>ds_method = method_of c, ds_factor = (case c of None \<Rightarrow> 1 | Some c \<Rightarrow> cv_factor c),
      ds_points = averaged_points n, ds_base = map_option (round_to 4) base,
      ds_adjusted = map_option (round_to 4) base, ds_se = None, ds_bias = None,
      ds_applied = False, ds_detail = No_Estimate, ds_step = None\<rparr>"

definition margin_divisor :: "int option \<Rightarrow> real" where
  "margin_divisor n = (case n of Some k \<Rightarrow> if 1 < k then sqrt (of_int k) else 1 | None \<Rightarrow> 1)"

definition apply_se_adjustment ::
    "real option \<Rightarrow> strength_curve option \<Rightarrow> int option \<Rightarrow> real option \<times> disclosure" where
  "apply_se_adjustment base_f curve n =
     (let d = disclosed curve n base_f
      in case base_f of
           None \<Rightarrow> (None, d)
         | Some base \<Rightarrow>
           (case curve of
              None \<Rightarrow> (Some base, d\<lparr>ds_detail := Not_Configured\<rparr>)
            | Some c \<Rightarrow>
              if method_of curve = No_Adjustment then (Some base, d\<lparr>ds_detail := Not_Configured\<rparr>)
              else let st = standard_error_analysis c;
                       d = d\<lparr>ds_se := an_se st, ds_bias := an_bias st\<rparr>
                   in if \<not> an_available st
                      then (Some base, d\<lparr>ds_detail := Not_Supported (the (an_reason st))\<rparr>)
                      else (case method_of curve of
                          Bias_Correction \<Rightarrow>
                            (let adjusted = base + the (an_bias st)
                             in (Some adjusted, d\<lparr>ds_adjusted := Some (round_to 4 adjusted),
                                   ds_applied := True, ds_detail := Bias_Added\<rparr>))
                        | Confidence_Margin \<Rightarrow>
                            if cv_factor c \<le> 0
                            then (Some base, d\<lparr>ds_detail := Factor_Not_Positive (cv_factor c)\<rparr>)
                            else (let adjusted = base - cv_factor c * the (an_se st) / margin_divisor (averaged_points n)
                                  in (Some adjusted, d\<lparr>ds_adjusted := Some (round_to 4 adjusted),
                                        ds_applied := True, ds_detail := Margin_Deducted\<rparr>))
                        | _ \<Rightarrow> (Some base, d\<lparr>ds_detail := Unknown_Method\<rparr>))))"

section \<open>The policy on the velocity\<close>

definition apply_se_adjustment_at_velocity ::
    "real option \<Rightarrow> strength_curve \<Rightarrow> int option \<Rightarrow> real option \<Rightarrow> real option \<times> disclosure" where
  "apply_se_adjustment_at_velocity velocity c n rebound =
     (let base = curve_apply c velocity rebound
      in case apply_se_adjustment base (Some c) n of (adjusted, d) \<Rightarrow>
         if base = None \<or> \<not> ds_applied d then (adjusted, d)
         else let delta = the adjusted - the base
              in if delta = 0 then (adjusted, d)
                 else case curve_slope_mpa_per_ms (cv_type c) (cv_params c) velocity rebound of
                        None \<Rightarrow> (adjusted, d\<lparr>ds_step := None, ds_detail := Kept_On_Strength_No_Slope\<rparr>)
                      | Some slope \<Rightarrow>
                        if slope = 0 then (adjusted, d\<lparr>ds_step := None, ds_detail := Kept_On_Strength_No_Slope\<rparr>)
                        else let v = the velocity; delta_v = delta / slope; moved = v + delta_v / 1000;
                                 step = \<lparr>vs_slope = round_to 6 slope, vs_delta = round_to 2 delta_v,
                                         vs_base = round_to 2 (v * 1000), vs_adjusted = round_to 2 (moved * 1000)\<rparr>
                             in case curve_apply c (Some moved) rebound of
                                  None \<Rightarrow> (adjusted, d\<lparr>ds_step := Some step, ds_detail := Kept_On_Strength_Out_Of_Range\<rparr>)
                                | Some final \<Rightarrow>
                                    (Some final, d\<lparr>ds_step := Some step, ds_adjusted := Some (round_to 4 final),
                                                  ds_detail := Moved_The_Velocity\<rparr>))"

section \<open>The path of every reported strength\<close>

text \<open>The curve a project activated, else the default one, first by name.\<close>

definition resolve_active_curve ::
    "strength_curve list \<Rightarrow> (nat \<Rightarrow> nat option) \<Rightarrow> nat option \<Rightarrow> strength_curve option" where
  "resolve_active_curve curves active project =
     (case Option.bind project (\<lambda>p. Option.bind (active p) (\<lambda>k. first_where (\<lambda>c. cv_id c = k) curves)) of
        Some c \<Rightarrow> Some c
      | None \<Rightarrow> first_where cv_default (sort_key cv_name curves))"

record curve_snapshot =
  sn_curve :: "nat option"
  sn_type :: curve_type
  sn_params :: jval
  sn_range :: "real option \<times> real option"
  sn_r2 :: "real option"
  sn_se :: "real option"
  sn_temperature :: bool
  sn_adjustment :: "disclosure option"

definition curve_snapshot_of :: "strength_curve \<Rightarrow> real option \<Rightarrow> curve_snapshot" where
  "curve_snapshot_of c t =
     \<lparr>sn_curve = Some (cv_id c), sn_type = cv_type c, sn_params = cv_params c,
      sn_range = (cv_min_ms c, cv_max_ms c), sn_r2 = cv_r2 c, sn_se = cv_se c,
      sn_temperature = temperature_correction_applied t, sn_adjustment = None\<rparr>"

definition builtin_params :: jval where
  "builtin_params = VDict [(''a'', VNum 1.2), (''b'', VNum 0.00085), (''c'', VNum 0)]"

definition builtin_curve_snapshot :: "real option \<Rightarrow> curve_snapshot" where
  "builtin_curve_snapshot t =
     \<lparr>sn_curve = None, sn_type = Exponential, sn_params = builtin_params,
      sn_range = (Some 2000, Some 5000), sn_r2 = None, sn_se = None,
      sn_temperature = temperature_correction_applied t, sn_adjustment = None\<rparr>"

definition apply_active_curve ::
    "strength_curve list \<Rightarrow> (nat \<Rightarrow> nat option) \<Rightarrow> nat option \<Rightarrow> real option \<Rightarrow> real option \<Rightarrow> real option
     \<Rightarrow> int option \<Rightarrow> real option \<times> curve_snapshot" where
  "apply_active_curve curves active project velocity rebound temperature n =
     (let corrected = temperature_corrected_velocity velocity temperature
      in case resolve_active_curve curves active project of
           None \<Rightarrow>
             let strength = apply_curve_params Exponential builtin_params corrected rebound (Some (2000, 5000))
             in case apply_se_adjustment strength None n of (adjusted, d) \<Rightarrow>
                  (adjusted, (builtin_curve_snapshot temperature)\<lparr>sn_adjustment := Some d\<rparr>)
         | Some c \<Rightarrow>
             case apply_se_adjustment_at_velocity corrected c n rebound of (adjusted, d) \<Rightarrow>
               (adjusted, (curve_snapshot_of c temperature)\<lparr>sn_adjustment := Some d\<rparr>))"

section \<open>What the policy does to a figure\<close>

named_theorems policy_simps

declare apply_se_adjustment_def [policy_simps] disclosed_def [policy_simps] Let_def [policy_simps]

lemma fit_error_nonneg: "fst (snd (curve_fit_stats ty params ps)) = Some s \<Longrightarrow> 0 \<le> s"
proof -
  have sq: "0 \<le> (\<Sum>(fo, fp) \<leftarrow> zs. (fo - fp)\<^sup>2)" for zs :: "(real \<times> real) list"
    by (induction zs) auto
  show "fst (snd (curve_fit_stats ty params ps)) = Some s \<Longrightarrow> 0 \<le> s"
    by (auto simp: curve_fit_stats_def fit_stats_def Let_def sq divide_nonneg_nonneg
        split: if_splits option.splits)
qed

lemma analysis_available:
  assumes "an_available (standard_error_analysis c)"
  obtains s b where "an_se (standard_error_analysis c) = Some s" "0 \<le> s"
    "an_bias (standard_error_analysis c) = Some b"
    "3 \<le> length (calibration_pairs (cv_points c))" "cv_type c \<noteq> Lookup"
proof -
  from assms have lk: "cv_type c \<noteq> Lookup" and n: "3 \<le> length (calibration_pairs (cv_points c))"
    by (auto simp: standard_error_analysis_def Let_def min_pairs_for_adjustment_def split: if_splits)
  with assms obtain preds where preds:
      "those (map (predicted (cv_type c) (cv_params c)) (calibration_pairs (cv_points c))) = Some preds"
    by (auto simp: standard_error_analysis_def Let_def min_pairs_for_adjustment_def split: option.splits)
  with assms lk n obtain s0 where
      s0: "fst (snd (curve_fit_stats (cv_type c) (cv_params c) (cv_points c))) = Some s0"
    by (auto simp: standard_error_analysis_def Let_def min_pairs_for_adjustment_def)
  have "an_se (standard_error_analysis c) = Some (round_to 4 s0)"
    using lk n preds s0 by (simp add: standard_error_analysis_def Let_def min_pairs_for_adjustment_def)
  moreover have "\<exists>b. an_bias (standard_error_analysis c) = Some b"
    using lk n preds by (simp add: standard_error_analysis_def Let_def min_pairs_for_adjustment_def)
  ultimately show ?thesis
    using that lk n round_to_nonneg [OF fit_error_nonneg [OF s0]] by blast
qed

text \<open>The three ways the policy can end on a strength that exists.\<close>

lemma apply_se_adjustment_cases:
  assumes "apply_se_adjustment (Some base) (Some c) n = (r, d)"
  obtains (inert) "r = Some base" "\<not> ds_applied d"
  | (bias) b where "method_of (Some c) = Bias_Correction" "an_available (standard_error_analysis c)"
      "an_bias (standard_error_analysis c) = Some b" "r = Some (base + b)" "ds_applied d"
  | (margin) s where "method_of (Some c) = Confidence_Margin" "an_available (standard_error_analysis c)"
      "an_se (standard_error_analysis c) = Some s" "0 \<le> s" "0 < cv_factor c" "ds_applied d"
      "r = Some (base - cv_factor c * s / margin_divisor (averaged_points n))"
proof (cases "method_of (Some c) = No_Adjustment \<or> \<not> an_available (standard_error_analysis c)")
  case True
  with assms show ?thesis by (intro inert) (auto simp: policy_simps split: if_splits)
next
  case False
  then have av: "an_available (standard_error_analysis c)" by simp
  from av obtain s b where sb: "an_se (standard_error_analysis c) = Some s" "0 \<le> s"
      "an_bias (standard_error_analysis c) = Some b"
    by (rule analysis_available)
  show ?thesis
  proof (cases "method_of (Some c)")
    case Bias_Correction
    with assms False sb show ?thesis by (intro bias [of b]) (auto simp: policy_simps)
  next
    case Confidence_Margin
    show ?thesis
    proof (cases "cv_factor c \<le> 0")
      case True
      with assms False Confidence_Margin show ?thesis by (intro inert) (auto simp: policy_simps)
    next
      case pos: False
      with assms False sb Confidence_Margin show ?thesis
        by (intro margin [of s]) (auto simp: policy_simps)
    qed
  next
    case (Other_Method x)
    with assms False show ?thesis by (intro inert) (auto simp: policy_simps)
  qed (use False in simp)
qed

lemma margin_divisor_pos: "0 < margin_divisor n"
  by (auto simp: margin_divisor_def split: option.splits)

lemma apply_se_adjustment_None: "apply_se_adjustment None c n = (r, d) \<Longrightarrow> r = None \<and> \<not> ds_applied d"
  by (auto simp: policy_simps)

text \<open>The ways it ends on a velocity; \<open>moved\<close> is the velocity after the step.\<close>

lemma at_velocity_cases:
  assumes "apply_se_adjustment_at_velocity velocity c n rebound = (r, d)"
    and "apply_se_adjustment (curve_apply c velocity rebound) (Some c) n = (adjusted, d')"
  obtains (strength) "r = adjusted" "ds_detail d \<noteq> Moved_The_Velocity"
  | (velocity) v base slope where "velocity = Some v" "curve_apply c velocity rebound = Some base"
      "ds_applied d'" "the adjusted \<noteq> base" "slope \<noteq> 0"
      "curve_slope_mpa_per_ms (cv_type c) (cv_params c) velocity rebound = Some slope"
      "r = curve_apply c (Some (v + (the adjusted - base) / slope / 1000)) rebound" "r \<noteq> None"
      "ds_detail d = Moved_The_Velocity"
proof -
  have still: "ds_detail d' \<noteq> Moved_The_Velocity"
    using assms(2) by (auto simp: policy_simps split: option.splits if_splits se_method.splits)
  show ?thesis
  proof (cases "curve_apply c velocity rebound")
    case None
    with assms still show ?thesis
      by (intro strength) (auto simp: apply_se_adjustment_at_velocity_def)
  next
    case (Some base)
    then obtain v where v: "velocity = Some v" by (auto simp: curve_apply_def apply_curve_params_Some)
    show ?thesis
    proof (cases "ds_applied d' \<and> the adjusted \<noteq> base")
      case False
      with assms still Some show ?thesis
        by (intro strength) (auto simp: apply_se_adjustment_at_velocity_def Let_def split: if_splits)
    next
      case True
      show ?thesis
      proof (cases "\<exists>slope. curve_slope_mpa_per_ms (cv_type c) (cv_params c) velocity rebound = Some slope \<and> slope \<noteq> 0")
        case False
        with assms still Some True show ?thesis
          by (intro strength) (auto simp: apply_se_adjustment_at_velocity_def Let_def split: option.splits)
      next
        case slope: True
        then obtain m where m: "curve_slope_mpa_per_ms (cv_type c) (cv_params c) velocity rebound = Some m" "m \<noteq> 0"
          by blast
        show ?thesis
        proof (cases "curve_apply c (Some (v + (the adjusted - base) / m / 1000)) rebound")
          case None
          with assms still Some True m v show ?thesis
            by (intro strength) (auto simp: apply_se_adjustment_at_velocity_def Let_def)
        next
          case (Some final)
          with assms True m v \<open>curve_apply c velocity rebound = Some base\<close> show ?thesis
            by (intro velocity [of v base m], auto simp: apply_se_adjustment_at_velocity_def Let_def) metis
        qed
      qed
    qed
  qed
qed

section \<open>Results\<close>

text \<open>
  C23. Correcting the velocity or the strength is the same on a straight line: wherever the
  velocity lies and whatever the policy, the figure is that of the strength-domain rule.
\<close>
theorem linear_policies_agree:
  assumes "cv_type c = Linear"
  shows "fst (apply_se_adjustment_at_velocity velocity c n rebound) =
    fst (apply_se_adjustment (curve_apply c velocity rebound) (Some c) n)"
proof -
  obtain r d where rd: "apply_se_adjustment_at_velocity velocity c n rebound = (r, d)" by force
  obtain adjusted d' where ad: "apply_se_adjustment (curve_apply c velocity rebound) (Some c) n = (adjusted, d')"
    by force
  from rd ad show ?thesis
  proof (cases rule: at_velocity_cases)
    case (velocity v base slope)
    then obtain k where k: "num_at (cv_params c) ''m'' = Some slope" "num_at (cv_params c) ''c'' = Some k"
        "base = slope * (v * 1000) + k"
      using assms by (auto simp: curve_apply_def apply_curve_params_Some curve_value_def
          curve_slope_mpa_per_ms_def split: option.splits if_splits)
    from velocity(7,8) have "r = Some (slope * ((v + (the adjusted - base) / slope / 1000) * 1000) + k)"
      using assms k by (auto simp: curve_apply_def apply_curve_params_Some curve_value_def)
    also have "\<dots> = Some (the adjusted)"
      using k(3) velocity(5) by (simp add: field_simps)
    also have "\<dots> = adjusted"
      using ad velocity(2) by (auto elim: apply_se_adjustment_cases)
    finally show ?thesis by (simp add: rd ad)
  qed (simp add: rd ad)
qed

definition demo_curve :: strength_curve where
  "demo_curve =
     \<lparr>cv_id = 1, cv_name = ''site mix'', cv_type = Linear, cv_params = demo_linear, cv_points = [
        VDict [(''v'', VNum 3000), (''f'', VNum 11)], VDict [(''v'', VNum 4000), (''f'', VNum 19)],
        VDict [(''v'', VNum 5000), (''f'', VNum 31)]],
      cv_min_ms = Some 2000, cv_max_ms = Some 5000, cv_r2 = None, cv_se = None, cv_aic = None,
      cv_method = Confidence_Margin, cv_factor = 1, cv_default = True\<rparr>"

lemma linear_policies_agree_witness:
  "fst (apply_se_adjustment_at_velocity (Some 4) demo_curve (Some 3) None) =
   fst (apply_se_adjustment (curve_apply demo_curve (Some 4) None) (Some demo_curve) (Some 3))"
  by (rule linear_policies_agree) (simp add: demo_curve_def)

text \<open>
  A range with only one end is no range (\<^verbatim>\<open>StrengthCurve.apply\<close> passes none on): such a
  curve answers at any positive velocity, beyond the end it names as well.
\<close>

lemma one_sided_range_extrapolates:
  assumes "cv_min_ms c = None \<or> cv_max_ms c = None" "cv_type c = Linear"
    and "num_at (cv_params c) ''m'' = Some m" "num_at (cv_params c) ''c'' = Some k" "0 < v"
  shows "curve_apply c (Some v) rebound = Some (m * (v * 1000) + k)"
  using assms by (auto simp: curve_apply_def apply_curve_params_def valid_range_def in_range_def
      curve_value_def split: option.splits)

lemma no_curve_no_adjustment:
  assumes "apply_se_adjustment base None n = (r, d)"
  shows "r = base \<and> \<not> ds_applied d"
  using assms by (cases base) (auto simp: apply_se_adjustment_def disclosed_def Let_def)

text \<open>
  C20. No figure is extrapolated on its way to a report. Behind every strength stands a positive
  corrected velocity. Where the project resolves to a curve, the snapshot names that curve, the
  velocity is inside its range, and when the error was folded into the velocity, the figure is the
  curve's own at a moved velocity that is inside the range too. Where no curve resolves, the
  velocity is between 2000 and 5000 m/s, the figure is the built-in curve's own, unadjusted, and
  the snapshot names no curve. A range is given by both of its ends: a curve with one end only
  imposes no bound, and then the statement gives none.
\<close>
theorem reported_strength_within_calibration:
  assumes "apply_active_curve curves active project velocity rebound t n = (Some s, sn)"
  shows "\<exists>v d. temperature_corrected_velocity velocity t = Some v \<and> 0 < v \<and> sn_adjustment sn = Some d \<and>
    (case resolve_active_curve curves active project of
       Some c \<Rightarrow> sn_curve sn = Some (cv_id c) \<and> in_range (valid_range c) (v * 1000) \<and>
         (ds_detail d = Moved_The_Velocity \<longrightarrow>
            (\<exists>w. 0 < w \<and> in_range (valid_range c) (w * 1000) \<and> curve_apply c (Some w) rebound = Some s))
     | None \<Rightarrow> sn_curve sn = None \<and> \<not> ds_applied d \<and> 2000 \<le> v * 1000 \<and> v * 1000 \<le> 5000 \<and>
         s = 1.2 * exp (0.00085 * (v * 1000)))"
proof (cases "resolve_active_curve curves active project")
  case None
  let ?v = "temperature_corrected_velocity velocity t"
  let ?base = "apply_curve_params Exponential builtin_params ?v rebound (Some (2000, 5000))"
  obtain r d where ad: "apply_se_adjustment ?base None n = (r, d)" by force
  from assms None ad have r: "r = Some s"
    and sn: "sn = (builtin_curve_snapshot t)\<lparr>sn_adjustment := Some d\<rparr>"
    by (auto simp: apply_active_curve_def)
  from no_curve_no_adjustment [OF ad] r have base: "?base = Some s" and d: "\<not> ds_applied d"
    by simp_all
  then obtain v where v: "?v = Some v" "0 < v" "in_range (Some (2000, 5000)) (v * 1000)"
    "curve_value Exponential builtin_params (v * 1000) rebound = Some s"
    by (auto simp: apply_curve_params_Some)
  from v(4) have "s = 1.2 * exp (0.00085 * (v * 1000))"
    by (simp add: curve_value_def builtin_params_def num_at_def)
  with v d sn None show ?thesis
    by (intro exI [of _ v] exI [of _ d]) (simp add: builtin_curve_snapshot_def in_range_def)
next
  case (Some c)
  let ?v = "temperature_corrected_velocity velocity t"
  obtain r d where rd: "apply_se_adjustment_at_velocity ?v c n rebound = (r, d)" by force
  obtain adjusted d' where ad: "apply_se_adjustment (curve_apply c ?v rebound) (Some c) n = (adjusted, d')"
    by force
  from assms Some rd have r: "r = Some s" and sn: "sn = (curve_snapshot_of c t)\<lparr>sn_adjustment := Some d\<rparr>"
    by (auto simp: apply_active_curve_def)
  have fields: "sn_curve sn = Some (cv_id c)" "sn_adjustment sn = Some d"
    by (simp_all add: sn curve_snapshot_of_def)
  from rd ad show ?thesis
  proof (cases rule: at_velocity_cases)
    case strength
    with r ad obtain base where "curve_apply c ?v rebound = Some base"
      by (cases "curve_apply c ?v rebound") (auto dest: apply_se_adjustment_None)
    then show ?thesis using fields strength Some by (auto simp: curve_apply_def apply_curve_params_Some)
  next
    case (velocity v base slope)
    have "curve_apply c (Some (v + (the adjusted - base) / slope / 1000)) rebound = Some s"
      using velocity(7) r by simp
    then obtain w where "0 < w" "in_range (valid_range c) (w * 1000)" "curve_apply c (Some w) rebound = Some s"
      by (auto simp: curve_apply_def apply_curve_params_Some)
    with velocity(1,2) fields Some show ?thesis by (auto simp: curve_apply_def apply_curve_params_Some)
  qed
qed

lemma reported_strength_within_calibration_witness:
  "(\<exists>sn v. apply_active_curve [demo_curve\<lparr>cv_method := No_Adjustment\<rparr>] (\<lambda>_. None) None (Some 4) None None (Some 3) =
     (Some 20, sn) \<and> temperature_corrected_velocity (Some 4) None = Some v \<and> sn_curve sn = Some 1)
   \<and> (\<exists>s sn. apply_active_curve [] (\<lambda>_. None) None (Some 4) None None None = (Some s, sn) \<and> sn_curve sn = None)"
proof
  let ?c = "demo_curve\<lparr>cv_method := No_Adjustment\<rparr>"
  obtain r sn where rs: "apply_active_curve [?c] (\<lambda>_. None) None (Some 4) None None (Some 3) = (r, sn)" by force
  have c: "resolve_active_curve [?c] (\<lambda>_. None) None = Some ?c"
    by (simp add: resolve_active_curve_def demo_curve_def first_where_def)
  have t: "temperature_corrected_velocity (Some 4) None = Some 4"
    by (simp add: temperature_corrected_velocity_def temperature_correction_applied_def)
  have "curve_apply ?c (Some 4) None = Some 20"
    by (simp add: curve_apply_def apply_curve_params_def curve_value_def demo_curve_def demo_linear_def
        valid_range_def in_range_def num_at_def)
  moreover have "method_of (Some ?c) = No_Adjustment" by (simp add: method_of_def)
  ultimately have "fst (apply_se_adjustment_at_velocity (Some 4) ?c (Some 3) None) = Some 20"
    by (simp add: apply_se_adjustment_at_velocity_def apply_se_adjustment_def disclosed_def Let_def)
  then have "r = Some 20" using rs
    unfolding apply_active_curve_def c t Let_def option.case by (auto split: prod.splits)
  with rs have run: "apply_active_curve [?c] (\<lambda>_. None) None (Some 4) None None (Some 3) = (Some 20, sn)" by simp
  obtain v d where "temperature_corrected_velocity (Some 4) None = Some v" "sn_curve sn = Some (cv_id ?c)"
    using reported_strength_within_calibration [OF run] c by auto
  with run show "\<exists>sn v. apply_active_curve [?c] (\<lambda>_. None) None (Some 4) None None (Some 3) =
     (Some 20, sn) \<and> temperature_corrected_velocity (Some 4) None = Some v \<and> sn_curve sn = Some 1"
    by (intro exI conjI) (simp_all add: demo_curve_def)
next
  obtain r sn where rs: "apply_active_curve [] (\<lambda>_. None) None (Some 4) None None None = (r, sn)" by force
  have none: "resolve_active_curve [] (\<lambda>_. None) None = None"
    by (simp add: resolve_active_curve_def first_where_def)
  have "temperature_corrected_velocity (Some 4) None = Some 4"
    by (simp add: temperature_corrected_velocity_def temperature_correction_applied_def)
  with rs have "r = Some (1.2 * exp (0.00085 * 4000))"
    by (auto simp: apply_active_curve_def none apply_curve_params_def curve_value_def builtin_params_def
        num_at_def in_range_def apply_se_adjustment_def disclosed_def Let_def)
  with rs have run: "apply_active_curve [] (\<lambda>_. None) None (Some 4) None None None
      = (Some (1.2 * exp (0.00085 * 4000)), sn)" by simp
  have "sn_curve sn = None"
    using reported_strength_within_calibration [OF run] none by auto
  with run show "\<exists>s sn. apply_active_curve [] (\<lambda>_. None) None (Some 4) None None None = (Some s, sn)
      \<and> sn_curve sn = None" by blast
qed

text \<open>
  An adjustment needs evidence: the figure is the curve's own, unmoved, unless the curve
  carries a policy, three numeric calibration pairs and a computable standard error, and for a
  margin a positive factor.
\<close>
theorem adjustment_needs_evidence:
  assumes "apply_se_adjustment base (Some c) n = (r, d)"
  shows "if ds_applied d
    then cv_method c \<in> {Bias_Correction, Confidence_Margin} \<and> cv_type c \<noteq> Lookup \<and>
      3 \<le> length (calibration_pairs (cv_points c)) \<and> an_se (standard_error_analysis c) \<noteq> None \<and>
      (cv_method c = Bias_Correction \<or> 0 < cv_factor c)
    else r = base"
proof (cases base)
  case None
  with assms show ?thesis by (auto dest: apply_se_adjustment_None)
next
  case (Some b)
  have m: "method_of (Some c) = m \<Longrightarrow> m \<noteq> No_Adjustment \<Longrightarrow> cv_method c = m" for m
    by (auto simp: method_of_def split: if_splits)
  from assms [unfolded Some] show ?thesis
  proof (cases rule: apply_se_adjustment_cases)
    case inert
    then show ?thesis by (simp add: Some)
  next
    case (bias b')
    then show ?thesis using m [OF bias(1)] by (auto elim: analysis_available)
  next
    case (margin s)
    then show ?thesis using m [OF margin(1)] by (auto elim: analysis_available)
  qed
qed

lemma adjustment_needs_evidence_witness:
  "cv_method (demo_curve\<lparr>cv_points := []\<rparr>) = Confidence_Margin \<and>
   fst (apply_se_adjustment (Some 20) (Some (demo_curve\<lparr>cv_points := []\<rparr>)) (Some 3)) = Some 20"
proof -
  let ?c = "demo_curve\<lparr>cv_points := []\<rparr>"
  obtain r d where rd: "apply_se_adjustment (Some 20) (Some ?c) (Some 3) = (r, d)" by force
  have "\<not> 3 \<le> length (calibration_pairs (cv_points ?c))" by (simp add: calibration_pairs_def map_filter_simps)
  with adjustment_needs_evidence [OF rd] have "r = Some 20" by (auto split: if_splits)
  then show ?thesis by (simp add: rd) (simp add: demo_curve_def)
qed

text \<open>
  On a rising exponential curve the margin folded into the velocity deducts something, but
  never more than the margin itself: the figure lies between the strength-domain lower bound and
  the estimate. The reported bound is the less conservative of the two.
\<close>
theorem exponential_margin_bounds:
  assumes "cv_type c = Exponential" "num_at (cv_params c) ''a'' = Some a" "0 < a"
    and "num_at (cv_params c) ''b'' = Some b" "0 < b"
    and "cv_method c = Confidence_Margin"
    and "curve_apply c velocity rebound = Some base"
    and "apply_se_adjustment (Some base) (Some c) n = (Some lower, d)"
    and "apply_se_adjustment_at_velocity velocity c n rebound = (Some r, d')"
  shows "lower \<le> r \<and> r \<le> base"
proof -
  from assms(8) have lower: "lower \<le> base"
    by (rule apply_se_adjustment_cases)
      (auto simp: assms(6) method_of_def margin_divisor_pos less_imp_le intro!: divide_nonneg_pos split: if_splits)
  have ad: "apply_se_adjustment (curve_apply c velocity rebound) (Some c) n = (Some lower, d)"
    using assms(7,8) by simp
  from assms(9) ad show ?thesis
  proof (cases rule: at_velocity_cases)
    case strength
    with lower show ?thesis by simp
  next
    case (velocity v base' slope)
    from assms(7) velocity(2) have [simp]: "base' = base" by simp
    obtain k where k: "num_at (cv_params c) ''c'' = Some k" "base = a * exp (b * (v * 1000)) + k" "0 < v"
      using assms(1,2,4) velocity(1,2) by (auto simp: curve_apply_def apply_curve_params_Some
          curve_value_def split: option.splits)
    define E where "E = a * exp (b * (v * 1000))"
    have E: "0 < E" using assms(3) by (simp add: E_def)
    have slope: "slope = b * E" using velocity(1,6) assms(1,2,4) k(3)
      by (simp add: curve_slope_mpa_per_ms_def E_def mult_ac)
    let ?x = "(lower - base) / E"
    have r: "r = E * exp ?x + k"
    proof -
      have "b * ((v + (lower - base) / slope / 1000) * 1000) = b * (v * 1000) + ?x"
        using E assms(5) by (simp add: slope field_simps)
      moreover have "r = a * exp (b * ((v + (lower - base) / slope / 1000) * 1000)) + k"
        using velocity(7) assms(1,2,4) k(1)
        by (auto simp: curve_apply_def apply_curve_params_Some curve_value_def dest: sym)
      ultimately show ?thesis by (simp add: exp_add E_def)
    qed
    have "?x \<le> 0" using lower E by (simp add: divide_le_0_iff)
    then have "E * exp ?x \<le> E" using E by (simp add: mult_le_cancel_left1)
    moreover have "E + (lower - base) \<le> E * exp ?x"
    proof -
      have "E * (1 + ?x) \<le> E * exp ?x" using E exp_ge_add_one_self [of ?x] by (intro mult_left_mono) auto
      moreover have "E * (1 + ?x) = E + (lower - base)" using E by (simp add: distrib_left)
      ultimately show ?thesis by simp
    qed
    ultimately show ?thesis using k(2) by (simp add: r E_def)
  qed
qed

definition demo_exponential :: strength_curve where
  "demo_exponential = demo_curve\<lparr>cv_type := Exponential,
     cv_params := VDict [(''a'', VNum 2), (''b'', VNum (1/2000)), (''c'', VNum 0)],
     cv_points := map (\<lambda>v. VDict [(''v'', VNum v), (''f'', VNum 20)]) [2000, 3000, 4000, 5000]\<rparr>"

lemma demo_exponential_available: "an_available (standard_error_analysis demo_exponential)"
  by (simp add: standard_error_analysis_def demo_exponential_def calibration_pairs_def calibration_pair_def
      map_filter_simps predicted_def apply_curve_params_def in_range_def curve_value_def num_at_def
      min_pairs_for_adjustment_def Let_def curve_fit_stats_def scored_pairs_def fit_stats_def param_count_def)

lemma exponential_margin_bounds_witness:
  "\<exists>lower r. fst (apply_se_adjustment (Some (2 * exp 2)) (Some demo_exponential) (Some 3)) = Some lower \<and>
     ds_applied (snd (apply_se_adjustment (Some (2 * exp 2)) (Some demo_exponential) (Some 3))) \<and>
     fst (apply_se_adjustment_at_velocity (Some 4) demo_exponential (Some 3) None) = Some r \<and>
     lower \<le> r \<and> r \<le> 2 * exp 2"
proof -
  have base: "curve_apply demo_exponential (Some 4) None = Some (2 * exp 2)"
    by (simp add: curve_apply_def valid_range_def demo_exponential_def demo_curve_def
        apply_curve_params_def in_range_def curve_value_def num_at_def)
  obtain l d where ad: "apply_se_adjustment (Some (2 * exp 2)) (Some demo_exponential) (Some 3) = (l, d)"
    by force
  have conf: "cv_method demo_exponential = Confidence_Margin" "cv_factor demo_exponential = 1"
      "cv_type demo_exponential = Exponential"
    by (simp_all add: demo_exponential_def demo_curve_def)
  from ad obtain lower where lower: "l = Some lower" "ds_applied d"
    by (rule apply_se_adjustment_cases)
      (use ad in \<open>auto simp: policy_simps method_of_def conf demo_exponential_available\<close>)
  obtain r' d' where rd: "apply_se_adjustment_at_velocity (Some 4) demo_exponential (Some 3) None = (r', d')"
    by force
  from rd ad [folded base] obtain r where r: "r' = Some r"
    by (rule at_velocity_cases) (auto simp: lower)
  have "lower \<le> r \<and> r \<le> 2 * exp 2"
    by (rule exponential_margin_bounds [OF conf(3) _ _ _ _ conf(1) base ad [unfolded lower(1)] rd [unfolded r],
          where a = 2 and b = "1/2000"])
      (simp_all add: demo_exponential_def num_at_def)
  with lower r ad rd show ?thesis by simp
qed

text \<open>
  The margin narrows with the points averaged and never raises a figure: more points at an
  element give a figure at least as high, and at most the estimate.
\<close>
theorem margin_narrows_with_points:
  assumes "cv_method c = Confidence_Margin" "1 \<le> m" "m \<le> n"
    and "apply_se_adjustment (Some base) (Some c) (Some m) = (Some r, d)"
    and "apply_se_adjustment (Some base) (Some c) (Some n) = (Some r', d')"
  shows "r \<le> r' \<and> r' \<le> base"
proof -
  have div: "margin_divisor (averaged_points (Some m)) \<le> margin_divisor (averaged_points (Some n))"
    using assms(2,3) by (auto simp: margin_divisor_def averaged_points_def)
  have mono: "a / y \<le> a / x" if "0 < x" "x \<le> y" "0 \<le> a" for a x y :: real
    using that by (intro divide_left_mono) auto
  note pos = margin_divisor_pos
  have meth: "method_of (Some c) = Confidence_Margin" by (simp add: method_of_def assms(1))
  from assms(4) show ?thesis
  proof (cases rule: apply_se_adjustment_cases)
    case inert
    from assms(5) show ?thesis
      by (rule apply_se_adjustment_cases) (use inert assms(4) in \<open>auto simp: policy_simps meth split: if_splits\<close>)
  next
    case (margin s)
    from assms(5) show ?thesis
    proof (cases rule: apply_se_adjustment_cases)
      case inert
      with assms(5) margin show ?thesis by (auto simp: policy_simps meth)
    next
      case m': (margin s')
      then have [simp]: "s' = s" using margin(3) by simp
      show ?thesis
        using mono [OF pos div, of "cv_factor c * s"] margin m' pos [of "averaged_points (Some n)"]
        by (auto intro: divide_nonneg_pos)
    qed (simp add: meth)
  qed (simp add: meth)
qed

lemma margin_narrows_with_points_witness:
  "\<exists>r r'. fst (apply_se_adjustment (Some 20) (Some demo_exponential) (Some 1)) = Some r \<and>
     fst (apply_se_adjustment (Some 20) (Some demo_exponential) (Some 9)) = Some r' \<and> r \<le> r' \<and> r' \<le> 20"
proof -
  have some: "\<exists>r d. apply_se_adjustment (Some 20) (Some demo_exponential) n = (Some r, d)" for n
  proof -
    obtain x d where xd: "apply_se_adjustment (Some 20) (Some demo_exponential) n = (x, d)" by force
    then show ?thesis by (rule apply_se_adjustment_cases) (use xd in auto)
  qed
  from some obtain r d where r: "apply_se_adjustment (Some 20) (Some demo_exponential) (Some 1) = (Some r, d)"
    by blast
  from some obtain r' d' where r': "apply_se_adjustment (Some 20) (Some demo_exponential) (Some 9) = (Some r', d')"
    by blast
  have "cv_method demo_exponential = Confidence_Margin" by (simp add: demo_exponential_def demo_curve_def)
  from margin_narrows_with_points [OF this _ _ r r'] show ?thesis by (simp add: r r')
qed

text \<open>The bias is the mean residual: adding it to every prediction centres the residuals, up to
  the rounding of the correction.\<close>

lemma bias_centres_residuals:
  assumes "an_bias (standard_error_analysis c) = Some b"
    and "those (map (predicted (cv_type c) (cv_params c)) (calibration_pairs (cv_points c))) = Some preds"
    and "rs = map (\<lambda>((v, f, p), fp). f - (fp + b)) (zip (calibration_pairs (cv_points c)) preds)"
  shows "\<bar>sum_list rs / of_nat (length rs)\<bar> \<le> 1 / (2 * 10 ^ 4)"
proof -
  let ?zs = "zip (calibration_pairs (cv_points c)) preds"
  let ?res = "map (\<lambda>((v, f, p), fp). f - fp) ?zs"
  from assms(1,2) have b: "b = round_to 4 (sum_list ?res / of_nat (length ?res))" and n: "3 \<le> length (calibration_pairs (cv_points c))"
    by (auto simp: standard_error_analysis_def Let_def min_pairs_for_adjustment_def split: if_splits)
  have "length preds = length (calibration_pairs (cv_points c))"
    using assms(2) unfolding those_Some by (auto dest: list_all2_lengthD)
  then have ne: "?zs \<noteq> []" using n by auto
  have "sum_list (map (\<lambda>((v, f, p), fp). f - (fp + b)) zs) =
      sum_list (map (\<lambda>((v, f, p), fp). f - fp) zs) - of_nat (length zs) * b"
    for zs :: "((real \<times> real \<times> jval) \<times> real) list"
    by (induction zs) (auto simp: algebra_simps)
  then have "sum_list rs = sum_list ?res - of_nat (length ?zs) * b" unfolding assms(3) by blast
  moreover have "length rs = length ?zs" by (simp add: assms(3))
  ultimately have "sum_list rs / of_nat (length rs) = sum_list ?res / of_nat (length ?res) - b"
    using ne by (simp add: diff_divide_distrib)
  then show ?thesis
    using round_to_close [of 4 "sum_list ?res / of_nat (length ?res)"] b by (simp add: abs_minus_commute)
qed

end
