(* ===== verification/Strength_Calibration.thy ===== *)
theory Strength_Calibration
  imports Strength_Adjustment Import_Registry
begin

text \<open>
  Where a curve comes from: the regression over calibration pairs in
  \<^verbatim>\<open>apps/digital_eye/strength_curves.py\<close> and the checks on a submitted curve in
  \<^verbatim>\<open>apps/digital_eye/serializers.py\<close>. The fitting routines of numpy and scipy are
  parameters: each returns the coefficients, or \<^verbatim>\<open>None\<close> when it raises or does not
  converge to finite ones.
\<close>

section \<open>Regression\<close>

text \<open>A calibration row: velocity in m/s, strength, and the rebound number when there is one.\<close>

type_synonym cal_row = "real \<times> real \<times> real option"

record fitters =
  fit_line :: "real list \<Rightarrow> real list \<Rightarrow> (real \<times> real) option"
  fit_parabola :: "real list \<Rightarrow> real list \<Rightarrow> real list option"
  fit_exp :: "real list \<Rightarrow> real list \<Rightarrow> (real \<times> real \<times> real) option"
  fit_plane :: "real list \<Rightarrow> real list \<Rightarrow> real list \<Rightarrow> (real \<times> real \<times> real) option"

record curve_fit =
  ft_params :: jval
  ft_stats :: "real option \<times> real option \<times> real option"
  ft_range :: "real \<times> real"

datatype fit_error = Needs_Points nat | Fit_Failed | Not_All_Positive | Needs_Rebound

definition row_v :: "cal_row \<Rightarrow> real" where "row_v r = fst r"
definition row_f :: "cal_row \<Rightarrow> real" where "row_f r = fst (snd r)"
definition row_r :: "cal_row \<Rightarrow> real option" where "row_r r = snd (snd r)"

definition calibrated_span :: "cal_row list \<Rightarrow> real \<times> real" where
  "calibrated_span rows = (min 2000 (Min (row_v ` set rows)), max 5000 (Max (row_v ` set rows)))"

text \<open>\<^verbatim>\<open>_publish\<close>: the statistics of the predictions at the rows themselves.\<close>

definition published :: "cal_row list \<Rightarrow> jval \<Rightarrow> (cal_row \<Rightarrow> real) \<Rightarrow> nat \<Rightarrow> curve_fit" where
  "published rows params pred k =
     \<lparr>ft_params = params, ft_stats = fit_stats (map row_f rows) (map pred rows) k,
      ft_range = calibrated_span rows\<rparr>"

definition positive_rows :: "cal_row list \<Rightarrow> bool" where
  "positive_rows rows \<longleftrightarrow> list_all (\<lambda>r. 0 < row_f r \<and> 0 < row_v r) rows"

definition linear_fit :: "fitters \<Rightarrow> cal_row list \<Rightarrow> fit_error + curve_fit" where
  "linear_fit F rows =
     (if length rows < 2 then Inl (Needs_Points 2)
      else case fit_line F (map row_v rows) (map row_f rows) of
             None \<Rightarrow> Inl Fit_Failed
           | Some (m, c) \<Rightarrow>
               Inr (published rows (VDict [(''m'', VNum m), (''c'', VNum c)]) (\<lambda>r. m * row_v r + c) 2))"

text \<open>numpy lists the highest power first; the parameters ascend.\<close>

definition polynomial_fit :: "fitters \<Rightarrow> cal_row list \<Rightarrow> fit_error + curve_fit" where
  "polynomial_fit F rows =
     (if length rows < 3 then Inl (Needs_Points 3)
      else case fit_parabola F (map row_v rows) (map row_f rows) of
             None \<Rightarrow> Inl Fit_Failed
           | Some cs \<Rightarrow>
               Inr (published rows (VDict [(''coeffs'', VList (map VNum (rev cs)))])
                     (\<lambda>r. poly_value (rev cs) (row_v r)) 3))"

definition exponential_fit :: "fitters \<Rightarrow> cal_row list \<Rightarrow> fit_error + curve_fit" where
  "exponential_fit F rows =
     (if length rows < 3 then Inl (Needs_Points 3)
      else if \<not> positive_rows rows then Inl Not_All_Positive
      else case fit_exp F (map row_v rows) (map row_f rows) of
             None \<Rightarrow> Inl Fit_Failed
           | Some (a, b, c) \<Rightarrow>
               Inr (published rows (VDict [(''a'', VNum a), (''b'', VNum b), (''c'', VNum c)])
                     (\<lambda>r. a * exp (b * row_v r) + c) 3))"

definition has_rebound :: "cal_row \<Rightarrow> bool" where
  "has_rebound r = (case row_r r of Some x \<Rightarrow> 0 < x | None \<Rightarrow> False)"

definition sonreb_fit :: "fitters \<Rightarrow> cal_row list \<Rightarrow> fit_error + curve_fit" where
  "sonreb_fit F rows =
     (if length rows < 4 then Inl (Needs_Points 4)
      else if \<not> list_all has_rebound rows then Inl Needs_Rebound
      else if \<not> positive_rows rows then Inl Not_All_Positive
      else case fit_plane F (map (\<lambda>r. ln (row_v r)) rows) (map (\<lambda>r. ln (the (row_r r))) rows)
                  (map (\<lambda>r. ln (row_f r)) rows) of
             None \<Rightarrow> Inl Fit_Failed
           | Some (k, b, c) \<Rightarrow>
               Inr (published rows (VDict [(''a'', VNum (exp k)), (''b'', VNum b), (''c'', VNum c)])
                     (\<lambda>r. exp k * row_v r powr b * the (row_r r) powr c) 3))"

text \<open>The candidates in the order of the results dictionary.\<close>

definition fit_attempts :: "fitters \<Rightarrow> cal_row list \<Rightarrow> (curve_type \<times> (fit_error + curve_fit)) list" where
  "fit_attempts F rows =
     [(Linear, linear_fit F rows), (Polynomial, polynomial_fit F rows),
      (Exponential, exponential_fit F rows), (SonReb, sonreb_fit F rows)]"

definition fitted_curves :: "fitters \<Rightarrow> cal_row list \<Rightarrow> (curve_type \<times> curve_fit) list" where
  "fitted_curves F rows =
     List.map_filter (\<lambda>(ty, res). case res of Inr ft \<Rightarrow> Some (ty, ft) | Inl _ \<Rightarrow> None) (fit_attempts F rows)"

text \<open>\<open>better x y\<close>: \<open>x\<close> has the smaller key \<open>(-R2, AIC)\<close>; a missing AIC counts as infinite.\<close>

definition better :: "curve_fit \<Rightarrow> curve_fit \<Rightarrow> bool" where
  "better x y =
     (let r = (\<lambda>ft. the (fst (ft_stats ft))); aic = (\<lambda>ft. snd (snd (ft_stats ft)))
      in r y < r x \<or> (r x = r y \<and> (case (aic x, aic y) of
           (Some p, Some q) \<Rightarrow> p < q | (Some p, None) \<Rightarrow> True | _ \<Rightarrow> False)))"

fun first_best :: "(curve_type \<times> curve_fit) \<Rightarrow> (curve_type \<times> curve_fit) list \<Rightarrow> curve_type \<times> curve_fit" where
  "first_best x [] = x"
| "first_best x (y # ys) = first_best (if better (snd y) (snd x) then y else x) ys"

definition best_fit_type :: "(curve_type \<times> curve_fit) list \<Rightarrow> curve_type option" where
  "best_fit_type fits =
     (case filter (\<lambda>(ty, ft). fst (ft_stats ft) \<noteq> None) fits of
        [] \<Rightarrow> None
      | x # xs \<Rightarrow> if Exponential \<in> fst ` set (x # xs) then Some Exponential else Some (fst (first_best x xs)))"

datatype regression =
    All_Failed
  | Regressed "(curve_type \<times> (fit_error + curve_fit)) list" "curve_type option"

definition run_regression :: "fitters \<Rightarrow> cal_row list \<Rightarrow> regression" where
  "run_regression F rows =
     (if length rows < 2 then All_Failed
      else Regressed (fit_attempts F rows) (best_fit_type (fitted_curves F rows)))"

text \<open>The advisory is given below nine points.\<close>

definition advised :: "nat \<Rightarrow> bool" where
  "advised n \<longleftrightarrow> n < 9"

section \<open>A submitted curve\<close>

text \<open>What a request names; \<open>None\<close> is a field left out.\<close>

record curve_attrs =
  ca_type :: "curve_type option"
  ca_params :: "jval option"
  ca_points :: "jval list option"
  ca_default :: "bool option"
  ca_method :: "se_method option"
  ca_factor :: "real option"

datatype curve_refusal =
    Params_Required | Bad_Params curve_fault | Implausible_Point nat plausibility_fault
  | Unknown_Policy | Factor_Negative | Factor_Zero | Pairs_Missing nat

fun truthy :: "jval \<Rightarrow> bool" where
  "truthy VNull = False"
| "truthy (VBool b) = b"
| "truthy (VNum x) = (x \<noteq> 0)"
| "truthy (VText s) = (s \<noteq> [])"
| "truthy (VList xs) = (xs \<noteq> [])"
| "truthy (VDict d) = (d \<noteq> [])"

text \<open>\<^verbatim>\<open>float()\<close> of a JSON value.\<close>

definition float_arg :: "jval \<Rightarrow> strength_arg" where
  "float_arg v = (case v of
      VNull \<Rightarrow> No_Strength
    | VNum x \<Rightarrow> Strength x
    | VBool b \<Rightarrow> Strength (if b then 1 else 0)
    | VText s \<Rightarrow> (case read_float (py_strip s) of
          None \<Rightarrow> Not_Float | Some (Fin x) \<Rightarrow> Strength x | Some _ \<Rightarrow> Not_Finite)
    | _ \<Rightarrow> Not_Float)"

definition is_dict :: "jval \<Rightarrow> bool" where
  "is_dict p = (case p of VDict _ \<Rightarrow> True | _ \<Rightarrow> False)"

fun check_points :: "nat \<Rightarrow> jval list \<Rightarrow> curve_refusal + unit" where
  "check_points i [] = Inr ()"
| "check_points i (p # ps) =
     (if \<not> is_dict p then check_points (Suc i) ps
      else case strength_plausibility_error (case item p ''f'' of None \<Rightarrow> No_Strength | Some f \<Rightarrow> float_arg f) of
             Some e \<Rightarrow> Inl (Implausible_Point i e)
           | None \<Rightarrow> check_points (Suc i) ps)"

definition first_some :: "'a option \<Rightarrow> 'a option \<Rightarrow> 'a option" where
  "first_some x y = (case x of None \<Rightarrow> y | Some _ \<Rightarrow> x)"

text \<open>\<open>inst\<close> is the stored curve of an update. A method text that is empty counts as absent.\<close>

definition merged_method :: "strength_curve option \<Rightarrow> curve_attrs \<Rightarrow> se_method" where
  "merged_method inst sub = (case ca_method sub of
      Some m \<Rightarrow> if m = Other_Method [] then (case inst of Some c \<Rightarrow> cv_method c | None \<Rightarrow> No_Adjustment) else m
    | None \<Rightarrow> (case inst of Some c \<Rightarrow> cv_method c | None \<Rightarrow> No_Adjustment))"

definition merged_points :: "strength_curve option \<Rightarrow> curve_attrs \<Rightarrow> jval list" where
  "merged_points inst sub = (case first_some (ca_points sub) (map_option cv_points inst) of
      Some ps \<Rightarrow> ps | None \<Rightarrow> [])"

definition merged_params :: "strength_curve option \<Rightarrow> curve_attrs \<Rightarrow> jval option" where
  "merged_params inst sub = (case ca_params sub of
      Some p \<Rightarrow> if truthy p then Some p else map_option cv_params inst
    | None \<Rightarrow> map_option cv_params inst)"

definition check_policy :: "strength_curve option \<Rightarrow> curve_attrs \<Rightarrow> curve_refusal + unit" where
  "check_policy inst sub =
     (let method = merged_method inst sub;
          factor = first_some (ca_factor sub) (map_option cv_factor inst);
          n = length (filter is_dict (merged_points inst sub))
      in if method \<notin> {No_Adjustment, Bias_Correction, Confidence_Margin} then Inl Unknown_Policy
         else if factor \<noteq> None \<and> the factor < 0 then Inl Factor_Negative
         else if factor \<noteq> None \<and> method = Confidence_Margin \<and> the factor = 0 then Inl Factor_Zero
         else if method \<noteq> No_Adjustment \<and> n < min_pairs_for_adjustment then Inl (Pairs_Missing n)
         else Inr ())"

definition validate_curve :: "strength_curve option \<Rightarrow> curve_attrs \<Rightarrow> curve_refusal + curve_attrs" where
  "validate_curve inst sub =
     (let ty = first_some (ca_type sub) (map_option cv_type inst);
          params = merged_params inst sub
      in case params of
           None \<Rightarrow> Inl Params_Required
         | Some p \<Rightarrow>
           if \<not> truthy p then Inl Params_Required
           else case (case ty of None \<Rightarrow> Inl Unknown_Curve_Type | Some t \<Rightarrow> validate_curve_params t p) of
                  Inl e \<Rightarrow> Inl (Bad_Params e)
                | Inr _ \<Rightarrow>
                    bind_r (check_points 1 (case ca_points sub of Some ps \<Rightarrow> ps | None \<Rightarrow> [])) (\<lambda>_.
                    bind_r (check_policy inst sub) (\<lambda>_.
                      Inr (if ca_default sub = Some True then sub\<lparr>ca_default := Some False\<rparr> else sub))))"

section \<open>Facts on the ranking\<close>

lemma better_trans_neg:
  "\<not> better y x \<Longrightarrow> \<not> better z y \<Longrightarrow> \<not> better z x"
  by (auto simp: better_def Let_def split: option.splits if_splits)

lemma better_asym: "better y x \<Longrightarrow> \<not> better x y"
  by (auto simp: better_def Let_def split: option.splits)

lemma first_best_in: "first_best x ys \<in> set (x # ys)"
  by (induction x ys rule: first_best.induct) auto

lemma first_best_least: "z \<in> set (x # ys) \<Longrightarrow> \<not> better (snd z) (snd (first_best x ys))"
proof (induction x ys arbitrary: z rule: first_best.induct)
  case (1 x)
  then show ?case using better_asym by auto
next
  case (2 x y ys)
  let ?w = "if better (snd y) (snd x) then y else x"
  have w: "\<not> better (snd ?w) (snd (first_best ?w ys))" by (rule 2(1)) simp
  show ?case
  proof (cases "z \<in> set ys")
    case True
    then show ?thesis using 2(1) [of z] by simp
  next
    case False
    then have "z = x \<or> z = y" using 2(2) by simp
    then have "\<not> better (snd z) (snd ?w)" using better_asym by auto
    then show ?thesis using better_trans_neg [OF w] by simp
  qed
qed

text \<open>
  Unless an exponential curve could be fitted, the proposed type is one of the fitted curves
  with a coefficient of determination that no other exceeds; among equals its AIC is least.
\<close>
theorem best_fit_is_best:
  assumes "best_fit_type fits = Some ty" "ty \<noteq> Exponential"
  shows "\<exists>ft r. (ty, ft) \<in> set fits \<and> fst (ft_stats ft) = Some r \<and>
    list_all (\<lambda>(u, g). u \<noteq> Exponential \<or> fst (ft_stats g) = None) fits \<and>
    list_all (\<lambda>(u, g). case fst (ft_stats g) of None \<Rightarrow> True
      | Some r' \<Rightarrow> r' < r \<or> r' = r \<and> (case (snd (snd (ft_stats ft)), snd (snd (ft_stats g))) of
            (Some p, Some q) \<Rightarrow> p \<le> q | (None, Some q) \<Rightarrow> False | _ \<Rightarrow> True)) fits"
proof -
  let ?good = "filter (\<lambda>(ty, ft). fst (ft_stats ft) \<noteq> None) fits"
  from assms obtain x xs where x: "?good = x # xs" and exp: "Exponential \<notin> fst ` set (x # xs)"
      and ty: "ty = fst (first_best x xs)"
    by (auto simp: best_fit_type_def split: list.splits if_splits)
  define ft where "ft = snd (first_best x xs)"
  have pair: "first_best x xs = (ty, ft)" by (simp add: ty ft_def)
  have "(ty, ft) \<in> set ?good" using first_best_in [of x xs] x pair by simp
  then obtain r where ft: "(ty, ft) \<in> set fits" "fst (ft_stats ft) = Some r" by auto
  have least: "\<not> better g ft" if "(u, g) \<in> set fits" "fst (ft_stats g) \<noteq> None" for u g
  proof -
    have "(u, g) \<in> set (x # xs)" using that by (simp add: x [symmetric])
    from first_best_least [OF this] show ?thesis by (simp add: pair)
  qed
  have noexp: "list_all (\<lambda>(u, g). u \<noteq> Exponential \<or> fst (ft_stats g) = None) fits"
    using exp by (force simp: list_all_iff x [symmetric])
  have "list_all (\<lambda>(u, g). case fst (ft_stats g) of None \<Rightarrow> True
      | Some r' \<Rightarrow> r' < r \<or> r' = r \<and> (case (snd (snd (ft_stats ft)), snd (snd (ft_stats g))) of
            (Some p, Some q) \<Rightarrow> p \<le> q | (None, Some q) \<Rightarrow> False | _ \<Rightarrow> True)) fits"
    unfolding list_all_iff
    by (auto dest!: least simp: better_def ft(2) split: option.splits)
  with ft noexp show ?thesis by blast
qed

definition demo_fit :: "real \<Rightarrow> real \<Rightarrow> curve_fit" where
  "demo_fit r a = \<lparr>ft_params = VDict [], ft_stats = (Some r, Some 1, Some a), ft_range = (2000, 5000)\<rparr>"

lemma best_fit_is_best_witness:
  "best_fit_type [(Linear, demo_fit (9/10) 7), (Polynomial, demo_fit (9/10) 5)] = Some Polynomial \<and>
   (\<exists>ft r. (Polynomial, ft) \<in> set [(Linear, demo_fit (9/10) 7), (Polynomial, demo_fit (9/10) 5)] \<and>
      fst (ft_stats ft) = Some r)"
proof -
  have "best_fit_type [(Linear, demo_fit (9/10) 7), (Polynomial, demo_fit (9/10) 5)] = Some Polynomial"
    by (simp add: best_fit_type_def demo_fit_def better_def Let_def del: not_None_eq)
  moreover from best_fit_is_best [OF this] have
    "\<exists>ft r. (Polynomial, ft) \<in> set [(Linear, demo_fit (9/10) 7), (Polynomial, demo_fit (9/10) 5)] \<and>
      fst (ft_stats ft) = Some r" by blast
  ultimately show ?thesis ..
qed

text \<open>An exponential fit wins however poor it is, although the registry of standards says that
  the project's own data decide.\<close>

lemma exponential_always_wins:
  "best_fit_type [(Linear, demo_fit (99/100) 1), (Exponential, demo_fit (1/10) 50)] = Some Exponential"
  by (simp add: best_fit_type_def demo_fit_def del: not_None_eq)

section \<open>What is reported is what is stored\<close>

text \<open>A row as the calibration pair that is stored with the curve.\<close>

definition pair_of :: "cal_row \<Rightarrow> jval" where
  "pair_of r = VDict ([(''v'', VNum (row_v r)), (''f'', VNum (row_f r))] @
     (case row_r r of None \<Rightarrow> [] | Some x \<Rightarrow> [(''r'', VNum x)]))"

lemma pair_of_items [simp]:
  "item (pair_of r) ''v'' = Some (VNum (row_v r))" "item (pair_of r) ''f'' = Some (VNum (row_f r))"
  "item (pair_of r) ''r'' = map_option VNum (row_r r)"
  by (auto simp: pair_of_def split: option.splits)

lemma calibration_pairs_of_rows:
  "calibration_pairs (map pair_of rows) = map (\<lambda>r. (row_v r, row_f r, pair_of r)) rows"
  by (induction rows) (auto simp: calibration_pairs_def calibration_pair_def map_filter_simps)

lemma rebound_of_pair: "num_at (pair_of r) ''r'' = row_r r"
  by (cases "row_r r") (auto simp: num_at_def)

lemma predicted_row:
  assumes "0 < row_v r"
  shows "predicted ty params (row_v r, row_f r, pair_of r) = curve_value ty params (row_v r) (row_r r)"
  using assms by (simp add: predicted_def apply_curve_params_def in_range_def rebound_of_pair)

lemma stats_of_rows:
  assumes "ty \<in> {Linear, Polynomial, Exponential, SonReb}" "2 \<le> length rows"
    and "list_all (\<lambda>r. 0 < row_v r) rows" "ty = SonReb \<Longrightarrow> list_all has_rebound rows"
    and "list_all (\<lambda>r. curve_value ty params (row_v r) (row_r r) = Some (pred r)) rows"
  shows "curve_fit_stats ty params (map pair_of rows) =
    fit_stats (map row_f rows) (map pred rows) (param_count ty params)"
proof -
  have "scored_pairs ty (map pair_of rows) = map (\<lambda>r. (row_v r, row_f r, pair_of r)) rows"
  proof (cases "ty = SonReb")
    case True
    have "filter (\<lambda>(v, f, p). case Option.bind (item p ''r'') plain_number of Some r \<Rightarrow> 0 < r | None \<Rightarrow> False)
        (map (\<lambda>r. (row_v r, row_f r, pair_of r)) rows) = map (\<lambda>r. (row_v r, row_f r, pair_of r)) rows"
      using assms(4) [OF True] by (induction rows) (auto simp: has_rebound_def split: option.splits)
    with True show ?thesis by (simp add: scored_pairs_def calibration_pairs_of_rows)
  qed (simp add: scored_pairs_def calibration_pairs_of_rows)
  moreover have "those (map (predicted ty params) (map (\<lambda>r. (row_v r, row_f r, pair_of r)) rows)) = Some (map pred rows)"
    using assms(3,5) by (induction rows) (auto simp: predicted_row)
  ultimately show ?thesis using assms(1,2) by (auto simp: curve_fit_stats_def Let_def comp_def)
qed

lemma fitted_stats:
  assumes "(ty, Inr ft) \<in> set (fit_attempts F rows)" "list_all (\<lambda>r. 0 < row_v r) rows"
    and polyfit: "\<And>vs fs cs. fit_parabola F vs fs = Some cs \<Longrightarrow> length cs = 3"
  shows "curve_fit_stats ty (ft_params ft) (map pair_of rows) = ft_stats ft"
proof -
  from assms(1) consider
      (line) "ty = Linear" "linear_fit F rows = Inr ft"
    | (poly) "ty = Polynomial" "polynomial_fit F rows = Inr ft"
    | (exp) "ty = Exponential" "exponential_fit F rows = Inr ft"
    | (sonreb) "ty = SonReb" "sonreb_fit F rows = Inr ft"
    by (auto simp: fit_attempts_def)
  then show ?thesis
  proof cases
    case line
    then obtain m c where ft: "2 \<le> length rows"
        "ft = published rows (VDict [(''m'', VNum m), (''c'', VNum c)]) (\<lambda>r. m * row_v r + c) 2"
      by (auto simp: linear_fit_def split: if_splits option.splits)
    then show ?thesis unfolding line(1) using assms(2)
      by (subst stats_of_rows [where pred = "\<lambda>r. m * row_v r + c"])
        (auto simp: published_def curve_value_def num_at_def param_count_def list_all_iff)
  next
    case poly
    then obtain cs where ft: "3 \<le> length rows" "length cs = 3"
        "ft = published rows (VDict [(''coeffs'', VList (map VNum (rev cs)))]) (\<lambda>r. poly_value (rev cs) (row_v r)) 3"
      by (auto simp: polynomial_fit_def split: if_splits option.splits dest: polyfit)
    have "those (map num_of (map VNum xs)) = Some xs" for xs by (induction xs) auto
    then show ?thesis unfolding poly(1) using assms(2) ft
      by (subst stats_of_rows [where pred = "\<lambda>r. poly_value (rev cs) (row_v r)"])
        (auto simp: published_def curve_value_def coeffs_of_def param_count_def list_all_iff simp del: map_map)
  next
    case exp
    then obtain a b c where ft: "3 \<le> length rows"
        "ft = published rows (VDict [(''a'', VNum a), (''b'', VNum b), (''c'', VNum c)])
           (\<lambda>r. a * exp (b * row_v r) + c) 3"
      by (auto simp: exponential_fit_def split: if_splits option.splits)
    then show ?thesis unfolding exp(1) using assms(2)
      by (subst stats_of_rows [where pred = "\<lambda>r. a * exp (b * row_v r) + c"])
        (auto simp: published_def curve_value_def num_at_def param_count_def list_all_iff)
  next
    case sonreb
    then obtain k b c where ft: "4 \<le> length rows" "list_all has_rebound rows"
        "ft = published rows (VDict [(''a'', VNum (exp k)), (''b'', VNum b), (''c'', VNum c)])
           (\<lambda>r. exp k * row_v r powr b * the (row_r r) powr c) 3"
      by (auto simp: sonreb_fit_def split: if_splits option.splits)
    then show ?thesis unfolding sonreb(1) using assms(2)
      by (subst stats_of_rows [where pred = "\<lambda>r. exp k * row_v r powr b * the (row_r r) powr c"])
        (auto simp: published_def curve_value_def num_at_def param_count_def list_all_iff has_rebound_def
          split: option.splits)
  qed
qed

text \<open>
  The regression fits a line or a parabola to rows with a velocity of zero or less as well; the
  statistics that saving derives ask for a prediction at every pair, and there is none at such a
  velocity.
\<close>

lemma no_stats_without_velocity:
  assumes "(ty, Inr ft) \<in> set (fit_attempts F rows)" "\<not> list_all (\<lambda>r. 0 < row_v r) rows"
  shows "curve_fit_stats ty params (map pair_of rows) = (None, None, None)"
proof -
  have "ty \<noteq> SonReb"
    using assms by (auto simp: fit_attempts_def sonreb_fit_def positive_rows_def list_all_iff
        split: if_splits option.splits)
  then have scored: "scored_pairs ty (map pair_of rows) = map (\<lambda>r. (row_v r, row_f r, pair_of r)) rows"
    by (simp add: scored_pairs_def calibration_pairs_of_rows)
  from assms(2) obtain r where r: "r \<in> set rows" "row_v r \<le> 0" by (auto simp: list_all_iff)
  have none: "those (map (predicted ty params) (map (\<lambda>r. (row_v r, row_f r, pair_of r)) rows)) = None"
    using r by (induction rows) (auto simp: predicted_def apply_curve_params_def split: option.splits)
  show ?thesis unfolding curve_fit_stats_def Let_def scored none by simp
qed

text \<open>
  C22. What the regression reports is what is stored, whenever anything is. Take any curve that a
  regression over these rows fitted, and save it with its type, its parameters and the rows as its
  calibration pairs: if every row has a positive velocity, the coefficient of determination, the
  standard error and the AIC of the saved curve are exactly the published ones; if one has not, all
  three are stored as missing although the regression published figures for its line or parabola.
  Of the fitting library it is assumed that a parabola has three coefficients.
\<close>
theorem regression_stats_survive_saving:
  assumes "run_regression F rows = Regressed fits best" "(ty, Inr ft) \<in> set fits"
    and "\<And>vs fs cs. fit_parabola F vs fs = Some cs \<Longrightarrow> length cs = 3"
    and "cv_type c = ty" "cv_params c = ft_params ft" "cv_points c = map pair_of rows"
  shows "(cv_r2 (curve_saved c), cv_se (curve_saved c), cv_aic (curve_saved c)) =
    (if list_all (\<lambda>r. 0 < row_v r) rows then ft_stats ft else (None, None, None))"
proof -
  have fit: "(ty, Inr ft) \<in> set (fit_attempts F rows)"
    using assms(1,2) by (auto simp: run_regression_def split: if_splits)
  have "(cv_r2 (curve_saved c), cv_se (curve_saved c), cv_aic (curve_saved c)) =
      curve_fit_stats ty (ft_params ft) (map pair_of rows)"
    by (simp add: curve_saved_def assms(4-6) split: prod.splits)
  then show ?thesis
    using fitted_stats [OF fit _ assms(3)] no_stats_without_velocity [OF fit] by simp
qed

definition demo_fitters :: fitters where
  "demo_fitters = \<lparr>fit_line = (\<lambda>vs fs. Some (1/100, - 20)), fit_parabola = (\<lambda>vs fs. Some [0, 1/100, - 20]),
     fit_exp = (\<lambda>vs fs. None), fit_plane = (\<lambda>vs rs fs. None)\<rparr>"

definition demo_rows :: "cal_row list" where
  "demo_rows = [(3000, 11, None), (4000, 19, None), (5000, 31, None)]"

definition fitted_demo :: "cal_row list \<Rightarrow> jval \<Rightarrow> strength_curve" where
  "fitted_demo rows params = demo_curve\<lparr>cv_type := Linear, cv_params := params, cv_points := map pair_of rows\<rparr>"

lemma regression_stats_survive_saving_witness:
  "\<exists>ft gt. linear_fit demo_fitters demo_rows = Inr ft \<and>
     cv_r2 (curve_saved (fitted_demo demo_rows (ft_params ft))) = fst (ft_stats ft) \<and>
     linear_fit demo_fitters ((0, 5, None) # demo_rows) = Inr gt \<and> fst (ft_stats gt) \<noteq> None \<and>
     cv_r2 (curve_saved (fitted_demo ((0, 5, None) # demo_rows) (ft_params gt))) = None"
proof -
  have three: "length cs = 3" if "fit_parabola demo_fitters vs fs = Some cs" for vs fs cs
    using that by (auto simp: demo_fitters_def)
  have run: "run_regression demo_fitters rows = Regressed (fit_attempts demo_fitters rows)
      (best_fit_type (fitted_curves demo_fitters rows))" if "2 \<le> length rows" for rows
    using that by (simp add: run_regression_def)
  have long: "2 \<le> length demo_rows" "2 \<le> length ((0, 5, None) # demo_rows)"
    by (simp_all add: demo_rows_def)
  obtain ft where ft: "linear_fit demo_fitters demo_rows = Inr ft"
    by (simp add: linear_fit_def demo_fitters_def demo_rows_def)
  obtain gt where gt: "linear_fit demo_fitters ((0, 5, None) # demo_rows) = Inr gt"
    by (simp add: linear_fit_def demo_fitters_def demo_rows_def)
  have "fst (ft_stats gt) \<noteq> None"
    using gt by (auto simp: linear_fit_def demo_fitters_def demo_rows_def published_def fit_stats_def
        Let_def row_f_def row_v_def power2_eq_square)
  moreover have "(cv_r2 (curve_saved (fitted_demo demo_rows (ft_params ft))),
      cv_se (curve_saved (fitted_demo demo_rows (ft_params ft))),
      cv_aic (curve_saved (fitted_demo demo_rows (ft_params ft)))) =
      (if list_all (\<lambda>r. 0 < row_v r) demo_rows then ft_stats ft else (None, None, None))"
    by (rule regression_stats_survive_saving [OF run [OF long(1)] _ three, where ty = Linear])
      (simp_all add: fit_attempts_def ft fitted_demo_def)
  then have "cv_r2 (curve_saved (fitted_demo demo_rows (ft_params ft))) = fst (ft_stats ft)"
    by (cases "ft_stats ft") (simp add: demo_rows_def row_v_def)
  moreover have "(cv_r2 (curve_saved (fitted_demo ((0, 5, None) # demo_rows) (ft_params gt))),
      cv_se (curve_saved (fitted_demo ((0, 5, None) # demo_rows) (ft_params gt))),
      cv_aic (curve_saved (fitted_demo ((0, 5, None) # demo_rows) (ft_params gt)))) =
      (if list_all (\<lambda>r. 0 < row_v r) ((0, 5, None) # demo_rows) then ft_stats gt else (None, None, None))"
    by (rule regression_stats_survive_saving [OF run [OF long(2)] _ three, where ty = Linear])
      (simp_all add: fit_attempts_def gt fitted_demo_def)
  ultimately show ?thesis using ft gt by (auto simp: row_v_def)
qed

section \<open>A policy that does nothing\<close>

text \<open>The serializer counts objects, the analysis counts pairs of numbers: three objects without
  numbers switch a policy on that can never be applied, which the serializer says it prevents.\<close>

definition hollow_curve :: curve_attrs where
  "hollow_curve =
     \<lparr>ca_type = Some Linear, ca_params = Some demo_linear, ca_points = Some (replicate 3 (VDict [(''note'', VText ''core'')])),
      ca_default = None, ca_method = Some Bias_Correction, ca_factor = None\<rparr>"

lemma hollow_policy_accepted: "validate_curve None hollow_curve = Inr hollow_curve"
  by (simp add: validate_curve_def merged_params_def hollow_curve_def demo_linear_def first_some_def validate_curve_params_def
      require_number_def check_policy_def merged_method_def merged_points_def is_dict_def
      min_pairs_for_adjustment_def strength_plausibility_error_def Let_def numeral_3_eq_3)

lemma hollow_policy_inert:
  assumes "cv_points c = replicate 3 (VDict [(''note'', VText ''core'')])"
  shows "fst (apply_se_adjustment base (Some c) n) = base"
proof -
  obtain r d where rd: "apply_se_adjustment base (Some c) n = (r, d)" by force
  have "calibration_pairs (cv_points c) = []"
    by (simp add: assms calibration_pairs_def calibration_pair_def map_filter_simps numeral_3_eq_3)
  with rd show ?thesis
    by (cases base) (auto dest: apply_se_adjustment_None elim!: apply_se_adjustment_cases analysis_available)
qed

text \<open>A numeric strength above the ceiling never enters a stored set of pairs.\<close>

lemma check_points_plausible:
  assumes "check_points i ps = Inr ()" "p \<in> set ps" "item p ''f'' = Some (VNum x)"
  shows "x \<le> 100"
proof -
  have "is_dict p" using assms(3) by (cases p) (auto simp: is_dict_def)
  with assms show ?thesis
    by (induction i ps rule: check_points.induct)
      (auto simp: strength_plausibility_error_def float_arg_def split: if_splits option.splits)
qed

text \<open>
  A curve that is accepted has well-formed parameters, plausible submitted strengths, no
  claim to be the platform's default, and a policy the engine knows with a factor it can use.
\<close>
theorem accepted_curve_is_sound:
  assumes "validate_curve inst sub = Inr out"
  shows "ca_default out \<noteq> Some True \<and>
    (\<exists>ty p. first_some (ca_type out) (map_option cv_type inst) = Some ty \<and>
       merged_params inst out = Some p \<and> validate_curve_params ty p = Inr ()) \<and>
    list_all (\<lambda>p. case item p ''f'' of Some (VNum x) \<Rightarrow> x \<le> 100 | _ \<Rightarrow> True)
      (case ca_points out of Some ps \<Rightarrow> ps | None \<Rightarrow> []) \<and>
    merged_method inst out \<in> {No_Adjustment, Bias_Correction, Confidence_Margin} \<and>
    (merged_method inst out = Confidence_Margin \<longrightarrow>
       (case first_some (ca_factor out) (map_option cv_factor inst) of Some k \<Rightarrow> 0 < k | None \<Rightarrow> True)) \<and>
    (merged_method inst out \<noteq> No_Adjustment \<longrightarrow> 3 \<le> length (merged_points inst out))"
proof -
  from assms obtain ty p where tp: "first_some (ca_type sub) (map_option cv_type inst) = Some ty"
      "merged_params inst sub = Some p" "validate_curve_params ty p = Inr ()"
      and pts: "check_points 1 (case ca_points sub of Some ps \<Rightarrow> ps | None \<Rightarrow> []) = Inr ()"
      and pol: "check_policy inst sub = Inr ()"
      and out: "out = (if ca_default sub = Some True then sub\<lparr>ca_default := Some False\<rparr> else sub)"
    by (auto simp: validate_curve_def bind_r_Inr_iff Let_def split: option.splits sum.splits if_splits)
  have same: "ca_type out = ca_type sub" "ca_params out = ca_params sub" "ca_points out = ca_points sub"
      "ca_method out = ca_method sub" "ca_factor out = ca_factor sub"
    by (simp_all add: out)
  then have merged: "merged_params inst out = merged_params inst sub" "merged_method inst out = merged_method inst sub"
      "merged_points inst out = merged_points inst sub"
    by (simp_all add: merged_params_def merged_method_def merged_points_def)
  have "list_all (\<lambda>p. case item p ''f'' of Some (VNum x) \<Rightarrow> x \<le> 100 | _ \<Rightarrow> True)
      (case ca_points sub of Some ps \<Rightarrow> ps | None \<Rightarrow> [])"
    using check_points_plausible [OF pts] by (auto simp: list_all_iff split: option.splits jval.splits)
  moreover have "ca_default out \<noteq> Some True" by (simp add: out)
  moreover have "merged_method inst sub \<in> {No_Adjustment, Bias_Correction, Confidence_Margin}"
    using pol by (auto simp: check_policy_def Let_def split: if_splits)
  moreover have "case first_some (ca_factor sub) (map_option cv_factor inst) of Some k \<Rightarrow> 0 < k | None \<Rightarrow> True"
    if "merged_method inst sub = Confidence_Margin"
    using pol that by (auto simp: check_policy_def Let_def split: if_splits option.splits)
  moreover have "3 \<le> length (merged_points inst sub)" if "merged_method inst sub \<noteq> No_Adjustment"
  proof -
    have "3 \<le> length (filter is_dict (merged_points inst sub))"
      using pol that by (auto simp: check_policy_def Let_def min_pairs_for_adjustment_def split: if_splits)
    then show ?thesis using length_filter_le order_trans by blast
  qed
  ultimately show ?thesis using tp by (simp add: same merged)
qed

lemma accepted_curve_is_sound_witness:
  "validate_curve None hollow_curve = Inr hollow_curve \<and> 3 \<le> length (merged_points None hollow_curve)"
  using accepted_curve_is_sound [OF hollow_policy_accepted] hollow_policy_accepted
  by (simp add: merged_method_def hollow_curve_def)

end
