(* ===== verification/Pundit_Readings.thy ===== *)
theory Pundit_Readings
  imports Strength_Adjustment "HOL-Library.Multiset"
begin

text \<open>
  Ultrasonic tests of concrete: \<open>PUNDITTest\<close> and \<open>PUNDITReading\<close> of
  \<^verbatim>\<open>apps/digital_eye/models.py\<close>, the deterministic functions of
  \<open>PUNDITAdapter\<close>, the labels and the element verdict of \<open>PUNDITTestSerializer\<close>, and
  \<^verbatim>\<open>apps/digital_eye/confidence_metrics.py\<close> without its sentences. The curves and the
  activations of the projects are an argument of what computes a strength;
  \<^verbatim>\<open>math.erf\<close> is a parameter.
\<close>

section \<open>Labels of test points\<close>

datatype label_fault = Label_Too_Long string | Duplicate_Label string

definition clean_label :: "string option \<Rightarrow> string" where
  "clean_label l = py_upper (py_strip (or_empty l))"

fun explicit_labels :: "string list \<Rightarrow> string option list \<Rightarrow> label_fault + string list" where
  "explicit_labels used [] = Inr used"
| "explicit_labels used (l # ls) =
     (let e = clean_label l
      in if e = [] then explicit_labels used ls
         else if 10 < length e then Inl (Label_Too_Long e)
         else if e \<in> set used then Inl (Duplicate_Label e)
         else explicit_labels (e # used) ls)"

definition candidate_label :: "nat \<Rightarrow> string" where
  "candidate_label i = (if i < 26 then [char_of (65 + i)] else CHR ''P'' # show_nat (i + 1))"

lemma candidate_label_inj: "candidate_label i = candidate_label j \<Longrightarrow> i = j"
proof -
  have code: "i = j" if "i < 26" "j < 26" "char_of (65 + i) = (char_of (65 + j) :: char)" for i j :: nat
  proof -
    have "of_char (char_of (65 + i) :: char) = (of_char (char_of (65 + j) :: char) :: nat)" using that by simp
    then show ?thesis using that by simp
  qed
  show "candidate_label i = candidate_label j \<Longrightarrow> i = j"
    using show_nat_ne [of "Suc i"] show_nat_ne [of "Suc j"] show_nat_ne [of "Suc j", symmetric]
    by (auto simp: candidate_label_def code split: if_splits)
qed

text \<open>The labels in use that the counter has still ahead of it.\<close>

definition labels_ahead :: "string list \<Rightarrow> nat \<Rightarrow> nat set" where
  "labels_ahead used i = {k. i \<le> k \<and> candidate_label k \<in> set used}"

lemma finite_labels_ahead: "finite (labels_ahead used i)"
proof -
  have "finite (candidate_label -` set used)"
    by (rule finite_vimageI) (auto intro: injI candidate_label_inj)
  then show ?thesis by (rule rev_finite_subset) (auto simp: labels_ahead_def)
qed

lemma labels_ahead_step:
  assumes "candidate_label i \<in> set used"
  shows "card (labels_ahead used (Suc i)) < card (labels_ahead used i)"
proof (rule psubset_card_mono [OF finite_labels_ahead])
  have "i \<in> labels_ahead used i" using assms by (simp add: labels_ahead_def)
  moreover have "i \<notin> labels_ahead used (Suc i)" by (simp add: labels_ahead_def)
  moreover have "labels_ahead used (Suc i) \<subseteq> labels_ahead used i" by (auto simp: labels_ahead_def)
  ultimately show "labels_ahead used (Suc i) \<subset> labels_ahead used i" by blast
qed

text \<open>The \<^verbatim>\<open>while True\<close> loop: the next candidate that is not in use, and the counter after
  it. It ends because every refused candidate is one fewer ahead.\<close>

function next_label :: "string list \<Rightarrow> nat \<Rightarrow> string \<times> nat" where
  "next_label used i =
     (if candidate_label i \<in> set used then next_label used (Suc i) else (candidate_label i, Suc i))"
  by pat_completeness auto
termination
  by (relation "measure (\<lambda>(used, i). card (labels_ahead used i))") (simp_all add: labels_ahead_step)

declare next_label.simps [simp del]

fun fill_labels :: "string list \<Rightarrow> nat \<Rightarrow> string option list \<Rightarrow> string list" where
  "fill_labels used i [] = []"
| "fill_labels used i (l # ls) =
     (let e = clean_label l
      in if e = [] then case next_label used i of (c, j) \<Rightarrow> c # fill_labels (c # used) j ls
         else e # fill_labels used i ls)"

definition assign_labels :: "string option list \<Rightarrow> label_fault + string list" where
  "assign_labels ls = bind_r (explicit_labels [] ls) (\<lambda>used. Inr (fill_labels used 0 ls))"

section \<open>Grades and depths\<close>

datatype grade = Excellent | Good | Questionable | Poor | Very_Poor | Unverified | Pending

definition grade_thresholds :: "(real \<times> grade) list" where
  "grade_thresholds = [(4.5, Excellent), (3.75, Good), (3, Questionable), (2, Poor), (0, Very_Poor)]"

definition grade_quality :: "real option \<Rightarrow> grade" where
  "grade_quality velocity = (case velocity of
      None \<Rightarrow> Pending
    | Some v \<Rightarrow> if \<not> (1 \<le> v \<and> v \<le> 6) then Unverified
        else case List.find (\<lambda>(th, g). th \<le> v) grade_thresholds of Some (th, g) \<Rightarrow> g | None \<Rightarrow> Very_Poor)"

datatype risk_level = Info | Low | Medium | High | Critical

definition grade_risk :: "grade \<Rightarrow> (risk_level \<times> real) option" where
  "grade_risk g = (case g of
      Excellent \<Rightarrow> Some (Info, 0.05) | Good \<Rightarrow> Some (Low, 0.20) | Questionable \<Rightarrow> Some (Medium, 0.50)
    | Poor \<Rightarrow> Some (High, 0.93) | Very_Poor \<Rightarrow> Some (Critical, 0.95) | Unverified \<Rightarrow> None | Pending \<Rightarrow> None)"

definition compute_velocity_km_s :: "real option \<Rightarrow> real option \<Rightarrow> real option" where
  "compute_velocity_km_s path_mm time_us = (case (path_mm, time_us) of
      (Some l, Some t) \<Rightarrow> if l \<le> 0 \<or> t \<le> 0 then None else Some (l / t) | _ \<Rightarrow> None)"

text \<open>A path length of zero gives no depth; a negative one, which the serializer refuses on a
  point, would give a negative depth.\<close>

definition compute_crack_depth_mm :: "real option \<Rightarrow> real option \<Rightarrow> real option \<Rightarrow> real option" where
  "compute_crack_depth_mm path tc t0 = (case (path, tc, t0) of
      (Some l, Some c, Some u) \<Rightarrow>
        if l = 0 \<or> c \<le> 0 \<or> u \<le> 0 then None
        else let ratio = c / u in if ratio \<le> 1 then None else Some (l / 2 * sqrt (ratio\<^sup>2 - 1))
    | _ \<Rightarrow> None)"

section \<open>Readings\<close>

datatype test_type = Pulse_Velocity | Crack_Depth | Surface_Quality

record reading =
  rd_label :: string
  rd_path :: "real option"
  rd_transit :: "real option"
  rd_uncracked :: "real option"
  rd_condition :: string
  rd_rebound :: "real option"
  rd_velocity :: "real option"
  rd_ecs :: "real option"
  rd_snapshot :: "curve_snapshot option"
  rd_crack_depth :: "real option"

record pundit_test =
  pt_project :: "nat option"
  pt_type :: test_type
  pt_path :: "real option"
  pt_pulse_time :: "real option"
  pt_transit :: "real option"
  pt_crack_path :: "real option"
  pt_crack_time :: "real option"
  pt_uncracked_time :: "real option"
  pt_temperature :: "real option"
  pt_condition :: string
  pt_rebound :: "real option"
  pt_element :: string
  pt_element_name :: string
  pt_velocity :: "real option"
  pt_velocity_ms :: "real option"
  pt_grade :: grade
  pt_ecs :: "real option"
  pt_snapshot :: "curve_snapshot option"
  pt_crack_depth :: "real option"
  pt_est_crack_depth :: "real option"
  pt_ci :: "(real \<times> real) option"
  pt_pof :: "real option"
  pt_quality :: "string"
  pt_readings :: "reading list"

text \<open>The curves on record and what each project activated.\<close>

type_synonym curve_env = "strength_curve list \<times> (nat \<Rightarrow> nat option)"

definition strength_of ::
    "curve_env \<Rightarrow> pundit_test \<Rightarrow> real option \<Rightarrow> real option \<Rightarrow> int option \<Rightarrow> real option \<times> curve_snapshot" where
  "strength_of E t velocity rebound n =
     apply_active_curve (fst E) (snd E) (pt_project t) velocity rebound (pt_temperature t) n"

definition positive :: "real option \<Rightarrow> bool" where
  "positive x = (case x of Some y \<Rightarrow> 0 < y | None \<Rightarrow> False)"

definition reading_velocity :: "reading \<Rightarrow> real option" where
  "reading_velocity r =
     (if rd_transit r \<noteq> None \<and> rd_uncracked r \<noteq> None then None
      else if positive (rd_path r) \<and> positive (rd_transit r)
      then Some (the (rd_path r) / the (rd_transit r)) else None)"

definition compute_reading :: "curve_env \<Rightarrow> pundit_test \<Rightarrow> reading \<Rightarrow> reading" where
  "compute_reading E t r =
     (let v = reading_velocity r;
          rebound = (case rd_rebound r of None \<Rightarrow> pt_rebound t | Some x \<Rightarrow> Some x)
      in case strength_of E t v rebound None of (ecs, sn) \<Rightarrow>
         r\<lparr>rd_velocity := v, rd_ecs := ecs, rd_snapshot := Some sn,
           rd_crack_depth := compute_crack_depth_mm (rd_path r) (rd_transit r) (rd_uncracked r)\<rparr>)"

section \<open>Rows and means of an element\<close>

text \<open>The columns of a row that the verdict uses: velocity, strength and depth.\<close>

record point_row =
  pr_velocity :: "real option"
  pr_ecs :: "real option"
  pr_crack_depth :: "real option"

definition legacy_velocity :: "pundit_test \<Rightarrow> real option" where
  "legacy_velocity t = (case pt_velocity t of
      Some v \<Rightarrow> Some v | None \<Rightarrow> compute_velocity_km_s (pt_path t) (pt_pulse_time t))"

definition reading_rows :: "curve_env \<Rightarrow> pundit_test \<Rightarrow> point_row list" where
  "reading_rows E t =
     (if pt_readings t \<noteq> []
      then map (\<lambda>r. \<lparr>pr_velocity = rd_velocity r, pr_ecs = rd_ecs r,
                     pr_crack_depth = (if pt_type t = Crack_Depth then rd_crack_depth r else None)\<rparr>)
             (sort_key rd_label (pt_readings t))
      else [case pt_type t of
          Crack_Depth \<Rightarrow> \<lparr>pr_velocity = None, pr_ecs = None,
             pr_crack_depth = compute_crack_depth_mm (pt_crack_path t) (pt_crack_time t) (pt_uncracked_time t)\<rparr>
        | Surface_Quality \<Rightarrow> \<lparr>pr_velocity = None, pr_ecs = None, pr_crack_depth = None\<rparr>
        | Pulse_Velocity \<Rightarrow>
            (let v = legacy_velocity t
             in \<lparr>pr_velocity = v,
                 pr_ecs = (if v = None then None else fst (strength_of E t v (pt_rebound t) None)),
                 pr_crack_depth = None\<rparr>)])"

definition mean :: "real list \<Rightarrow> real option" where
  "mean xs = (if xs = [] then None else Some (sum_list xs / of_nat (length xs)))"

definition velocities :: "point_row list \<Rightarrow> real list" where
  "velocities rows = List.map_filter pr_velocity rows"

definition element_mean_velocity :: "curve_env \<Rightarrow> pundit_test \<Rightarrow> real option" where
  "element_mean_velocity E t = mean (velocities (reading_rows E t))"

definition element_point_count :: "curve_env \<Rightarrow> pundit_test \<Rightarrow> nat" where
  "element_point_count E t = max 1 (length (velocities (reading_rows E t)))"

definition element_mean_crack_depth :: "curve_env \<Rightarrow> pundit_test \<Rightarrow> real option" where
  "element_mean_crack_depth E t =
     (if pt_type t \<noteq> Crack_Depth then None else mean (List.map_filter pr_crack_depth (reading_rows E t)))"

section \<open>Confidence\<close>

definition z_95 :: real where
  "z_95 = 1.959963984540054"

definition strength_confidence_interval :: "real option \<Rightarrow> real option \<Rightarrow> (real \<times> real) option" where
  "strength_confidence_interval ecs se = (case (ecs, se) of
      (Some f, Some s) \<Rightarrow> Some (f - z_95 * s, f + z_95 * s) | _ \<Rightarrow> None)"

definition probability_below_design :: "(real \<Rightarrow> real) \<Rightarrow> real option \<Rightarrow> real option \<Rightarrow> real option" where
  "probability_below_design erf ecs se = (case (ecs, se) of
      (Some f, Some s) \<Rightarrow>
        if s \<le> 0 then None else Some (round_to 3 (0.5 * (1 + erf ((25 - f) / s / sqrt 2))))
    | _ \<Rightarrow> None)"

definition data_quality_score :: "nat \<Rightarrow> real option \<Rightarrow> string option" where
  "data_quality_score n spread =
     (if n < 1 then None
      else if n = 1 then Some ''LOW''
      else case spread of
             None \<Rightarrow> Some ''MEDIUM''
           | Some p \<Rightarrow> if p \<le> 2 \<and> 3 \<le> n then Some ''HIGH''
                       else if p \<le> 5 \<or> 3 \<le> n then Some ''MEDIUM'' else Some ''LOW'')"

definition spread_pct :: "real list \<Rightarrow> real option" where
  "spread_pct vs =
     (if 1 < length vs \<and> sum_list vs \<noteq> 0
      then Some (round_to 1 ((Max (set vs) - Min (set vs)) / (sum_list vs / of_nat (length vs)) * 100))
      else None)"

text \<open>A stored standard error of zero or less is no error estimate.\<close>

definition curve_standard_error :: "curve_env \<Rightarrow> nat option \<Rightarrow> real option" where
  "curve_standard_error E project =
     (case Option.bind (resolve_active_curve (fst E) (snd E) project) cv_se of
        Some s \<Rightarrow> if 0 < s then Some s else None | None \<Rightarrow> None)"

definition refresh_confidence_metrics :: "(real \<Rightarrow> real) \<Rightarrow> curve_env \<Rightarrow> pundit_test \<Rightarrow> pundit_test" where
  "refresh_confidence_metrics erf E t =
     (let t = t\<lparr>pt_ci := None, pt_pof := None, pt_quality := []\<rparr>
      in if pt_type t \<noteq> Pulse_Velocity then t
         else let rows = reading_rows E t; vs = velocities rows; mean_v = mean vs; spread = spread_pct vs;
                  t = (if pt_ecs t = None \<and> mean_v \<noteq> None
                       then case strength_of E t mean_v (pt_rebound t) (Some (int (length vs))) of (ecs, sn) \<Rightarrow>
                              t\<lparr>pt_ecs := ecs, pt_snapshot := (case pt_snapshot t of None \<Rightarrow> Some sn | Some x \<Rightarrow> Some x)\<rparr>
                       else t);
                  se = (case Option.bind (pt_snapshot t) sn_se of
                          None \<Rightarrow> curve_standard_error E (pt_project t) | Some s \<Rightarrow> Some s);
                  ci = strength_confidence_interval (pt_ecs t) se;
                  p = (if ci = None then None else probability_below_design erf (pt_ecs t) se);
                  q = data_quality_score (length rows) spread
              in t\<lparr>pt_ci := map_option (\<lambda>(lo, hi). (round_to 2 lo, round_to 2 hi)) ci,
                   pt_pof := map_option (\<lambda>p. round_to 2 (p * 100)) p,
                   pt_quality := (case q of None \<Rightarrow> [] | Some label \<Rightarrow> label)\<rparr>)"

section \<open>Saving a test\<close>

text \<open>Each pair of columns is filled from the one that is present; a pair that disagrees is left.\<close>

definition sync_times :: "pundit_test \<Rightarrow> pundit_test" where
  "sync_times t =
     (if pt_transit t \<noteq> None \<and> pt_pulse_time t = None then t\<lparr>pt_pulse_time := pt_transit t\<rparr>
      else if pt_pulse_time t \<noteq> None \<and> pt_transit t = None then t\<lparr>pt_transit := pt_pulse_time t\<rparr> else t)"

definition sync_velocities :: "pundit_test \<Rightarrow> pundit_test" where
  "sync_velocities t =
     (if pt_velocity_ms t \<noteq> None \<and> pt_velocity t = None
      then t\<lparr>pt_velocity := map_option (\<lambda>v. round_to 4 (v / 1000)) (pt_velocity_ms t)\<rparr>
      else if pt_velocity t \<noteq> None \<and> pt_velocity_ms t = None
      then t\<lparr>pt_velocity_ms := map_option (\<lambda>v. round_to 1 (v * 1000)) (pt_velocity t)\<rparr> else t)"

definition sync_names :: "pundit_test \<Rightarrow> pundit_test" where
  "sync_names t =
     (if pt_element_name t \<noteq> [] \<and> pt_element t = [] then t\<lparr>pt_element := pt_element_name t\<rparr>
      else if pt_element t \<noteq> [] \<and> pt_element_name t = [] then t\<lparr>pt_element_name := pt_element t\<rparr> else t)"

definition sync_pairs :: "pundit_test \<Rightarrow> pundit_test" where
  "sync_pairs t = sync_names (sync_velocities (sync_times t))"

definition sync_depths :: "pundit_test \<Rightarrow> pundit_test" where
  "sync_depths t =
     (if pt_est_crack_depth t \<noteq> None \<and> pt_crack_depth t = None then t\<lparr>pt_crack_depth := pt_est_crack_depth t\<rparr>
      else if pt_crack_depth t \<noteq> None \<and> pt_est_crack_depth t = None
      then t\<lparr>pt_est_crack_depth := pt_crack_depth t\<rparr> else t)"

definition save_test :: "(real \<Rightarrow> real) \<Rightarrow> curve_env \<Rightarrow> pundit_test \<Rightarrow> pundit_test" where
  "save_test erf E t = sync_depths (refresh_confidence_metrics erf E (sync_pairs t))"

text \<open>\<open>_sync_readings\<close>: the submitted points replace the stored ones and give the verdict; the
  scalar columns follow the first point in label order.\<close>

definition scalar_columns :: "pundit_test \<Rightarrow> pundit_test" where
  "scalar_columns t = (case sort_key rd_label (pt_readings t) of
      [] \<Rightarrow> t
    | f # _ \<Rightarrow> (case pt_type t of
          Crack_Depth \<Rightarrow> t\<lparr>pt_crack_path := rd_path f, pt_crack_time := rd_transit f, pt_uncracked_time := rd_uncracked f\<rparr>
        | Surface_Quality \<Rightarrow> t\<lparr>pt_condition := rd_condition f\<rparr>
        | Pulse_Velocity \<Rightarrow> t\<lparr>pt_path := rd_path f, pt_pulse_time := rd_transit f, pt_transit := rd_transit f\<rparr>))"

definition element_verdict :: "curve_env \<Rightarrow> pundit_test \<Rightarrow> pundit_test" where
  "element_verdict E t =
     (let mean_v = element_mean_velocity E t
      in case strength_of E t mean_v (pt_rebound t) (Some (int (element_point_count E t))) of (ecs, sn) \<Rightarrow>
         let t = t\<lparr>pt_velocity := mean_v, pt_velocity_ms := map_option (\<lambda>v. round_to 1 (v * 1000)) mean_v,
                  pt_ecs := ecs, pt_snapshot := Some sn, pt_grade := grade_quality mean_v\<rparr>
         in if pt_type t = Crack_Depth
            then t\<lparr>pt_crack_depth := element_mean_crack_depth E t, pt_est_crack_depth := element_mean_crack_depth E t\<rparr>
            else t)"

definition sync_readings ::
    "(real \<Rightarrow> real) \<Rightarrow> curve_env \<Rightarrow> pundit_test \<Rightarrow> reading list \<Rightarrow> pundit_test" where
  "sync_readings erf E t rs =
     (let t = t\<lparr>pt_readings := map (compute_reading E t) rs\<rparr>
      in save_test erf E (scalar_columns (element_verdict E t)))"

section \<open>What the serializer requires of the points\<close>

datatype reading_refusal =
    No_Points | Bad_Label label_fault | Path_Required | Times_Required | Condition_Required

definition with_path :: "real option \<Rightarrow> reading \<Rightarrow> reading_refusal + reading" where
  "with_path shared r = (case rd_path r of
      Some _ \<Rightarrow> Inr r
    | None \<Rightarrow> if shared = None \<or> shared = Some 0 then Inl Path_Required else Inr (r\<lparr>rd_path := shared\<rparr>))"

definition nonzero :: "real option \<Rightarrow> bool" where
  "nonzero x \<longleftrightarrow> x \<noteq> None \<and> x \<noteq> Some 0"

definition check_reading :: "test_type \<Rightarrow> real option \<Rightarrow> reading \<Rightarrow> reading_refusal + reading" where
  "check_reading ty shared r = (case ty of
      Pulse_Velocity \<Rightarrow> with_path shared r
    | Crack_Depth \<Rightarrow>
        if \<not> nonzero (rd_transit r) \<or> \<not> nonzero (rd_uncracked r) then Inl Times_Required else with_path shared r
    | Surface_Quality \<Rightarrow> if py_strip (rd_condition r) = [] then Inl Condition_Required else Inr r)"

fun check_readings :: "test_type \<Rightarrow> real option \<Rightarrow> reading list \<Rightarrow> reading_refusal + reading list" where
  "check_readings ty shared [] = Inr []"
| "check_readings ty shared (r # rs) =
     bind_r (check_reading ty shared r) (\<lambda>r'. bind_r (check_readings ty shared rs) (\<lambda>rs'. Inr (r' # rs')))"

text \<open>Points as submitted carry the label the client sent, or none.\<close>

definition validate_readings ::
    "test_type \<Rightarrow> real option \<Rightarrow> (string option \<times> reading) list \<Rightarrow> reading_refusal + reading list" where
  "validate_readings ty shared subs =
     (if subs = [] then Inl No_Points
      else case assign_labels (map fst subs) of
             Inl e \<Rightarrow> Inl (Bad_Label e)
           | Inr ls \<Rightarrow> check_readings ty shared (map2 (\<lambda>l (_, r). r\<lparr>rd_label := l\<rparr>) ls subs))"

section \<open>The labels\<close>

lemma next_label_finds:
  "\<exists>k. next_label used i = (candidate_label (i + k), Suc (i + k)) \<and>
     candidate_label (i + k) \<notin> set used \<and> (\<forall>j < k. candidate_label (i + j) \<in> set used)"
proof (induction used i rule: next_label.induct)
  case (1 used i)
  show ?case
  proof (cases "candidate_label i \<in> set used")
    case True
    from 1 [OF True] obtain k where k: "next_label used (Suc i) = (candidate_label (Suc i + k), Suc (Suc i + k))"
        "candidate_label (Suc i + k) \<notin> set used" "\<forall>j < k. candidate_label (Suc i + j) \<in> set used" by blast
    have "\<forall>j < Suc k. candidate_label (i + j) \<in> set used"
      using True k(3) by (auto simp: less_Suc_eq_0_disj)
    then show ?thesis
      using True k(1,2) by (intro exI [of _ "Suc k"]) (simp add: next_label.simps [of used i])
  next
    case False
    then show ?thesis by (intro exI [of _ 0]) (simp add: next_label.simps [of used i])
  qed
qed

text \<open>
  C24. The search for a free label ends after at most one candidate more than there are labels
  in use; it returns the first free candidate and leaves the counter behind it.
\<close>
theorem next_label_terminates:
  "\<exists>k \<le> length used. next_label used i = (candidate_label (i + k), Suc (i + k)) \<and>
     candidate_label (i + k) \<notin> set used \<and> (\<forall>j < k. candidate_label (i + j) \<in> set used)"
proof -
  obtain k where k: "next_label used i = (candidate_label (i + k), Suc (i + k))"
      "candidate_label (i + k) \<notin> set used" "\<forall>j < k. candidate_label (i + j) \<in> set used" using next_label_finds by blast
  have "(\<lambda>j. candidate_label (i + j)) ` {..<k} \<subseteq> set used" using k(3) by auto
  then have "card ((\<lambda>j. candidate_label (i + j)) ` {..<k}) \<le> length used"
    by (rule order_trans [OF card_mono [OF finite_set] card_length])
  moreover have "card ((\<lambda>j. candidate_label (i + j)) ` {..<k}) = k"
    by (subst card_image) (auto intro!: inj_onI dest: candidate_label_inj)
  ultimately show ?thesis using k by auto
qed

lemma next_label_terminates_witness:
  "next_label [''B'', ''A''] 0 = (''C'', 3) \<and>
   (\<exists>k \<le> length [''B'', ''A'']. next_label [''B'', ''A''] 0 = (candidate_label (0 + k), Suc (0 + k)))"
proof -
  have "candidate_label 0 = ''A''" "candidate_label 1 = ''B''" "candidate_label 2 = ''C''" by code_simp+
  then have "next_label [''B'', ''A''] 0 = (''C'', 3)"
    by (simp add: next_label.simps numeral_2_eq_2)
  with next_label_terminates [of "[''B'', ''A'']" 0] show ?thesis by blast
qed

lemma explicit_labels_Inr:
  "explicit_labels used ls = Inr out \<longleftrightarrow>
   (let es = filter (\<lambda>e. e \<noteq> []) (map clean_label ls)
    in out = rev es @ used \<and> distinct es \<and> set es \<inter> set used = {} \<and> list_all (\<lambda>e. length e \<le> 10) es)"
  by (induction ls arbitrary: used) (auto simp: Let_def)

lemma fill_labels_sound:
  assumes "distinct (filter (\<lambda>e. e \<noteq> []) (map clean_label ls))"
    and "set (filter (\<lambda>e. e \<noteq> []) (map clean_label ls)) \<subseteq> set used"
  shows "list_all2 (\<lambda>l x. x \<noteq> [] \<and> (clean_label l \<noteq> [] \<longrightarrow> x = clean_label l) \<and>
      (clean_label l = [] \<longrightarrow> x \<notin> set used)) ls (fill_labels used i ls) \<and>
    distinct (fill_labels used i ls)"
  using assms
proof (induction used i ls rule: fill_labels.induct)
  case (2 used i l ls)
  let ?e = "clean_label l"
  show ?case
  proof (cases "?e = []")
    case True
    obtain k where nl: "next_label used i = (candidate_label (i + k), Suc (i + k))"
        "candidate_label (i + k) \<notin> set used"
      using next_label_finds [of used i] by blast
    let ?c = "candidate_label (i + k)"
    have "?c \<noteq> []" by (simp add: candidate_label_def)
    have IH: "list_all2 (\<lambda>l x. x \<noteq> [] \<and> (clean_label l \<noteq> [] \<longrightarrow> x = clean_label l) \<and>
          (clean_label l = [] \<longrightarrow> x \<notin> set (?c # used))) ls (fill_labels (?c # used) (Suc (i + k)) ls)"
        "distinct (fill_labels (?c # used) (Suc (i + k)) ls)"
      using 2(1) [OF refl True nl(1) [symmetric]] 2(3,4) True by auto
    have "?c \<notin> set (fill_labels (?c # used) (Suc (i + k)) ls)"
    proof
      assume "?c \<in> set (fill_labels (?c # used) (Suc (i + k)) ls)"
      with IH(1) obtain l' where l': "l' \<in> set ls" "clean_label l' = ?c"
        by (auto simp: list_all2_conv_all_nth in_set_conv_nth) (metis nth_mem)
      with 2(4) \<open>?c \<noteq> []\<close> have "?c \<in> set used" by force
      with nl(2) show False ..
    qed
    moreover have "list_all2 (\<lambda>l x. x \<noteq> [] \<and> (clean_label l \<noteq> [] \<longrightarrow> x = clean_label l) \<and>
          (clean_label l = [] \<longrightarrow> x \<notin> set used)) ls (fill_labels (?c # used) (Suc (i + k)) ls)"
      using IH(1) by (rule list_all2_mono) auto
    ultimately show ?thesis using True nl IH(2) \<open>?c \<noteq> []\<close> by (simp add: Let_def)
  next
    case False
    have IH: "list_all2 (\<lambda>l x. x \<noteq> [] \<and> (clean_label l \<noteq> [] \<longrightarrow> x = clean_label l) \<and>
          (clean_label l = [] \<longrightarrow> x \<notin> set used)) ls (fill_labels used i ls)"
        "distinct (fill_labels used i ls)"
      using 2(2) [OF refl False] 2(3,4) False by auto
    have "?e \<notin> set (fill_labels used i ls)"
    proof
      assume "?e \<in> set (fill_labels used i ls)"
      with IH(1) obtain l' where l': "l' \<in> set ls" "clean_label l' = ?e \<or> ?e \<notin> set used"
        by (auto simp: list_all2_conv_all_nth in_set_conv_nth) (metis nth_mem)
      with 2(3,4) False show False by (auto simp: image_iff)
    qed
    then show ?thesis using False IH by (simp add: Let_def)
  qed
qed simp

text \<open>
  The points of an element get labels exactly when the labels the client sent are distinct
  and of ten characters at most; then the sent labels are kept and the labels are all distinct.
\<close>
theorem labels_distinct:
  shows "is_ok (assign_labels ls) \<longleftrightarrow>
     distinct (filter (\<lambda>e. e \<noteq> []) (map clean_label ls)) \<and>
     list_all (\<lambda>l. length (clean_label l) \<le> 10) ls" (is ?ok)
    and "assign_labels ls = Inr out \<Longrightarrow>
     distinct out \<and> list_all2 (\<lambda>l x. x \<noteq> [] \<and> (clean_label l \<noteq> [] \<longrightarrow> x = clean_label l)) ls out" (is "_ \<Longrightarrow> ?out")
proof -
  have long: "list_all (\<lambda>e. length e \<le> 10) (filter (\<lambda>e. e \<noteq> []) (map clean_label ls)) \<longleftrightarrow>
      list_all (\<lambda>l. length (clean_label l) \<le> 10) ls"
    by (auto simp: list_all_iff)
  show ?ok
  proof
    assume "is_ok (assign_labels ls)"
    then obtain used where "explicit_labels [] ls = Inr used"
      by (cases "explicit_labels [] ls") (auto simp: assign_labels_def)
    then show "distinct (filter (\<lambda>e. e \<noteq> []) (map clean_label ls)) \<and>
        list_all (\<lambda>l. length (clean_label l) \<le> 10) ls"
      using long by (simp add: explicit_labels_Inr Let_def)
  next
    assume "distinct (filter (\<lambda>e. e \<noteq> []) (map clean_label ls)) \<and>
        list_all (\<lambda>l. length (clean_label l) \<le> 10) ls"
    then have "explicit_labels [] ls = Inr (rev (filter (\<lambda>e. e \<noteq> []) (map clean_label ls)))"
      using long by (simp add: explicit_labels_Inr Let_def)
    then show "is_ok (assign_labels ls)" by (simp add: assign_labels_def)
  qed
  assume "assign_labels ls = Inr out"
  then obtain used where used: "explicit_labels [] ls = Inr used" "out = fill_labels used 0 ls"
    by (auto simp: assign_labels_def bind_r_Inr_iff)
  then have "used = rev (filter (\<lambda>e. e \<noteq> []) (map clean_label ls))"
      "distinct (filter (\<lambda>e. e \<noteq> []) (map clean_label ls))"
    by (simp_all add: explicit_labels_Inr Let_def)
  from fill_labels_sound [OF this(2), of used 0] this used(2) show ?out
    by (auto elim: list_all2_mono)
qed

lemma labels_distinct_witness:
  "assign_labels [None, Some ''a '', None] = Inr [''B'', ''A'', ''C''] \<and> distinct [''B'', ''A'', ''C'']"
proof -
  have "explicit_labels [] [None, Some ''a '', None] = Inr [''A'']" by code_simp
  moreover have "candidate_label 0 = ''A''" "candidate_label 1 = ''B''" "candidate_label 2 = ''C''"
    "clean_label None = []" "clean_label (Some ''a '') = ''A''" by code_simp+
  ultimately have "assign_labels [None, Some ''a '', None] = Inr [''B'', ''A'', ''C'']"
    by (simp add: assign_labels_def next_label.simps numeral_2_eq_2)
  with labels_distinct(2) [OF this] show ?thesis by simp
qed

section \<open>The verdict of an element\<close>

lemma sync_depths_fields [simp]:
  "pt_ecs (sync_depths t) = pt_ecs t" "pt_velocity (sync_depths t) = pt_velocity t"
  "pt_grade (sync_depths t) = pt_grade t" "pt_readings (sync_depths t) = pt_readings t"
  "pt_quality (sync_depths t) = pt_quality t" "pt_ci (sync_depths t) = pt_ci t"
  by (simp_all add: sync_depths_def)

lemma refresh_fields [simp]:
  "pt_velocity (refresh_confidence_metrics erf E t) = pt_velocity t"
  "pt_grade (refresh_confidence_metrics erf E t) = pt_grade t"
  "pt_readings (refresh_confidence_metrics erf E t) = pt_readings t"
  by (simp_all add: refresh_confidence_metrics_def Let_def split: prod.splits)

lemma sync_times_fields [simp]:
  "pt_ecs (sync_times t) = pt_ecs t" "pt_grade (sync_times t) = pt_grade t"
  "pt_readings (sync_times t) = pt_readings t" "pt_type (sync_times t) = pt_type t"
  "pt_project (sync_times t) = pt_project t" "pt_temperature (sync_times t) = pt_temperature t"
  "pt_rebound (sync_times t) = pt_rebound t" "pt_snapshot (sync_times t) = pt_snapshot t"
  "pt_velocity (sync_times t) = pt_velocity t" "pt_velocity_ms (sync_times t) = pt_velocity_ms t"
  by (simp_all add: sync_times_def)

lemma sync_velocities_fields [simp]:
  "pt_ecs (sync_velocities t) = pt_ecs t" "pt_grade (sync_velocities t) = pt_grade t"
  "pt_readings (sync_velocities t) = pt_readings t" "pt_type (sync_velocities t) = pt_type t"
  "pt_project (sync_velocities t) = pt_project t" "pt_temperature (sync_velocities t) = pt_temperature t"
  "pt_rebound (sync_velocities t) = pt_rebound t" "pt_snapshot (sync_velocities t) = pt_snapshot t"
  by (simp_all add: sync_velocities_def)

lemma sync_names_fields [simp]:
  "pt_ecs (sync_names t) = pt_ecs t" "pt_grade (sync_names t) = pt_grade t"
  "pt_readings (sync_names t) = pt_readings t" "pt_type (sync_names t) = pt_type t"
  "pt_project (sync_names t) = pt_project t" "pt_temperature (sync_names t) = pt_temperature t"
  "pt_rebound (sync_names t) = pt_rebound t" "pt_snapshot (sync_names t) = pt_snapshot t"
  "pt_velocity (sync_names t) = pt_velocity t" "pt_velocity_ms (sync_names t) = pt_velocity_ms t"
  by (simp_all add: sync_names_def)

lemma sync_pairs_fields [simp]:
  "pt_ecs (sync_pairs t) = pt_ecs t" "pt_grade (sync_pairs t) = pt_grade t"
  "pt_readings (sync_pairs t) = pt_readings t" "pt_type (sync_pairs t) = pt_type t"
  "pt_project (sync_pairs t) = pt_project t" "pt_temperature (sync_pairs t) = pt_temperature t"
  "pt_rebound (sync_pairs t) = pt_rebound t" "pt_snapshot (sync_pairs t) = pt_snapshot t"
  by (simp_all add: sync_pairs_def)

lemma scalar_columns_fields [simp]:
  "pt_ecs (scalar_columns t) = pt_ecs t" "pt_grade (scalar_columns t) = pt_grade t"
  "pt_readings (scalar_columns t) = pt_readings t" "pt_type (scalar_columns t) = pt_type t"
  "pt_project (scalar_columns t) = pt_project t" "pt_temperature (scalar_columns t) = pt_temperature t"
  "pt_rebound (scalar_columns t) = pt_rebound t" "pt_snapshot (scalar_columns t) = pt_snapshot t"
  "pt_velocity (scalar_columns t) = pt_velocity t" "pt_velocity_ms (scalar_columns t) = pt_velocity_ms t"
  by (simp_all add: scalar_columns_def split: list.splits test_type.splits)

lemma sync_pairs_velocity:
  "(pt_velocity_ms t = None) = (pt_velocity t = None) \<Longrightarrow> pt_velocity (sync_pairs t) = pt_velocity t"
  by (auto simp: sync_pairs_def sync_velocities_def)

text \<open>With readings the rows do not look at the scalar columns.\<close>

lemma reading_rows_cong:
  "pt_readings t \<noteq> [] \<Longrightarrow> pt_readings t' = pt_readings t \<Longrightarrow> pt_type t' = pt_type t \<Longrightarrow>
   reading_rows E t' = reading_rows E t"
  by (simp add: reading_rows_def)

lemma compute_reading_velocity [simp]: "rd_velocity (compute_reading E t r) = reading_velocity r"
  by (simp add: compute_reading_def Let_def split: prod.splits)

lemma compute_reading_label [simp]: "rd_label (compute_reading E t r) = rd_label r"
  by (simp add: compute_reading_def Let_def split: prod.splits)

lemma map_filter_map: "List.map_filter f (map g xs) = List.map_filter (f \<circ> g) xs"
  by (induction xs) (auto simp: map_filter_simps split: option.splits)

lemma mset_map_filter: "mset (List.map_filter f xs) = mset (List.map_filter f ys)" if "mset xs = mset ys"
proof -
  have "mset (List.map_filter f zs) = image_mset (the \<circ> f) (filter_mset (\<lambda>x. f x \<noteq> None) (mset zs))" for zs
    by (simp add: List.map_filter_def)
  with that show ?thesis by metis
qed

lemma mean_mset: "mset xs = mset ys \<Longrightarrow> mean xs = mean ys"
  by (metis mean_def mset_eq_length mset_zero_iff sum_mset_sum_list)

lemma velocities_of_readings:
  assumes "pt_readings t = map (compute_reading E u) rs" "rs \<noteq> []"
  shows "mset (velocities (reading_rows E t)) = mset (List.map_filter reading_velocity rs)"
proof -
  have rows: "velocities (reading_rows E t) = List.map_filter rd_velocity (sort_key rd_label (pt_readings t))"
    using assms by (simp add: reading_rows_def velocities_def map_filter_map comp_def)
  have "mset (List.map_filter rd_velocity (sort_key rd_label (pt_readings t))) =
      mset (List.map_filter rd_velocity (pt_readings t))"
    by (rule mset_map_filter) simp
  with rows show ?thesis by (simp add: assms(1) map_filter_map comp_def)
qed

lemma element_verdict_fields [simp]:
  "pt_velocity (element_verdict E t) = element_mean_velocity E t"
  "pt_grade (element_verdict E t) = grade_quality (element_mean_velocity E t)"
  "pt_ecs (element_verdict E t) =
     fst (strength_of E t (element_mean_velocity E t) (pt_rebound t) (Some (int (element_point_count E t))))"
  "(pt_velocity_ms (element_verdict E t) = None) = (element_mean_velocity E t = None)"
  "pt_readings (element_verdict E t) = pt_readings t" "pt_type (element_verdict E t) = pt_type t"
  "pt_project (element_verdict E t) = pt_project t" "pt_temperature (element_verdict E t) = pt_temperature t"
  "pt_rebound (element_verdict E t) = pt_rebound t"
  by (simp_all add: element_verdict_def Let_def split: prod.splits)

lemma strength_of_cong:
  "pt_project t' = pt_project t \<Longrightarrow> pt_temperature t' = pt_temperature t \<Longrightarrow> strength_of E t' = strength_of E t"
  by (intro ext) (simp add: strength_of_def)

text \<open>A strength the verdict found none for is looked up again on saving, with the same answer.\<close>

lemma refresh_keeps_verdict:
  assumes "pt_readings t \<noteq> []"
    and "pt_ecs t = fst (strength_of E t (element_mean_velocity E t) (pt_rebound t) (Some (int (element_point_count E t))))"
  shows "pt_ecs (refresh_confidence_metrics erf E t) = pt_ecs t"
proof -
  let ?u = "t\<lparr>pt_ci := None, pt_pof := None, pt_quality := []\<rparr>"
  have rows: "reading_rows E ?u = reading_rows E t" by (rule reading_rows_cong [OF assms(1)]) simp_all
  have str: "strength_of E ?u = strength_of E t" by (rule strength_of_cong) simp_all
  show ?thesis
  proof (cases "pt_ecs t = None \<and> mean (velocities (reading_rows E t)) \<noteq> None")
    case True
    then have "velocities (reading_rows E t) \<noteq> []" by (auto simp: mean_def)
    then have "int (element_point_count E t) = int (length (velocities (reading_rows E t)))"
      by (cases "velocities (reading_rows E t)") (auto simp: element_point_count_def)
    with assms(2) True show ?thesis
      by (auto simp: refresh_confidence_metrics_def Let_def rows str element_mean_velocity_def split: prod.splits)
  next
    case False
    then show ?thesis
      by (auto simp: refresh_confidence_metrics_def Let_def rows str split: prod.splits)
  qed
qed

text \<open>The depth of a crack by the time-difference method, from the measurements of one point.\<close>

definition reading_depth :: "reading \<Rightarrow> real option" where
  "reading_depth r = compute_crack_depth_mm (rd_path r) (rd_transit r) (rd_uncracked r)"

lemma compute_reading_depth [simp]: "rd_crack_depth (compute_reading E t r) = reading_depth r"
  by (simp add: compute_reading_def reading_depth_def Let_def split: prod.splits)

lemma depths_of_readings:
  assumes "pt_readings t = map (compute_reading E u) rs" "rs \<noteq> []" "pt_type t = Crack_Depth"
  shows "element_mean_crack_depth E t = mean (List.map_filter reading_depth rs)"
proof -
  have rows: "List.map_filter pr_crack_depth (reading_rows E t)
      = List.map_filter rd_crack_depth (sort_key rd_label (pt_readings t))"
    using assms by (simp add: reading_rows_def map_filter_map comp_def)
  have "mset (List.map_filter rd_crack_depth (sort_key rd_label (pt_readings t))) =
      mset (List.map_filter rd_crack_depth (pt_readings t))"
    by (rule mset_map_filter) simp
  then have "mean (List.map_filter pr_crack_depth (reading_rows E t)) = mean (List.map_filter reading_depth rs)"
    unfolding rows by (intro mean_mset) (simp add: assms(1) map_filter_map comp_def)
  then show ?thesis by (simp add: element_mean_crack_depth_def assms(3))
qed

lemma verdict_depths:
  assumes "pt_type t = Crack_Depth"
  shows "pt_crack_depth (element_verdict E t) = element_mean_crack_depth E t"
    "pt_est_crack_depth (element_verdict E t) = element_mean_crack_depth E t"
proof -
  have same: "element_mean_crack_depth E u = element_mean_crack_depth E v"
    if "reading_rows E u = reading_rows E v" "pt_type u = pt_type v" for u v
    using that by (simp add: element_mean_crack_depth_def)
  have rows: "reading_rows E (t\<lparr>pt_velocity := a, pt_velocity_ms := b, pt_ecs := c, pt_snapshot := d, pt_grade := e\<rparr>)
      = reading_rows E t" for a b c d e
    using assms by (simp add: reading_rows_def)
  show "pt_crack_depth (element_verdict E t) = element_mean_crack_depth E t"
    "pt_est_crack_depth (element_verdict E t) = element_mean_crack_depth E t"
    using assms by (auto simp: element_verdict_def Let_def rows intro!: same split: prod.splits)
qed

lemma scalar_columns_depths [simp]:
  "pt_crack_depth (scalar_columns t) = pt_crack_depth t"
  "pt_est_crack_depth (scalar_columns t) = pt_est_crack_depth t"
  by (simp_all add: scalar_columns_def split: list.splits test_type.splits)

lemma sync_pairs_depths [simp]:
  "pt_crack_depth (sync_pairs t) = pt_crack_depth t"
  "pt_est_crack_depth (sync_pairs t) = pt_est_crack_depth t"
  by (simp_all add: sync_pairs_def sync_names_def sync_velocities_def sync_times_def)

lemma refresh_depths [simp]:
  "pt_crack_depth (refresh_confidence_metrics erf E t) = pt_crack_depth t"
  "pt_est_crack_depth (refresh_confidence_metrics erf E t) = pt_est_crack_depth t"
  by (simp_all add: refresh_confidence_metrics_def Let_def split: prod.splits)

text \<open>
  C21. The verdict of an element is computed from its points and from nothing else: each velocity
  is the quotient of its own measurements and each crack depth the time-difference depth of its
  own, the element's velocity is the mean of the velocities, its grade the grade of the mean, its
  strength that of the project's active curve at the mean, with as many points as yielded a
  velocity; the depth of a crack-depth test, in both of its columns, is the mean of the depths.
  The submitted points replace the stored ones.
\<close>
theorem element_verdict_from_points:
  assumes "rs \<noteq> []"
  shows "map rd_velocity (pt_readings (sync_readings erf E t rs)) = map reading_velocity rs \<and>
    pt_velocity (sync_readings erf E t rs) = mean (List.map_filter reading_velocity rs) \<and>
    pt_grade (sync_readings erf E t rs) = grade_quality (mean (List.map_filter reading_velocity rs)) \<and>
    pt_ecs (sync_readings erf E t rs) =
      fst (apply_active_curve (fst E) (snd E) (pt_project t) (mean (List.map_filter reading_velocity rs))
             (pt_rebound t) (pt_temperature t) (Some (int (max 1 (length (List.map_filter reading_velocity rs)))))) \<and>
    map rd_crack_depth (pt_readings (sync_readings erf E t rs)) = map reading_depth rs \<and>
    (pt_type t = Crack_Depth \<longrightarrow>
       pt_crack_depth (sync_readings erf E t rs) = mean (List.map_filter reading_depth rs) \<and>
       pt_est_crack_depth (sync_readings erf E t rs) = mean (List.map_filter reading_depth rs))"
proof (intro conjI impI)
  let ?vs = "List.map_filter reading_velocity rs"
  define u where "u = t\<lparr>pt_readings := map (compute_reading E t) rs\<rparr>"
  define w where "w = sync_pairs (scalar_columns (element_verdict E u))"
  have out: "sync_readings erf E t rs = sync_depths (refresh_confidence_metrics erf E w)"
    by (simp add: sync_readings_def u_def w_def save_test_def Let_def)
  have vel: "mset (velocities (reading_rows E u)) = mset ?vs"
    by (rule velocities_of_readings [where u = t]) (simp_all add: u_def assms(1))
  then have m: "element_mean_velocity E u = mean ?vs" and n: "element_point_count E u = max 1 (length ?vs)"
    by (simp_all add: element_mean_velocity_def element_point_count_def mean_mset [OF vel] mset_eq_length [OF vel])
  have wv: "pt_velocity w = mean ?vs"
    unfolding w_def by (subst sync_pairs_velocity) (simp_all add: m)
  have wr: "reading_rows E w = reading_rows E u"
    by (rule reading_rows_cong) (simp_all add: w_def u_def assms(1))
  have "pt_ecs (refresh_confidence_metrics erf E w) = pt_ecs w"
  proof (rule refresh_keeps_verdict)
    show "pt_readings w \<noteq> []" by (simp add: w_def u_def assms(1))
    have "strength_of E w = strength_of E u" by (rule strength_of_cong) (simp_all add: w_def)
    then show "pt_ecs w =
        fst (strength_of E w (element_mean_velocity E w) (pt_rebound w) (Some (int (element_point_count E w))))"
      by (simp add: element_mean_velocity_def element_point_count_def wr) (simp add: w_def element_mean_velocity_def
          element_point_count_def)
  qed
  then show "pt_ecs (sync_readings erf E t rs) =
      fst (apply_active_curve (fst E) (snd E) (pt_project t) (mean ?vs) (pt_rebound t) (pt_temperature t)
             (Some (int (max 1 (length ?vs)))))"
    by (simp add: out) (simp add: w_def m n strength_of_def, simp add: u_def)
  show "map rd_velocity (pt_readings (sync_readings erf E t rs)) = map reading_velocity rs"
    by (simp add: out w_def u_def comp_def)
  show "pt_velocity (sync_readings erf E t rs) = mean ?vs" by (simp add: out wv)
  show "pt_grade (sync_readings erf E t rs) = grade_quality (mean ?vs)" by (simp add: out w_def m)
  show "map rd_crack_depth (pt_readings (sync_readings erf E t rs)) = map reading_depth rs"
    by (simp add: out w_def u_def comp_def)
  assume crack: "pt_type t = Crack_Depth"
  have d: "element_mean_crack_depth E u = mean (List.map_filter reading_depth rs)"
    by (rule depths_of_readings [where u = t]) (simp_all add: u_def assms(1) crack)
  have ut: "pt_type u = Crack_Depth" by (simp add: u_def crack)
  have "pt_crack_depth w = mean (List.map_filter reading_depth rs)"
    "pt_est_crack_depth w = mean (List.map_filter reading_depth rs)"
    by (simp_all add: w_def verdict_depths [OF ut] d)
  then show "pt_crack_depth (sync_readings erf E t rs) = mean (List.map_filter reading_depth rs)"
    "pt_est_crack_depth (sync_readings erf E t rs) = mean (List.map_filter reading_depth rs)"
    by (simp_all add: out sync_depths_def)
qed

definition demo_reading :: "string \<Rightarrow> real \<Rightarrow> reading" where
  "demo_reading l time =
     \<lparr>rd_label = l, rd_path = Some 300, rd_transit = Some time, rd_uncracked = None, rd_condition = [],
      rd_rebound = None, rd_velocity = None, rd_ecs = None, rd_snapshot = None, rd_crack_depth = None\<rparr>"

definition demo_test :: pundit_test where
  "demo_test =
     \<lparr>pt_project = Some 1, pt_type = Pulse_Velocity, pt_path = Some 400, pt_pulse_time = Some 100, pt_transit = None,
      pt_crack_path = None, pt_crack_time = None, pt_uncracked_time = None, pt_temperature = None,
      pt_condition = [], pt_rebound = None, pt_element = ''COL-C24'', pt_element_name = [],
      pt_velocity = None, pt_velocity_ms = None, pt_grade = Pending, pt_ecs = None, pt_snapshot = None,
      pt_crack_depth = None, pt_est_crack_depth = None, pt_ci = None, pt_pof = None, pt_quality = [],
      pt_readings = []\<rparr>"

definition demo_crack_test :: pundit_test where
  "demo_crack_test = demo_test\<lparr>pt_type := Crack_Depth\<rparr>"

definition demo_crack :: reading where
  "demo_crack = (demo_reading ''A'' 50)\<lparr>rd_path := Some 200, rd_uncracked := Some 40\<rparr>"

lemma element_verdict_from_points_witness:
  "pt_velocity (sync_readings (\<lambda>x. x) ([], Map.empty) demo_test [demo_reading ''B'' 75, demo_reading ''A'' 100]) = Some (7/2)
   \<and> pt_crack_depth (sync_readings (\<lambda>x. x) ([], Map.empty) demo_crack_test [demo_crack]) = Some (100 * sqrt (9/16))"
proof
  show "pt_velocity (sync_readings (\<lambda>x. x) ([], Map.empty) demo_test [demo_reading ''B'' 75, demo_reading ''A'' 100]) = Some (7/2)"
    using element_verdict_from_points [of "[demo_reading ''B'' 75, demo_reading ''A'' 100]" "\<lambda>x. x" "([], Map.empty)" demo_test]
    by (simp add: demo_reading_def reading_velocity_def positive_def map_filter_simps mean_def)
  have "reading_depth demo_crack = Some (100 * sqrt (9/16))"
    by (simp add: reading_depth_def demo_crack_def demo_reading_def compute_crack_depth_mm_def Let_def power2_eq_square)
  then show "pt_crack_depth (sync_readings (\<lambda>x. x) ([], Map.empty) demo_crack_test [demo_crack]) = Some (100 * sqrt (9/16))"
    using element_verdict_from_points [of "[demo_crack]" "\<lambda>x. x" "([], Map.empty)" demo_crack_test]
    by (simp add: demo_crack_test_def map_filter_simps mean_def)
qed

text \<open>
  A strength once stored for a test without points is never recomputed: editing the path or the
  transit time and saving leaves the old figure beside the new measurements.
\<close>

lemma stored_strength_is_kept:
  assumes "pt_ecs t = Some s"
  shows "pt_ecs (save_test erf E t) = Some s"
  using assms by (auto simp: save_test_def refresh_confidence_metrics_def Let_def split: prod.splits)

lemma stale_strength_after_edit:
  assumes "save_test erf E demo_test = saved" "pt_ecs saved = Some s"
    and "edited = saved\<lparr>pt_pulse_time := Some time, pt_transit := Some time\<rparr>"
  shows "pt_ecs (save_test erf E edited) = Some s"
  by (rule stored_strength_is_kept) (simp add: assms)

section \<open>Grades, depths and probabilities\<close>

lemma grade_quality_simps:
  "grade_quality (Some v) =
     (if v < 1 \<or> 6 < v then Unverified else if 4.5 \<le> v then Excellent else if 3.75 \<le> v then Good
      else if 3 \<le> v then Questionable else if 2 \<le> v then Poor else Very_Poor)"
  by (simp add: grade_quality_def grade_thresholds_def)

text \<open>
  A risk is asserted exactly for a velocity that concrete can have; among those a faster
  pulse never scores a higher risk.
\<close>
theorem risk_of_velocity:
  "(grade_risk (grade_quality velocity) \<noteq> None) = (\<exists>v. velocity = Some v \<and> 1 \<le> v \<and> v \<le> 6)"
  "1 \<le> v \<Longrightarrow> v \<le> w \<Longrightarrow> w \<le> 6 \<Longrightarrow>
     snd (the (grade_risk (grade_quality (Some w)))) \<le> snd (the (grade_risk (grade_quality (Some v))))"
proof -
  show "(grade_risk (grade_quality velocity) \<noteq> None) = (\<exists>v. velocity = Some v \<and> 1 \<le> v \<and> v \<le> 6)"
  proof (cases velocity)
    case None
    then show ?thesis by (simp add: grade_quality_def grade_risk_def)
  next
    case (Some x)
    show ?thesis unfolding Some grade_quality_simps by (auto simp: grade_risk_def simp del: not_None_eq)
  qed
  show "snd (the (grade_risk (grade_quality (Some w)))) \<le> snd (the (grade_risk (grade_quality (Some v))))"
    if "1 \<le> v" "v \<le> w" "w \<le> 6"
    using that unfolding grade_quality_simps by (simp add: grade_risk_def)
qed

lemma risk_of_velocity_witness:
  "snd (the (grade_risk (grade_quality (Some 4)))) \<le> snd (the (grade_risk (grade_quality (Some 3)))) \<and>
   grade_risk (grade_quality (Some 7)) = None"
  using risk_of_velocity(2) [of 3 4] risk_of_velocity(1) [of "Some 7"]
  by (auto simp del: not_None_eq)

text \<open>
  The time-difference method inverts the geometry it assumes: a depth comes out exactly when
  the cracked path is the slower one, and the cracked time of a crack of that depth is the one
  that was measured.
\<close>
theorem crack_depth_inverts_geometry:
  assumes "0 < l" "0 < t0" "0 < tc"
  shows "(compute_crack_depth_mm (Some l) (Some tc) (Some t0) \<noteq> None) = (t0 < tc)"
    and "compute_crack_depth_mm (Some l) (Some tc) (Some t0) = Some d \<Longrightarrow>
      0 < d \<and> tc = t0 * sqrt (1 + (2 * d / l)\<^sup>2)"
proof -
  show "(compute_crack_depth_mm (Some l) (Some tc) (Some t0) \<noteq> None) = (t0 < tc)"
    using assms by (auto simp: compute_crack_depth_mm_def Let_def divide_le_eq_1 simp del: not_None_eq)
  assume "compute_crack_depth_mm (Some l) (Some tc) (Some t0) = Some d"
  then have r: "1 < tc / t0" and d: "d = l / 2 * sqrt ((tc / t0)\<^sup>2 - 1)"
    using assms by (auto simp: compute_crack_depth_mm_def Let_def split: if_splits)
  have sq: "0 < (tc / t0)\<^sup>2 - 1" using one_less_power [OF r, of 2] by simp
  have "2 * d / l = sqrt ((tc / t0)\<^sup>2 - 1)" using assms(1) by (simp add: d)
  then have "1 + (2 * d / l)\<^sup>2 = (tc / t0)\<^sup>2" using sq by simp
  then have "sqrt (1 + (2 * d / l)\<^sup>2) = tc / t0" using assms by simp
  then show "0 < d \<and> tc = t0 * sqrt (1 + (2 * d / l)\<^sup>2)"
    using assms sq by (simp add: d)
qed

lemma crack_depth_inverts_geometry_witness:
  "compute_crack_depth_mm (Some 200) (Some 50) (Some 40) = Some (100 * sqrt (9/16)) \<and> 0 < 100 * sqrt (9/16::real)"
proof -
  have "compute_crack_depth_mm (Some 200) (Some 50) (Some 40) = Some (100 * sqrt (9/16))"
    by (simp add: compute_crack_depth_mm_def power2_eq_square)
  with crack_depth_inverts_geometry(2) [OF _ _ _ this] show ?thesis by simp
qed

text \<open>
  With an error function that is increasing and bounded by one, the probability is one, and a
  stronger element is not more likely to fall below the design strength.
\<close>

lemma round_half_even_mono:
  assumes "x \<le> y"
  shows "round_half_even x \<le> round_half_even y"
proof (cases "\<lfloor>x\<rfloor> = \<lfloor>y\<rfloor>")
  case True
  with assms show ?thesis by (auto simp: round_half_even_def Let_def)
next
  case False
  then have "\<lfloor>x\<rfloor> + 1 \<le> \<lfloor>y\<rfloor>" using assms floor_mono [OF assms] by linarith
  moreover have "round_half_even x \<le> \<lfloor>x\<rfloor> + 1" "\<lfloor>y\<rfloor> \<le> round_half_even y"
    by (auto simp: round_half_even_def Let_def)
  ultimately show ?thesis by linarith
qed

lemma round_to_mono: "x \<le> y \<Longrightarrow> round_to k x \<le> round_to k y"
  by (auto simp: round_to_def intro!: divide_right_mono round_half_even_mono)

lemma round_to_one [simp]: "round_to k 1 = 1"
  using round_half_even_of_int [of "10 ^ k"] by (simp add: round_to_def)

lemma probability_bounds:
  assumes "\<And>x. \<bar>erf x\<bar> \<le> 1" "probability_below_design erf f se = Some p"
  shows "0 \<le> p \<and> p \<le> 1"
proof -
  from assms(2) obtain z where p: "p = round_to 3 (0.5 * (1 + erf z))"
    by (auto simp: probability_below_design_def split: option.splits if_splits)
  have "0 \<le> 0.5 * (1 + erf z)" "0.5 * (1 + erf z) \<le> 1" using assms(1) [of z] by auto
  from round_to_mono [OF this(1), of 3] round_to_mono [OF this(2), of 3] show ?thesis by (simp add: p)
qed

lemma probability_antitone:
  assumes "mono erf" "f \<le> g"
    and "probability_below_design erf (Some f) (Some se) = Some p"
    and "probability_below_design erf (Some g) (Some se) = Some q"
  shows "q \<le> p"
proof -
  from assms(3,4) have "0 < se" and p: "p = round_to 3 (0.5 * (1 + erf ((25 - f) / se / sqrt 2)))"
      and q: "q = round_to 3 (0.5 * (1 + erf ((25 - g) / se / sqrt 2)))"
    by (auto simp: probability_below_design_def split: if_splits)
  then have "(25 - g) / se / sqrt 2 \<le> (25 - f) / se / sqrt 2"
    using assms(2) by (intro divide_right_mono) auto
  with assms(1) have "erf ((25 - g) / se / sqrt 2) \<le> erf ((25 - f) / se / sqrt 2)" by (rule monoD)
  then show ?thesis unfolding p q by (intro round_to_mono) simp
qed

section \<open>Comparing elements\<close>

text \<open>\<^verbatim>\<open>cross_element_outliers\<close>: each graded element against the median of its peers, the
  elements of its floor and member type when there are two or more, else all others.\<close>

record element_summary =
  es_velocity :: "real option"
  es_floor :: string
  es_element :: string

definition member_type :: "string \<Rightarrow> string" where
  "member_type e = py_strip (takeWhile (\<lambda>c. c \<noteq> CHR '':'') e)"

definition median :: "real list \<Rightarrow> real" where
  "median xs = (let n = length xs; mid = n div 2
                in if odd n then xs ! mid else (xs ! (mid - 1) + xs ! mid) / 2)"

definition others :: "nat \<Rightarrow> 'a list \<Rightarrow> 'a list" where
  "others i xs = take i xs @ drop (Suc i) xs"

definition peers_of :: "element_summary list \<Rightarrow> nat \<Rightarrow> real list" where
  "peers_of graded i =
     (let s = graded ! i;
          near = filter (\<lambda>p. es_floor p = es_floor s \<and> member_type (es_element p) = member_type (es_element s))
                   (others i graded)
      in map (\<lambda>p. the (es_velocity p)) (if 2 \<le> length near then near else others i graded))"

definition deviation_pct :: "element_summary list \<Rightarrow> nat \<Rightarrow> real option" where
  "deviation_pct graded i =
     (let peers = sort (peers_of graded i); v = the (es_velocity (graded ! i))
      in if peers = [] then None
         else if median peers \<le> 0 then None
         else Some ((v - median peers) / median peers * 100))"

definition cross_element_outliers :: "real \<Rightarrow> element_summary list \<Rightarrow> (nat \<times> real \<times> real) list" where
  "cross_element_outliers threshold summaries =
     (let graded = filter (\<lambda>s. es_velocity s \<noteq> None) summaries
      in List.map_filter (\<lambda>i. case deviation_pct graded i of
             Some d \<Rightarrow> if threshold < \<bar>d\<bar>
                       then Some (i, round_to 1 (median (sort (peers_of graded i))), round_to 1 d) else None
           | None \<Rightarrow> None) [0..<length graded])"

lemma median_between:
  assumes "xs \<noteq> []" "\<forall>x \<in> set xs. lo \<le> x \<and> x \<le> hi"
  shows "lo \<le> median xs" "median xs \<le> hi"
proof -
  have len: "0 < length xs" using assms(1) by simp
  have mid: "length xs div 2 < length xs" using len by simp
  then have m: "lo \<le> xs ! (length xs div 2) \<and> xs ! (length xs div 2) \<le> hi" using assms(2) by simp
  have "length xs div 2 - 1 < length xs" using mid by simp
  then have m': "lo \<le> xs ! (length xs div 2 - 1) \<and> xs ! (length xs div 2 - 1) \<le> hi" using assms(2) by simp
  show "lo \<le> median xs" "median xs \<le> hi"
    using m m' by (simp_all add: median_def Let_def)
qed

lemma peers_velocities:
  assumes "x \<in> set (peers_of graded i)"
  shows "\<exists>s \<in> set graded. x = the (es_velocity s)"
  using assms by (auto simp: peers_of_def others_def Let_def dest: in_set_takeD in_set_dropD split: if_splits)

text \<open>Elements whose velocities lie within the threshold of each other raise no flag.\<close>

lemma no_outlier_in_a_close_group:
  assumes "0 < lo" "hi \<le> lo * (1 + threshold / 100)" "0 \<le> threshold"
    and "\<forall>s \<in> set summaries. \<forall>v. es_velocity s = Some v \<longrightarrow> lo \<le> v \<and> v \<le> hi"
  shows "cross_element_outliers threshold summaries = []"
proof -
  define graded where "graded = filter (\<lambda>s. es_velocity s \<noteq> None) summaries"
  have vel: "lo \<le> the (es_velocity s) \<and> the (es_velocity s) \<le> hi" if "s \<in> set graded" for s
    using that assms(4) by (auto simp: graded_def)
  have small: "\<bar>d\<bar> \<le> threshold" if i: "i < length graded" and d: "deviation_pct graded i = Some d" for i d
  proof -
    let ?p = "sort (peers_of graded i)" and ?v = "the (es_velocity (graded ! i))"
    from d have ne: "?p \<noteq> []" and d: "d = (?v - median ?p) / median ?p * 100"
      by (auto simp: deviation_pct_def Let_def split: if_splits)
    have "\<forall>x \<in> set ?p. lo \<le> x \<and> x \<le> hi" using peers_velocities vel by fastforce
    from median_between [OF ne this] have m: "lo \<le> median ?p" "median ?p \<le> hi" .
    have v: "lo \<le> ?v" "?v \<le> hi" using vel i by auto
    have pos: "0 < median ?p" using m assms(1) by simp
    have "lo * (threshold / 100) \<le> median ?p * (threshold / 100)"
      using m(1) assms(3) by (intro mult_right_mono) auto
    moreover have "hi \<le> lo + lo * (threshold / 100)" using assms(2) by (simp add: algebra_simps)
    ultimately have "?v - median ?p \<le> median ?p * (threshold / 100)" "median ?p - ?v \<le> median ?p * (threshold / 100)"
      using m v by linarith+
    then have "\<bar>?v - median ?p\<bar> \<le> median ?p * (threshold / 100)" by (intro abs_leI) simp_all
    then have "\<bar>?v - median ?p\<bar> / median ?p \<le> threshold / 100"
      using pos by (simp add: pos_divide_le_eq mult.commute)
    moreover have "\<bar>d\<bar> = \<bar>?v - median ?p\<bar> / median ?p * 100"
      unfolding d abs_mult abs_divide using pos by simp
    ultimately show ?thesis by simp
  qed
  have "List.map_filter (\<lambda>i. case deviation_pct graded i of
             Some d \<Rightarrow> if threshold < \<bar>d\<bar>
                       then Some (i, round_to 1 (median (sort (peers_of graded i))), round_to 1 d) else None
           | None \<Rightarrow> None) [0..<length graded] = []"
    using small by (fastforce simp: List.map_filter_def filter_empty_conv split: option.splits)
  then show ?thesis unfolding cross_element_outliers_def Let_def graded_def .
qed

end
