(* ===== verification/Json_Spaced.thy ===== *)
theory Json_Spaced
  imports Py_Json
begin

text \<open>
  The rendering the evidence registry hashes: \<^verbatim>\<open>json.dumps(obj, sort_keys=True)\<close>
  with the default separators, a comma and a colon each followed by a space. It differs from the
  canonical rendering of \<^verbatim>\<open>common/hashing.py\<close>, but erasing the spaces outside string
  literals gives that one, so it attests content just as well.
\<close>

function spaced_json :: "json \<Rightarrow> string" where
  "spaced_json JNull = ''null''"
| "spaced_json (JBool b) = (if b then ''true'' else ''false'')"
| "spaced_json (JInt i) = show_int i"
| "spaced_json (JFloat r) = r"
| "spaced_json (JStr s) = json_string s"
| "spaced_json (JArr xs) = ''['' @ join_with '', '' (map spaced_json xs) @ '']''"
| "spaced_json (JObj kvs) =
     ''{'' @ join_with '', '' (map (\<lambda>(k, v). json_string k @ '': '' @ spaced_json v)
                              (sort_key fst kvs)) @ ''}''"
  by pat_completeness auto
termination
proof (relation "measure size", goal_cases)
  case 1
  then show ?case by simp
next
  case (2 xs x)
  then show ?case by (induction xs) auto
next
  case (3 kvs p k v)
  then show ?case
    using sort_key_size_mem [of k v kvs] by simp
qed

text \<open>\<open>erase inside s\<close> drops the spaces outside literals; a backslash protects the next
  character of a literal.\<close>

fun erase :: "bool \<Rightarrow> string \<Rightarrow> string" where
  "erase False [] = []"
| "erase False (c # s) = (if c = CHR '' '' then erase False s else c # erase (c = CHR 0x22) s)"
| "erase True [] = []"
| "erase True [c] = [c]"
| "erase True (c # d # s) =
     (if c = CHR 0x5C then c # d # erase True s else c # erase (c \<noteq> CHR 0x22) (d # s))"

text \<open>Floats as \<^verbatim>\<open>repr\<close> spells them hold neither a space nor a quote.\<close>

fun plain_floats :: "json \<Rightarrow> bool" where
  "plain_floats (JFloat r) = list_all (\<lambda>c. c \<noteq> CHR '' '' \<and> c \<noteq> CHR 0x22) r"
| "plain_floats (JArr xs) = list_all plain_floats xs"
| "plain_floats (JObj kvs) = list_all (\<lambda>(k, v). plain_floats v) kvs"
| "plain_floats _ = True"

lemma erase_token:
  "list_all (\<lambda>c. c \<noteq> CHR '' '' \<and> c \<noteq> CHR 0x22) w \<Longrightarrow> erase False (w @ s) = w @ erase False s"
  by (induction w) auto

lemma erase_inside:
  "c \<noteq> CHR 0x5C \<Longrightarrow> erase True (c # s) = c # erase (c \<noteq> CHR 0x22) s"
  by (cases s; cases "c = CHR 0x22") auto

lemma erase_escaped: "erase True (CHR 0x5C # e # s) = CHR 0x5C # e # erase True s"
  by simp

lemma hex_digit_inside: "c \<in> set hex_digits \<Longrightarrow> c \<noteq> CHR 0x5C \<and> c \<noteq> CHR 0x22"
  by (auto simp: hex_digits_def)

lemma hex4_erase: "erase True (hex4 n @ s) = hex4 n @ erase True s" if "n < 256"
proof -
  have "hex_digits ! (n div 16 mod 16) \<in> set hex_digits" "hex_digits ! (n mod 16) \<in> set hex_digits"
    by (rule nth_mem, simp add: hex_digits_def)+
  from this [THEN hex_digit_inside] show ?thesis by (simp add: hex4_def erase_inside)
qed

lemma erase_char: "erase True (escape_char c @ s) = escape_char c @ erase True s"
proof (rule escape_char_cases [of c])
  assume "escape_char c = [c]" "c \<noteq> CHR 0x22" "c \<noteq> CHR 0x5C"
  then show ?thesis by (simp add: erase_inside)
next
  fix e
  assume "escape_char c = [CHR 0x5C, e]"
  then show ?thesis by simp
next
  assume e: "escape_char c = CHR 0x5C # CHR ''u'' # hex4 (of_char c)"
  have "(of_char c :: nat) < 256" by simp
  then show ?thesis by (simp add: e hex4_erase)
qed

lemma erase_string: "erase False (json_string k @ s) = json_string k @ erase False s"
proof -
  have "erase True (concat (map escape_char k) @ CHR 0x22 # s) = concat (map escape_char k) @ CHR 0x22 # erase False s"
    by (induction k) (simp_all add: erase_inside erase_char)
  then show ?thesis by (simp add: json_string_def)
qed

lemma erase_joined:
  assumes "\<And>x t. x \<in> set xs \<Longrightarrow> erase False (f x @ t) = g x @ erase False t"
  shows "erase False (join_with '', '' (map f xs) @ s) = join_with '','' (map g xs) @ erase False s"
proof (cases xs)
  case (Cons x ys)
  have "erase False (concat (map (\<lambda>y. '', '' @ y) (map f zs)) @ s) =
      concat (map (\<lambda>y. '','' @ y) (map g zs)) @ erase False s" if "set zs \<subseteq> set xs" for zs
    using that by (induction zs) (auto simp: assms)
  from this [of ys] have "erase False (concat (map (\<lambda>y. '', '' @ y) (map f ys)) @ s) =
      concat (map (\<lambda>y. '','' @ y) (map g ys)) @ erase False s"
    using Cons by auto
  with Cons assms [of x] show ?thesis by (simp add: join_with_Cons)
qed simp

lemma erase_spaced:
  "plain_floats j \<Longrightarrow> erase False (spaced_json j @ s) = canonical_json j @ erase False s"
proof (induction j arbitrary: s rule: spaced_json.induct)
  case (2 b)
  have "list_all (\<lambda>c. c \<noteq> CHR '' '' \<and> c \<noteq> CHR 0x22) ''true''" "list_all (\<lambda>c. c \<noteq> CHR '' '' \<and> c \<noteq> CHR 0x22) ''false''"
    by simp_all
  from this [THEN erase_token] show ?case by (cases b) (simp_all only: spaced_json.simps canonical_json.simps if_True if_False)
next
  case (3 i)
  have "list_all (\<lambda>c. c \<noteq> CHR '' '' \<and> c \<noteq> CHR 0x22) (show_int i)"
    by (auto simp: list_all_iff is_digit_def dest: show_int_chars)
  from erase_token [OF this] show ?case by simp
next
  case (6 xs)
  then have "erase False (join_with '', '' (map spaced_json xs) @ CHR '']'' # s) =
      join_with '','' (map canonical_json xs) @ erase False (CHR '']'' # s)"
    by (intro erase_joined) (auto simp: list_all_iff)
  then show ?case by simp
next
  case (7 kvs)
  have "erase False (join_with '', '' (map (\<lambda>(k, v). json_string k @ '': '' @ spaced_json v) (sort_key fst kvs)) @ CHR ''}'' # s)
      = join_with '','' (map render_item (sort_key fst kvs)) @ erase False (CHR ''}'' # s)"
  proof (rule erase_joined)
    fix p t
    assume p: "p \<in> set (sort_key fst kvs)"
    obtain k v where kv: "p = (k, v)" by (cases p)
    with p 7(2) have "plain_floats v" by (auto simp: list_all_iff)
    with 7(1) [OF p kv [symmetric]] kv show
      "erase False ((case p of (k, v) \<Rightarrow> json_string k @ '': '' @ spaced_json v) @ t) = render_item p @ erase False t"
      by (simp add: render_item_def erase_string)
  qed
  then show ?case by (simp add: canonical_json_JObj)
qed (simp_all add: erase_token erase_string)

lemma spaced_json_norm: "spaced_json (json_norm j) = spaced_json j"
proof (induction j rule: spaced_json.induct)
  case (6 xs)
  then have "map (spaced_json \<circ> json_norm) xs = map spaced_json xs" by simp
  then show ?case by (simp only: json_norm.simps spaced_json.simps map_map)
next
  case (7 kvs)
  have sorted: "sorted (map fst (map (\<lambda>(k, v). (k, json_norm v)) (sort_key fst kvs)))"
    by (simp add: comp_def split_beta)
  have "map (\<lambda>(k, v). json_string k @ '': '' @ spaced_json v) (map (\<lambda>(k, v). (k, json_norm v)) (sort_key fst kvs))
      = map (\<lambda>(k, v). json_string k @ '': '' @ spaced_json v) (sort_key fst kvs)"
    using 7 by fastforce
  moreover have "sort_key fst (map (\<lambda>(k, v). (k, json_norm v)) (sort_key fst kvs))
      = map (\<lambda>(k, v). (k, json_norm v)) (sort_key fst kvs)"
    using sorted by (rule sort_key_id_if_sorted)
  ultimately show ?case by (simp only: json_norm_JObj spaced_json.simps)
qed simp_all

lemma spaced_json_eq_iff:
  assumes "wf_json a" "wf_json b" "plain_floats a" "plain_floats b"
  shows "spaced_json a = spaced_json b \<longleftrightarrow> json_norm a = json_norm b"
proof
  assume eq: "spaced_json a = spaced_json b"
  have "canonical_json a = canonical_json b"
    using erase_spaced [OF assms(3), of "[]"] erase_spaced [OF assms(4), of "[]"] eq by simp
  then show "json_norm a = json_norm b" using canonical_json_eq_iff assms(1,2) by blast
next
  assume "json_norm a = json_norm b"
  then show "spaced_json a = spaced_json b" by (metis spaced_json_norm)
qed

text \<open>The two renderings of one document differ, so their digests do.\<close>

lemma spaced_differs_from_canonical:
  "spaced_json (JObj [(''a'', JInt 1)]) \<noteq> canonical_json (JObj [(''a'', JInt 1)])"
  by (simp add: canonical_json_JObj render_item_def)

end
