(* ===== verification/Evidence_Registry.thy ===== *)
theory Evidence_Registry
  imports Json_Spaced
begin

text \<open>
  The evidence registry: normalisation and idempotent ingestion
  (\<^verbatim>\<open>apps/evidence/ingestion.py\<close>), the hashes of \<^verbatim>\<open>apps/evidence/models.py\<close>,
  and the bytes behind a record (\<^verbatim>\<open>apps/evidence/files.py\<close>). The storage backend is a
  map from keys to bytes; the key it picks, the bytes it holds after a save and which of its calls
  raise are arguments, so a short write and a failing cleanup can be expressed. \<open>H\<close> is SHA-256 in hexadecimal digits, of a text or of bytes.
\<close>

section \<open>Values of a payload\<close>

text \<open>\<open>PyTime\<close> is a date, time or datetime by its ISO form, \<open>PyDecimal\<close> and \<open>PyUuid\<close>
  are given by their text.\<close>

datatype pykey = KeyText string | KeyInt int | KeyNone | KeyBool bool

datatype pyval =
    PyNone | PyBool bool | PyInt int | PyFloat string | PyStr string
  | PyTime string | PyDecimal string | PyUuid string
  | PyList "pyval list" | PyTuple "pyval list" | PyDict "(pykey \<times> pyval) list"

fun key_text :: "pykey \<Rightarrow> string" where
  "key_text (KeyText s) = s"
| "key_text (KeyInt i) = show_int i"
| "key_text KeyNone = ''None''"
| "key_text (KeyBool b) = (if b then ''True'' else ''False'')"

text \<open>Keys that become equal as texts are one key; the later value stays.\<close>

fun json_native :: "pyval \<Rightarrow> json" where
  "json_native PyNone = JNull"
| "json_native (PyBool b) = JBool b"
| "json_native (PyInt i) = JInt i"
| "json_native (PyFloat r) = JFloat r"
| "json_native (PyStr s) = JStr s"
| "json_native (PyTime s) = JStr s"
| "json_native (PyDecimal s) = JStr s"
| "json_native (PyUuid s) = JStr s"
| "json_native (PyList xs) = JArr (map json_native xs)"
| "json_native (PyTuple xs) = JArr (map json_native xs)"
| "json_native (PyDict kvs) = JObj (dict_merge [] (map (\<lambda>(k, v). (key_text k, json_native v)) kvs))"

fun py_truthy :: "pyval \<Rightarrow> bool" where
  "py_truthy PyNone = False"
| "py_truthy (PyBool b) = b"
| "py_truthy (PyInt i) = (i \<noteq> 0)"
| "py_truthy (PyFloat r) = (r \<notin> {''0.0'', ''-0.0''})"
| "py_truthy (PyStr s) = (s \<noteq> [])"
| "py_truthy (PyList xs) = (xs \<noteq> [])"
| "py_truthy (PyTuple xs) = (xs \<noteq> [])"
| "py_truthy (PyDict kvs) = (kvs \<noteq> [])"
| "py_truthy _ = True"

section \<open>Records\<close>

record evidence_record =
  er_id :: nat
  er_reference :: string
  er_project :: nat
  er_source_type :: string
  er_element :: string
  er_guid :: string
  er_coordinates :: "json option"
  er_captured :: "int option"
  er_confidence :: "string option"
  er_source_model :: string
  er_source_id :: string
  er_inspection :: "nat option"
  er_payload :: json
  er_hash :: string
  er_by :: "nat option"
  er_created :: int

record evidence_file =
  ef_record :: nat
  ef_name :: string
  ef_type :: string
  ef_size :: nat
  ef_sha :: string
  ef_key :: string
  ef_ok :: "bool option"
  ef_by :: "nat option"

record registry =
  rg_records :: "evidence_record list"
  rg_files :: "evidence_file list"
  rg_store :: "string \<Rightarrow> string option"

definition compute_hash :: "(string \<Rightarrow> string) \<Rightarrow> evidence_record \<Rightarrow> string" where
  "compute_hash H r = H (spaced_json (er_payload r))"

text \<open>The arguments of \<^verbatim>\<open>_ingest\<close>.\<close>

record ingest_call =
  ic_project :: nat
  ic_source_type :: string
  ic_source_model :: string
  ic_source_id :: string
  ic_element :: string
  ic_guid :: string
  ic_coordinates :: pyval
  ic_captured :: "int option"
  ic_confidence :: "string option"
  ic_payload :: pyval
  ic_by :: "nat option"

definition native_payload :: "ingest_call \<Rightarrow> json" where
  "native_payload c = json_native (if py_truthy (ic_payload c) then ic_payload c else PyDict [])"

definition native_coordinates :: "ingest_call \<Rightarrow> json option" where
  "native_coordinates c = (if ic_coordinates c = PyNone then None else Some (json_native (ic_coordinates c)))"

definition ingest_defaults :: "ingest_call \<Rightarrow> evidence_record \<Rightarrow> evidence_record" where
  "ingest_defaults c r = r\<lparr>er_project := ic_project c, er_source_type := ic_source_type c,
     er_element := ic_element c, er_guid := ic_guid c, er_coordinates := native_coordinates c,
     er_captured := ic_captured c, er_confidence := ic_confidence c, er_payload := native_payload c,
     er_by := ic_by c\<rparr>"

definition blank_record :: "nat \<Rightarrow> string \<Rightarrow> int \<Rightarrow> string \<Rightarrow> string \<Rightarrow> evidence_record" where
  "blank_record pk ref now model sid =
     \<lparr>er_id = pk, er_reference = ref, er_project = 0, er_source_type = [], er_element = [], er_guid = [],
      er_coordinates = None, er_captured = None, er_confidence = None, er_source_model = model,
      er_source_id = sid, er_inspection = None, er_payload = JObj [], er_hash = [], er_by = None, er_created = now\<rparr>"

definition sealed :: "(string \<Rightarrow> string) \<Rightarrow> evidence_record \<Rightarrow> evidence_record" where
  "sealed H r = r\<lparr>er_hash := compute_hash H r\<rparr>"

definition from_source :: "string \<Rightarrow> string \<Rightarrow> evidence_record \<Rightarrow> bool" where
  "from_source model sid r \<longleftrightarrow> er_source_model r = model \<and> er_source_id r = sid"

text \<open>
  \<^verbatim>\<open>update_or_create\<close> on the source, or a new record when there is none. The key and the
  reference of a new record are generated; the insert is refused when either is taken, and
  nothing is stored then. The code writes the row and then its digest; the two writes are one
  step here, so an ingestion that is cut off between them is not modelled.
\<close>

datatype ingest_error = Key_Taken | Reference_Taken

definition insert_record :: "evidence_record \<Rightarrow> registry \<Rightarrow> ingest_error + (evidence_record \<times> registry)" where
  "insert_record new db =
     (if er_id new \<in> er_id ` set (rg_records db) then Inl Key_Taken
      else if er_reference new \<in> er_reference ` set (rg_records db) then Inl Reference_Taken
      else Inr (new, db\<lparr>rg_records := rg_records db @ [new]\<rparr>))"

definition ingest ::
    "(string \<Rightarrow> string) \<Rightarrow> nat \<Rightarrow> string \<Rightarrow> int \<Rightarrow> ingest_call \<Rightarrow> registry
     \<Rightarrow> ingest_error + (evidence_record \<times> registry)" where
  "ingest H pk ref now c db =
     (let model = ic_source_model c; sid = ic_source_id c;
          named = (model \<noteq> [] \<and> sid \<noteq> []);
          new = sealed H (ingest_defaults c (if named then blank_record pk ref now model sid
                                             else blank_record pk ref now [] []))
      in case (if named then first_where (from_source model sid) (rg_records db) else None) of
           Some r \<Rightarrow> (let r' = sealed H (ingest_defaults c r)
                     in Inr (r', db\<lparr>rg_records := update_where (\<lambda>x. er_id x = er_id r) (\<lambda>_. r') (rg_records db)\<rparr>))
         | None \<Rightarrow> insert_record new db)"

section \<open>The bytes behind a record\<close>

definition basename :: "string \<Rightarrow> string" where
  "basename s = rev (takeWhile (\<lambda>c. c \<noteq> CHR ''/'') (rev s))"

definition safe_file_name :: "string option \<Rightarrow> string" where
  "safe_file_name name =
     (let base = py_strip (map (\<lambda>c. if c = CHR 0x5C then CHR ''_'' else c) (basename (or_empty name)))
      in or_default (take 255 base) ''upload'')"

record upload =
  up_name :: "string option"
  up_declared :: "nat option"
  up_type :: string
  up_sha :: string
  up_size :: "nat option"
  up_by :: "nat option"

datatype file_refusal =
    Already_Has_File | Too_Large nat | Stored_No_Bytes | Truncated nat | Hash_Mismatch string
  | Storage_Raised | Row_Not_Saved

text \<open>
  What the storage and the database do during one upload: the key the backend picks, the bytes
  it holds under that key once the save has returned or raised, whether the save, the question
  for the size, the reading back and the removal go through, and whether the row is saved.
\<close>

record storage_run =
  sg_key :: string
  sg_held :: "string option"
  sg_saves :: bool
  sg_sizes :: bool
  sg_reads :: bool
  sg_discards :: bool
  sg_row :: bool

definition size_of_held :: "storage_run \<Rightarrow> nat" where
  "size_of_held g = (if sg_sizes g then (case sg_held g of None \<Rightarrow> 0 | Some bytes \<Rightarrow> length bytes) else 0)"

text \<open>
  A refusal of the service removes the bytes, as far as the backend lets it: \<^verbatim>\<open>_discard\<close>
  catches every exception. An exception of the save, of the reading back or of the row
  (\<open>Storage_Raised\<close>, \<open>Row_Not_Saved\<close>) is not caught, and nothing is removed then.
\<close>

definition held_bytes :: "storage_run \<Rightarrow> registry \<Rightarrow> registry" where
  "held_bytes g db = db\<lparr>rg_store := (rg_store db)(sg_key g := sg_held g)\<rparr>"

definition discard :: "storage_run \<Rightarrow> registry \<Rightarrow> registry" where
  "discard g db =
     (if sg_discards g then db\<lparr>rg_store := (rg_store db)(sg_key g := None)\<rparr> else db)"

definition store_file ::
    "(string \<Rightarrow> string) \<Rightarrow> nat \<Rightarrow> storage_run \<Rightarrow> evidence_record \<Rightarrow> upload \<Rightarrow> registry
     \<Rightarrow> (file_refusal + evidence_file) \<times> registry" where
  "store_file H max_bytes g r u db =
     (if list_ex (\<lambda>f. ef_record f = er_id r) (rg_files db) then (Inl Already_Has_File, db)
      else if (case up_declared u of Some n \<Rightarrow> max_bytes < n | None \<Rightarrow> False)
      then (Inl (Too_Large (the (up_declared u))), db)
      else let saved = held_bytes g db; n = size_of_held g
           in if \<not> sg_saves g then (Inl Storage_Raised, saved)
              else if n = 0 then (Inl Stored_No_Bytes, discard g saved)
              else if up_size u \<noteq> None \<and> up_size u \<noteq> Some n then (Inl (Truncated n), discard g saved)
              else if \<not> sg_reads g then (Inl Storage_Raised, saved)
              else let sha = H (the (sg_held g))
                   in if up_sha u \<noteq> [] \<and> py_lower sha \<noteq> py_lower (up_sha u)
                      then (Inl (Hash_Mismatch sha), discard g saved)
                      else if \<not> sg_row g then (Inl Row_Not_Saved, saved)
                      else let f = \<lparr>ef_record = er_id r, ef_name = safe_file_name (up_name u),
                             ef_type = take 120 (up_type u), ef_size = n, ef_sha = sha,
                             ef_key = sg_key g, ef_ok = None, ef_by = up_by u\<rparr>
                           in (Inr f, saved\<lparr>rg_files := rg_files db @ [f]\<rparr>))"

datatype verify_note = No_Note | No_File_Attached | Above_Ceiling | Not_Readable | Bytes_Changed string

record verification =
  vf_payload_ok :: bool
  vf_file_present :: bool
  vf_bytes_ok :: "bool option"
  vf_note :: verify_note

definition payload_ok :: "(string \<Rightarrow> string) \<Rightarrow> evidence_record \<Rightarrow> bool" where
  "payload_ok H r \<longleftrightarrow> er_hash r \<noteq> [] \<and> er_hash r = compute_hash H r"

definition bytes_verdict ::
    "(string \<Rightarrow> string) \<Rightarrow> nat \<Rightarrow> (string \<Rightarrow> string option) \<Rightarrow> evidence_file \<Rightarrow> bool option \<times> verify_note" where
  "bytes_verdict H ceiling store f =
     (if ceiling < ef_size f then (None, Above_Ceiling)
      else case store (ef_key f) of
             None \<Rightarrow> (None, Not_Readable)
           | Some bytes \<Rightarrow>
               let ok = (H bytes = ef_sha f)
               in (Some ok, if ok then No_Note else Bytes_Changed (H bytes)))"

definition verify_record ::
    "(string \<Rightarrow> string) \<Rightarrow> nat \<Rightarrow> evidence_record \<Rightarrow> registry \<Rightarrow> verification \<times> registry" where
  "verify_record H ceiling r db =
     (case first_where (\<lambda>f. ef_record f = er_id r) (rg_files db) of
        None \<Rightarrow> (\<lparr>vf_payload_ok = payload_ok H r, vf_file_present = False, vf_bytes_ok = None,
                  vf_note = No_File_Attached\<rparr>, db)
      | Some f \<Rightarrow>
          (case bytes_verdict H ceiling (rg_store db) f of (ok, note) \<Rightarrow>
            (\<lparr>vf_payload_ok = payload_ok H r, vf_file_present = True, vf_bytes_ok = ok, vf_note = note\<rparr>,
             db\<lparr>rg_files := update_where (\<lambda>x. ef_record x = er_id r) (\<lambda>x. x\<lparr>ef_ok := ok\<rparr>) (rg_files db)\<rparr>)))"

text \<open>A record whose evidence is the file: the context's own values, the name and the declared
  type; a blank source, so that the uniqueness of sources does not apply.\<close>

fun left_out :: "pyval \<Rightarrow> bool" where
  "left_out v \<longleftrightarrow> v \<in> {PyStr [], PyNone, PyDict [], PyList []}"

definition context_payload :: "(string \<times> pyval) list \<Rightarrow> string option \<Rightarrow> string \<Rightarrow> pyval option \<Rightarrow> (string \<times> pyval) list" where
  "context_payload ctx name ty extraction =
     (let p = filter (\<lambda>(k, v). \<not> left_out v) ctx;
          p = dict_put ''file_name'' (PyStr (safe_file_name name)) p;
          p = (if ty \<noteq> [] then dict_put ''declared_content_type'' (PyStr ty) p else p)
      in case extraction of
           Some e \<Rightarrow> if py_truthy e then dict_put ''extraction'' e p else p | None \<Rightarrow> p)"

definition file_backed_record ::
    "(string \<Rightarrow> string) \<Rightarrow> nat \<Rightarrow> string \<Rightarrow> int \<Rightarrow> ingest_call \<Rightarrow> (string \<times> pyval) list \<Rightarrow> string option \<Rightarrow> string
     \<Rightarrow> pyval option \<Rightarrow> nat option \<Rightarrow> registry \<Rightarrow> ingest_error + (evidence_record \<times> registry)" where
  "file_backed_record H pk ref now c ctx name ty extraction inspection db =
     (let call = c\<lparr>ic_source_model := [], ic_source_id := [],
            ic_payload := PyDict (map (\<lambda>(k, v). (KeyText k, v)) (context_payload ctx name ty extraction))\<rparr>
      in bind_r (ingest H pk ref now call db) (\<lambda>(r, db').
           (case inspection of
              None \<Rightarrow> Inr (r, db')
            | Some i \<Rightarrow> Inr (r\<lparr>er_inspection := Some i\<rparr>,
                db'\<lparr>rg_records := update_where (\<lambda>x. er_id x = er_id r) (\<lambda>x. x\<lparr>er_inspection := Some i\<rparr>) (rg_records db')\<rparr>))))"

section \<open>Runs\<close>

text \<open>
  Every operation is given the record as stored. A refused insert stores nothing; the storage
  picks a key that holds nothing, as \<^verbatim>\<open>get_available_name\<close> does, and everything else an
  upload meets is arbitrary.
\<close>

inductive registry_step :: "(string \<Rightarrow> string) \<Rightarrow> registry \<Rightarrow> registry \<Rightarrow> bool" for H :: "string \<Rightarrow> string" where
  Ingest: "ingest H pk ref now c db = Inr (r, db') \<Longrightarrow> registry_step H db db'"
| Upload_Record: "file_backed_record H pk ref now c ctx name ty extraction inspection db = Inr (r, db') \<Longrightarrow>
    registry_step H db db'"
| Store: "r \<in> set (rg_records db) \<Longrightarrow> rg_store db (sg_key g) = None \<Longrightarrow>
    registry_step H db (snd (store_file H max_bytes g r u db))"
| Verify: "r \<in> set (rg_records db) \<Longrightarrow> registry_step H db (snd (verify_record H ceiling r db))"

inductive registry_run :: "(string \<Rightarrow> string) \<Rightarrow> registry \<Rightarrow> bool" for H :: "string \<Rightarrow> string" where
  empty: "registry_run H \<lparr>rg_records = [], rg_files = [], rg_store = Map.empty\<rparr>"
| step: "registry_run H db \<Longrightarrow> registry_step H db db' \<Longrightarrow> registry_run H db'"

text \<open>\<open>same_source\<close>: two records normalised from the same producer row.\<close>

definition same_source :: "evidence_record \<Rightarrow> evidence_record \<Rightarrow> bool" where
  "same_source a b \<longleftrightarrow> er_source_model a \<noteq> [] \<and> from_source (er_source_model a) (er_source_id a) b"

definition registry_inv :: "(string \<Rightarrow> string) \<Rightarrow> registry \<Rightarrow> bool" where
  "registry_inv H db \<longleftrightarrow>
     distinct (map er_id (rg_records db)) \<and> distinct (map er_reference (rg_records db)) \<and>
     (\<forall>a \<in> set (rg_records db). \<forall>b \<in> set (rg_records db). same_source a b \<longrightarrow> a = b) \<and>
     (\<forall>r \<in> set (rg_records db). er_hash r = compute_hash H r) \<and>
     distinct (map ef_record (rg_files db)) \<and> distinct (map ef_key (rg_files db)) \<and>
     (\<forall>f \<in> set (rg_files db). \<exists>bytes. rg_store db (ef_key f) = Some bytes \<and> bytes \<noteq> [] \<and>
        ef_size f = length bytes \<and> ef_sha f = H bytes)"

section \<open>The invariant of the registry\<close>

lemma sealed_fields [simp]:
  "er_id (sealed H r) = er_id r" "er_source_model (sealed H r) = er_source_model r"
  "er_reference (sealed H r) = er_reference r"
  "er_source_id (sealed H r) = er_source_id r" "er_payload (sealed H r) = er_payload r"
  "er_hash (sealed H r) = compute_hash H r" "compute_hash H (sealed H r) = compute_hash H r"
  by (simp_all add: sealed_def compute_hash_def)

lemma ingest_defaults_fields [simp]:
  "er_id (ingest_defaults c r) = er_id r" "er_source_model (ingest_defaults c r) = er_source_model r"
  "er_source_id (ingest_defaults c r) = er_source_id r" "er_payload (ingest_defaults c r) = native_payload c"
  "er_reference (ingest_defaults c r) = er_reference r" "er_inspection (ingest_defaults c r) = er_inspection r"
  by (simp_all add: ingest_defaults_def)

lemma ingest_cases:
  assumes "ingest H pk ref now c db = Inr (r, db')"
  obtains (update) old where "ic_source_model c \<noteq> []" "old \<in> set (rg_records db)"
      "from_source (ic_source_model c) (ic_source_id c) old" "r = sealed H (ingest_defaults c old)"
      "db' = db\<lparr>rg_records := update_where (\<lambda>x. er_id x = er_id old) (\<lambda>_. r) (rg_records db)\<rparr>"
  | (create) "db' = db\<lparr>rg_records := rg_records db @ [r]\<rparr>"
      "er_id r \<notin> er_id ` set (rg_records db)" "er_reference r \<notin> er_reference ` set (rg_records db)" "er_hash r = compute_hash H r"
      "er_source_model r = [] \<or> er_source_model r = ic_source_model c \<and> er_source_id r = ic_source_id c \<and>
         (\<forall>x \<in> set (rg_records db). \<not> from_source (ic_source_model c) (ic_source_id c) x)"
proof (cases "if ic_source_model c \<noteq> [] \<and> ic_source_id c \<noteq> []
    then first_where (from_source (ic_source_model c) (ic_source_id c)) (rg_records db) else None")
  case None
  with assms show ?thesis
    by (intro create) (auto simp: ingest_def insert_record_def Let_def blank_record_def first_where_None
        split: if_splits)
next
  case (Some old)
  with assms show ?thesis
    by (intro update [of old]) (auto simp: ingest_def Let_def dest: first_where_Some split: if_splits)
qed

lemma registry_inv_records:
  assumes "distinct (map er_id rs)" "distinct (map er_reference rs)"
    and "\<forall>a \<in> set rs. \<forall>b \<in> set rs. same_source a b \<longrightarrow> a = b" "\<forall>r \<in> set rs. er_hash r = compute_hash H r"
    and "registry_inv H db"
  shows "registry_inv H (db\<lparr>rg_records := rs\<rparr>)"
  using assms by (simp add: registry_inv_def)

lemma ingest_inv:
  assumes "registry_inv H db" "ingest H pk ref now c db = Inr (r, db')"
  shows "registry_inv H db'"
proof -
  from assms(1) have ids: "distinct (map er_id (rg_records db))"
      and refs: "distinct (map er_reference (rg_records db))"
      and src: "\<forall>a \<in> set (rg_records db). \<forall>b \<in> set (rg_records db). same_source a b \<longrightarrow> a = b"
      and hash: "\<forall>x \<in> set (rg_records db). er_hash x = compute_hash H x"
    by (simp_all add: registry_inv_def)
  from assms(2) show ?thesis
  proof (cases rule: ingest_cases)
    case (update old)
    let ?rs = "update_where (\<lambda>x. er_id x = er_id old) (\<lambda>_. r) (rg_records db)"
    have same: "er_source_model r = er_source_model old" "er_source_id r = er_source_id old" "er_id r = er_id old"
        "er_reference r = er_reference old"
      by (simp_all add: update(4))
    have mem: "x = r \<or> x \<in> set (rg_records db) \<and> er_id x \<noteq> er_id old" if "x \<in> set ?rs" for x
      using that by (auto elim: in_update_whereE)
    have unchanged: "map k ?rs = map k (rg_records db)" if "k r = k old" for k :: "evidence_record \<Rightarrow> 'a"
    proof -
      have "\<forall>x \<in> set (rg_records db). er_id x = er_id old \<longrightarrow> x = old"
        using ids update(2) by (auto dest: distinct_map_key)
      then show ?thesis using that by (auto simp: update_where_def)
    qed
    have "map er_id ?rs = map er_id (rg_records db)" "map er_reference ?rs = map er_reference (rg_records db)"
      by (simp_all add: unchanged same)
    moreover have "a = b" if "a \<in> set ?rs" "b \<in> set ?rs" "same_source a b" for a b
    proof -
      have old': "same_source x y = same_source x' y'"
        if "x = x' \<or> x = r \<and> x' = old" "y = y' \<or> y = r \<and> y' = old" for x y x' y'
        using that same by (auto simp: same_source_def from_source_def)
      have eq: "x = y" if "x \<in> set (rg_records db)" "y \<in> set (rg_records db)" "same_source x y" for x y
        using src that by blast
      from mem [OF that(1)] mem [OF that(2)] that(3) update(2) show ?thesis
        using eq [of a b] eq [of a old] eq [of old b] old' [of a a b old] old' [of a old b b] by auto
    qed
    moreover have "er_hash x = compute_hash H x" if "x \<in> set ?rs" for x
      using mem [OF that] hash by (auto simp: update(4))
    ultimately show ?thesis
      using assms(1) ids refs by (simp only: update(5)) (intro registry_inv_records, auto)
  next
    case create
    have "distinct (map er_id (rg_records db @ [r]))" "distinct (map er_reference (rg_records db @ [r]))"
      using ids refs create(2,3) by simp_all
    moreover have "a = b" if "a \<in> set (rg_records db @ [r])" "b \<in> set (rg_records db @ [r])" "same_source a b" for a b
    proof -
      have sym: "same_source x y \<Longrightarrow> same_source y x" for x y by (auto simp: same_source_def from_source_def)
      have no: "\<not> same_source r x" if "x \<in> set (rg_records db)" for x
        using create(5) that by (auto simp: same_source_def)
      from that no sym src show ?thesis by auto
    qed
    moreover have "\<forall>x \<in> set (rg_records db @ [r]). er_hash x = compute_hash H x" using hash create(4) by simp
    ultimately show ?thesis
      using assms(1) unfolding create(1) by (intro registry_inv_records) auto
  qed
qed

lemma store_file_refused:
  assumes "store_file H max_bytes g r u db = (Inl e, db')"
  shows "rg_records db' = rg_records db \<and> rg_files db' = rg_files db \<and>
    (db' = db \<or> (rg_store db' = (rg_store db)(sg_key g := None) \<and> sg_discards g) \<or>
     (rg_store db' = (rg_store db)(sg_key g := sg_held g) \<and>
        (e \<in> {Storage_Raised, Row_Not_Saved} \<or> \<not> sg_discards g)))"
  using assms by (auto simp: store_file_def Let_def held_bytes_def discard_def split: if_splits)

lemma store_file_accepted:
  assumes "store_file H max_bytes g r u db = (Inr f, db')"
  obtains bytes where "sg_held g = Some bytes" "bytes \<noteq> []" "ef_size f = length bytes" "ef_sha f = H bytes"
    "ef_record f = er_id r" "ef_key f = sg_key g" "up_size u \<in> {None, Some (length bytes)}"
    "up_sha u = [] \<or> py_lower (H bytes) = py_lower (up_sha u)"
    "\<not> list_ex (\<lambda>g. ef_record g = er_id r) (rg_files db)"
    "case up_declared u of Some n \<Rightarrow> n \<le> max_bytes | None \<Rightarrow> True"
    "db' = db\<lparr>rg_files := rg_files db @ [f], rg_store := (rg_store db)(sg_key g \<mapsto> bytes)\<rparr>"
  using assms
  by (auto simp: store_file_def Let_def held_bytes_def size_of_held_def not_less
      split: if_splits option.splits)

lemma store_inv:
  assumes "registry_inv H db" "rg_store db (sg_key g) = None"
  shows "registry_inv H (snd (store_file H max_bytes g r u db))"
proof -
  obtain res db' where res: "store_file H max_bytes g r u db = (res, db')" by force
  have fresh: "ef_key f \<noteq> sg_key g" if "f \<in> set (rg_files db)" for f
    using assms that by (auto simp: registry_inv_def)
  have other: "registry_inv H d" if "rg_records d = rg_records db" "rg_files d = rg_files db"
    "\<forall>k. k \<noteq> sg_key g \<longrightarrow> rg_store d k = rg_store db k" for d :: registry
    using assms(1) that fresh by (simp add: registry_inv_def)
  show ?thesis
  proof (cases res)
    case (Inl e)
    from store_file_refused [OF res [unfolded Inl]] assms(1) show ?thesis
      by (auto simp: res intro: other)
  next
    case (Inr f)
    from store_file_accepted [OF res [unfolded Inr]] obtain bytes where f: "bytes \<noteq> []"
      "ef_size f = length bytes" "ef_sha f = H bytes" "ef_record f = er_id r" "ef_key f = sg_key g"
      "\<not> list_ex (\<lambda>g. ef_record g = er_id r) (rg_files db)"
      "db' = db\<lparr>rg_files := rg_files db @ [f], rg_store := (rg_store db)(sg_key g \<mapsto> bytes)\<rparr>" by blast
    have "ef_record f \<notin> ef_record ` set (rg_files db)"
      using f(4,6) by (auto simp: list_ex_iff)
    moreover have "ef_key f \<notin> ef_key ` set (rg_files db)"
    proof
      assume "ef_key f \<in> ef_key ` set (rg_files db)"
      then obtain x where "x \<in> set (rg_files db)" "ef_key x = sg_key g" by (metis f(5) imageE)
      with fresh show False by blast
    qed
    ultimately have "ef_record f \<notin> ef_record ` set (rg_files db)" "ef_key f \<notin> ef_key ` set (rg_files db)" .
    with assms(1) f fresh show ?thesis by (auto simp: res registry_inv_def)
  qed
qed

lemma verify_inv:
  assumes "registry_inv H db"
  shows "registry_inv H (snd (verify_record H ceiling r db))"
proof (cases "first_where (\<lambda>f. ef_record f = er_id r) (rg_files db)")
  case None
  with assms show ?thesis by (simp add: verify_record_def)
next
  case (Some f)
  have "registry_inv H (db\<lparr>rg_files := update_where P (\<lambda>x. x\<lparr>ef_ok := ok\<rparr>) (rg_files db)\<rparr>)" for P ok
  proof -
    have "map ef_record (update_where P (\<lambda>x. x\<lparr>ef_ok := ok\<rparr>) (rg_files db)) = map ef_record (rg_files db)"
        "map ef_key (update_where P (\<lambda>x. x\<lparr>ef_ok := ok\<rparr>) (rg_files db)) = map ef_key (rg_files db)"
      by (simp_all add: map_update_where)
    with assms show ?thesis by (auto simp: registry_inv_def elim!: in_update_whereE)
  qed
  with Some show ?thesis by (simp add: verify_record_def split: prod.splits)
qed

lemma inspection_inv:
  assumes "registry_inv H db"
  shows "registry_inv H (db\<lparr>rg_records := update_where P (\<lambda>x. x\<lparr>er_inspection := i\<rparr>) (rg_records db)\<rparr>)"
proof -
  let ?g = "\<lambda>x. x\<lparr>er_inspection := i\<rparr>"
  have ids: "map er_id (update_where P ?g (rg_records db)) = map er_id (rg_records db)"
      "map er_reference (update_where P ?g (rg_records db)) = map er_reference (rg_records db)"
    by (simp_all add: map_update_where)
  have src: "same_source (?g a) b = same_source a b" "same_source a (?g b) = same_source a b" for a b
    by (simp_all add: same_source_def from_source_def)
  have "a = b" if ab: "a \<in> set (update_where P ?g (rg_records db))" "b \<in> set (update_where P ?g (rg_records db))"
      "same_source a b" for a b
  proof -
    from ab(1) obtain a' where a': "a' \<in> set (rg_records db)" "a = (if P a' then ?g a' else a')"
      by (auto simp: update_where_def)
    from ab(2) obtain b' where b': "b' \<in> set (rg_records db)" "b = (if P b' then ?g b' else b')"
      by (auto simp: update_where_def)
    have "same_source a' b'" using ab(3) a'(2) b'(2) by (auto simp: src split: if_splits)
    with assms a'(1) b'(1) have "a' = b'" by (simp add: registry_inv_def)
    with a'(2) b'(2) show "a = b" by simp
  qed
  moreover have "\<forall>r \<in> set (update_where P ?g (rg_records db)). er_hash r = compute_hash H r"
    using assms by (auto simp: registry_inv_def compute_hash_def elim!: in_update_whereE)
  ultimately show ?thesis
    using assms by (intro registry_inv_records) (auto simp: ids registry_inv_def)
qed

lemma file_backed_inv:
  assumes "registry_inv H db"
    "file_backed_record H pk ref now c ctx name ty extraction inspection db = Inr (r, db')"
  shows "registry_inv H db'"
proof -
  define call where "call = c\<lparr>ic_source_model := [], ic_source_id := [],
     ic_payload := PyDict (map (\<lambda>(k, v). (KeyText k, v)) (context_payload ctx name ty extraction))\<rparr>"
  from assms(2) obtain r1 db1 where res: "ingest H pk ref now call db = Inr (r1, db1)"
    by (auto simp: file_backed_record_def call_def bind_r_Inr_iff)
  have "registry_inv H db1" by (rule ingest_inv [OF assms(1) res])
  then show ?thesis
    using inspection_inv [of H db1] res assms(2)
    by (cases inspection) (auto simp: file_backed_record_def call_def [symmetric] bind_r_def)
qed

lemma registry_step_inv: "registry_step H db db' \<Longrightarrow> registry_inv H db \<Longrightarrow> registry_inv H db'"
  by (induction rule: registry_step.induct) (auto intro: ingest_inv store_inv verify_inv file_backed_inv)

lemma filter_one: "distinct xs \<Longrightarrow> x \<in> set xs \<Longrightarrow> filter (\<lambda>y. y = x) xs = [x]"
  by (induction xs) (auto simp: filter_empty_conv)

lemma filter_key_one: "distinct (map k xs) \<Longrightarrow> length (filter (\<lambda>x. k x = c) xs) \<le> 1"
  by (induction xs) (auto simp: filter_empty_conv image_iff)

lemma registry_run_inv: "registry_run H db \<Longrightarrow> registry_inv H db"
proof (induction rule: registry_run.induct)
  case empty
  show ?case by (simp add: registry_inv_def)
next
  case (step db db')
  then show ?case by (blast intro: registry_step_inv)
qed

section \<open>Results\<close>


definition demo_call :: ingest_call where
  "demo_call = \<lparr>ic_project = 1, ic_source_type = ''gpr'', ic_source_model = ''digital_eye.GPRAnomaly'',
     ic_source_id = ''7'', ic_element = ''COL-C24'', ic_guid = [], ic_coordinates = PyNone, ic_captured = None,
     ic_confidence = None, ic_payload = PyDict [(KeyText ''depth_m'', PyDecimal ''0.4'')], ic_by = None\<rparr>"

definition demo_upload :: upload where
  "demo_upload = \<lparr>up_name = Some ''../../photo.jpg'', up_declared = Some 3, up_type = ''image/jpeg'',
     up_sha = [], up_size = Some 3, up_by = None\<rparr>"

definition demo_storage :: "string \<Rightarrow> bool \<Rightarrow> storage_run" where
  "demo_storage bytes cleans = \<lparr>sg_key = ''k'', sg_held = Some bytes, sg_saves = True, sg_sizes = True,
     sg_reads = True, sg_discards = cleans, sg_row = True\<rparr>"

definition demo_ingested :: evidence_record where
  "demo_ingested = sealed sha256_hex (ingest_defaults demo_call
     (blank_record 3 ''EV-1'' 0 ''digital_eye.GPRAnomaly'' ''7''))"

lemma demo_ingest:
  "ingest sha256_hex 3 ''EV-1'' 0 demo_call \<lparr>rg_records = [], rg_files = [], rg_store = Map.empty\<rparr>
   = Inr (demo_ingested, \<lparr>rg_records = [demo_ingested], rg_files = [], rg_store = Map.empty\<rparr>)"
  by (simp add: ingest_def insert_record_def first_where_def Let_def demo_call_def demo_ingested_def)


text \<open>
  Ingesting a producer row again is idempotent: the record keeps its identity and reference,
  no record is added, and the registry is the one a single ingestion gives.
\<close>
theorem ingest_idempotent:
  assumes "ic_source_model c \<noteq> []" "ic_source_id c \<noteq> []"
    and "ingest H pk ref now c db = Inr (r, db1)" "registry_inv H db"
  shows "ingest H pk' ref' now' c db1 = Inr (r, db1)"
proof -
  have twice: "sealed H (ingest_defaults c (sealed H (ingest_defaults c x))) = sealed H (ingest_defaults c x)" for x
    by (simp add: sealed_def ingest_defaults_def compute_hash_def native_payload_def native_coordinates_def)
  have inv1: "registry_inv H db1" by (rule ingest_inv [OF assms(4,3)])
  have mem: "r \<in> set (rg_records db1)" and src: "from_source (ic_source_model c) (ic_source_id c) r"
      and fix_r: "sealed H (ingest_defaults c r) = r"
  proof -
    from assms(1-3) have "(\<exists>old \<in> set (rg_records db). from_source (ic_source_model c) (ic_source_id c) old \<and>
          r = sealed H (ingest_defaults c old) \<and>
          db1 = db\<lparr>rg_records := update_where (\<lambda>x. er_id x = er_id old) (\<lambda>_. r) (rg_records db)\<rparr>) \<or>
        (r = sealed H (ingest_defaults c (blank_record pk ref now (ic_source_model c) (ic_source_id c))) \<and>
          db1 = db\<lparr>rg_records := rg_records db @ [r]\<rparr>)"
      by (auto simp: ingest_def insert_record_def Let_def split: option.splits if_splits dest: first_where_Some)
    then show "r \<in> set (rg_records db1)" "from_source (ic_source_model c) (ic_source_id c) r"
        "sealed H (ingest_defaults c r) = r"
      by (auto simp: set_update_where from_source_def blank_record_def twice)
  qed
  have "first_where (from_source (ic_source_model c) (ic_source_id c)) (rg_records db1) = Some r"
  proof -
    obtain x where x: "first_where (from_source (ic_source_model c) (ic_source_id c)) (rg_records db1) = Some x"
      using mem src by (cases "first_where (from_source (ic_source_model c) (ic_source_id c)) (rg_records db1)")
        (auto simp: first_where_None)
    from first_where_Some [OF x] have "x \<in> set (rg_records db1)" "same_source r x"
      using src assms(1) by (auto simp: same_source_def from_source_def)
    then have "x = r" using inv1 mem by (auto simp: registry_inv_def)
    with x show ?thesis by simp
  qed
  then have "ingest H pk' ref' now' c db1 =
      Inr (r, db1\<lparr>rg_records := update_where (\<lambda>x. er_id x = er_id r) (\<lambda>_. r) (rg_records db1)\<rparr>)"
    using assms(1,2) by (simp add: ingest_def Let_def fix_r)
  moreover have "update_where (\<lambda>x. er_id x = er_id r) (\<lambda>_. r) (rg_records db1) = rg_records db1"
  proof -
    have "\<forall>x \<in> set (rg_records db1). er_id x = er_id r \<longrightarrow> x = r"
      using inv1 mem by (auto simp: registry_inv_def dest: distinct_map_key)
    then show ?thesis by (auto simp: update_where_def intro!: map_idI)
  qed
  ultimately show ?thesis by simp
qed

lemma ingest_idempotent_witness:
  "ingest sha256_hex 2 ''EV-2'' 5 demo_call \<lparr>rg_records = [demo_ingested], rg_files = [], rg_store = Map.empty\<rparr>
   = Inr (demo_ingested, \<lparr>rg_records = [demo_ingested], rg_files = [], rg_store = Map.empty\<rparr>)"
  by (rule ingest_idempotent [OF _ _ demo_ingest]) (simp_all add: demo_call_def registry_inv_def)

text \<open>A reference that is taken is refused, and nothing is stored.\<close>

lemma taken_reference_refused:
  "ingest sha256_hex 4 ''EV-1'' 0 (demo_call\<lparr>ic_source_id := ''8''\<rparr>)
     \<lparr>rg_records = [demo_ingested], rg_files = [], rg_store = Map.empty\<rparr> = Inl Reference_Taken"
  by (simp add: ingest_def insert_record_def first_where_def Let_def demo_call_def demo_ingested_def
      from_source_def blank_record_def)

text \<open>
  The verdict on a payload is right: what is stored passes exactly when it has the content
  that was hashed at ingest, whatever order the database returns its keys in, as long as SHA-256
  tells the two texts apart.
\<close>
theorem payload_verdict:
  assumes "er_hash r = sha256_hex (spaced_json p)"
    and "wf_json p" "plain_floats p" "wf_json (er_payload r)" "plain_floats (er_payload r)"
    and "inj_on sha256_hex {spaced_json p, spaced_json (er_payload r)}"
  shows "payload_ok sha256_hex r \<longleftrightarrow> json_norm (er_payload r) = json_norm p"
proof -
  have "payload_ok sha256_hex r \<longleftrightarrow> sha256_hex (spaced_json p) = sha256_hex (spaced_json (er_payload r))"
    using sha256.digest_ne by (auto simp: payload_ok_def compute_hash_def assms(1))
  also have "\<dots> \<longleftrightarrow> spaced_json p = spaced_json (er_payload r)"
    using inj_on_eq_iff [OF assms(6)] by auto
  also have "\<dots> \<longleftrightarrow> json_norm (er_payload r) = json_norm p"
    using spaced_json_eq_iff [OF assms(2,4,3,5)] by auto
  finally show ?thesis .
qed

lemma payload_verdict_witness:
  "payload_ok sha256_hex ((sealed sha256_hex (blank_record 1 ''EV-1'' 0 [] []))
     \<lparr>er_hash := sha256_hex (spaced_json (JObj [(''a'', JInt 1), (''b'', JNull)])),
      er_payload := JObj [(''b'', JNull), (''a'', JInt 1)]\<rparr>)"
proof -
  let ?p = "JObj [(''a'', JInt 1), (''b'', JNull)]" and ?q = "JObj [(''b'', JNull), (''a'', JInt 1)]"
  have norm: "json_norm ?q = json_norm ?p" by (simp add: json_norm_JObj)
  then have "spaced_json ?q = spaced_json ?p" by (metis spaced_json_norm)
  then show ?thesis
    by (subst payload_verdict [where p = ?p]) (simp_all add: norm)
qed



end
