(* ===== verification/Evidence_Findings.thy ===== *)
theory Evidence_Findings
  imports Json_Spaced Audit_Ledger
begin

text \<open>
  Correlation findings and their review: \<^verbatim>\<open>apps/evidence/review.py\<close>, the models
  \<^verbatim>\<open>CorrelationFinding\<close> and \<^verbatim>\<open>FindingRevision\<close>, and \<^verbatim>\<open>_add_revision\<close> of
  \<^verbatim>\<open>apps/evidence/correlation.py\<close>. A finding keeps the values its caller put into it;
  \<open>column\<close> is what a column of the database makes of a value, \<open>None\<close> where it refuses. No
  transaction spans a request, so an operation returns the state it leaves also when it fails.
  \<open>H\<close> is SHA-256 in hexadecimal; identities, salts and clocks are arguments.
\<close>

section \<open>Findings and revisions\<close>

datatype finding_status = Fs_Pending | Fs_Accepted | Fs_Rejected | Fs_Modified | Fs_Escalated

definition status_text :: "finding_status \<Rightarrow> string" where
  "status_text s = (case s of
      Fs_Pending \<Rightarrow> ''pending_review'' | Fs_Accepted \<Rightarrow> ''accepted'' | Fs_Rejected \<Rightarrow> ''rejected''
    | Fs_Modified \<Rightarrow> ''modified'' | Fs_Escalated \<Rightarrow> ''escalated'')"

record finding =
  fi_id :: nat
  fi_reference :: string
  fi_project :: nat
  fi_group :: string
  fi_element :: json
  fi_guid :: json
  fi_title :: json
  fi_description :: json
  fi_level :: json
  fi_score :: json
  fi_reasoning :: string
  fi_evidence :: "nat list"
  fi_status :: finding_status
  fi_reviewer :: "nat option"
  fi_reviewed :: "int option"
  fi_notes :: string
  fi_ncr :: "nat option"
  fi_inspection :: "nat option"
  fi_count :: nat

record revision =
  rv_finding :: nat
  rv_number :: nat
  rv_reason :: string
  rv_snapshot :: dict
  rv_by :: "nat option"
  rv_notes :: string
  rv_hash :: string
  rv_previous :: string
  rv_at :: int

record ncr_row =
  nc_id :: nat
  nc_reference :: string
  nc_project :: nat
  nc_title :: string
  nc_description :: string
  nc_severity :: string
  nc_category :: string
  nc_source_reference :: string
  nc_reporter :: "nat option"
  nc_reporter_name :: string

record capa_row =
  cp_ncr :: nat
  cp_reference :: string
  cp_project :: nat
  cp_title :: string
  cp_plan :: string
  cp_priority :: string
  cp_due :: "int option"

record triggered_inspection =
  ti_id :: nat
  ti_reference :: string
  ti_project :: nat
  ti_type :: string
  ti_priority :: string
  ti_requested_by :: string
  ti_summary :: string

record review_db =
  vb_findings :: "finding list"
  vb_revisions :: "revision list"
  vb_ncrs :: "ncr_row list"
  vb_capas :: "capa_row list"
  vb_inspections :: "triggered_inspection list"
  vb_audit :: "audit_event list"

datatype review_error =
    Not_Authenticated | Unknown_Decision | Already_Resolved finding_status | Unknown_Request | Inspection_Linked | Finding_Rejected
  | Ncr_Linked | Not_Reviewed_Yet | Unknown_Signoff | Database_Error

text \<open>What one request takes from its surroundings: the clock, and the identity and salt of its audit event.\<close>

record moment =
  mo_now :: int
  mo_recorded :: int
  mo_event :: nat
  mo_event_ref :: string
  mo_salt :: string

section \<open>Saving a finding\<close>

definition stored :: "(string \<Rightarrow> json \<Rightarrow> json option) \<Rightarrow> finding \<Rightarrow> finding option" where
  "stored column f =
     Option.bind (column ''title'' (fi_title f)) (\<lambda>t.
     Option.bind (column ''description'' (fi_description f)) (\<lambda>d.
     Option.bind (column ''risk_level'' (fi_level f)) (\<lambda>l.
     Option.bind (column ''risk_score'' (fi_score f)) (\<lambda>s.
     Option.bind (column ''structural_element_id'' (fi_element f)) (\<lambda>e.
     Option.bind (column ''bim_guid'' (fi_guid f)) (\<lambda>g.
     Some (f\<lparr>fi_title := t, fi_description := d, fi_level := l, fi_score := s, fi_element := e, fi_guid := g\<rparr>)))))))"

definition put_finding :: "finding \<Rightarrow> review_db \<Rightarrow> review_db" where
  "put_finding s db = db\<lparr>vb_findings := update_where (\<lambda>x. fi_id x = fi_id s) (\<lambda>_. s) (vb_findings db)\<rparr>"

definition save_finding ::
    "(string \<Rightarrow> json \<Rightarrow> json option) \<Rightarrow> finding \<Rightarrow> review_db \<Rightarrow> (review_error + unit) \<times> review_db" where
  "save_finding column f db = (case stored column f of
      None \<Rightarrow> (Inl Database_Error, db)
    | Some s \<Rightarrow> (Inr (), put_finding s db))"

section \<open>The history of a finding\<close>

definition snapshot :: "finding \<Rightarrow> dict" where
  "snapshot f =
     [(''title'', fi_title f), (''description'', fi_description f), (''risk_level'', fi_level f),
      (''risk_score'', fi_score f), (''status'', JStr (status_text (fi_status f))),
      (''structural_element_id'', fi_element f), (''bim_guid'', fi_guid f), (''reasoning'', JStr (fi_reasoning f)),
      (''review_notes'', JStr (fi_notes f)), (''evidence_ids'', JArr (map (JStr \<circ> show_nat) (fi_evidence f)))]"

definition revision_text :: "revision \<Rightarrow> string" where
  "revision_text r = rv_previous r @ '':'' @ show_nat (rv_number r) @ '':'' @ spaced_json (JObj (rv_snapshot r))"

definition revision_digest :: "(string \<Rightarrow> string) \<Rightarrow> revision \<Rightarrow> string" where
  "revision_digest H r = H (revision_text r)"

definition revision_verifies :: "(string \<Rightarrow> string) \<Rightarrow> revision \<Rightarrow> bool" where
  "revision_verifies H r \<longleftrightarrow> rv_hash r \<noteq> [] \<and> rv_hash r = revision_digest H r"

definition revisions_of :: "nat \<Rightarrow> review_db \<Rightarrow> revision list" where
  "revisions_of k db = filter (\<lambda>r. rv_finding r = k) (vb_revisions db)"

text \<open>\<^verbatim>\<open>order_by('-revision_number').first()\<close>\<close>

fun highest :: "revision \<Rightarrow> revision list \<Rightarrow> revision" where
  "highest r [] = r"
| "highest r (x # xs) = highest (if rv_number r < rv_number x then x else r) xs"

definition last_revision :: "nat \<Rightarrow> review_db \<Rightarrow> revision option" where
  "last_revision k db = (case revisions_of k db of [] \<Rightarrow> None | r # rs \<Rightarrow> Some (highest r rs))"

definition new_revision ::
    "(string \<Rightarrow> string) \<Rightarrow> int \<Rightarrow> string \<Rightarrow> nat option \<Rightarrow> string \<Rightarrow> finding \<Rightarrow> review_db \<Rightarrow> revision" where
  "new_revision H at_time reason who notes f db =
     (let r = \<lparr>rv_finding = fi_id f, rv_number = Suc (fi_count f), rv_reason = reason, rv_snapshot = snapshot f,
               rv_by = who, rv_notes = notes, rv_hash = [],
               rv_previous = (case last_revision (fi_id f) db of Some l \<Rightarrow> rv_hash l | None \<Rightarrow> []), rv_at = at_time\<rparr>
      in r\<lparr>rv_hash := revision_digest H r\<rparr>)"

text \<open>The pair of finding and number is unique; the count is written back on its own.\<close>

definition add_revision ::
    "(string \<Rightarrow> string) \<Rightarrow> int \<Rightarrow> string \<Rightarrow> nat option \<Rightarrow> string \<Rightarrow> finding \<Rightarrow> review_db
     \<Rightarrow> (review_error + revision) \<times> review_db" where
  "add_revision H at_time reason who notes f db =
     (let r = new_revision H at_time reason who notes f db
      in if list_ex (\<lambda>x. rv_finding x = rv_finding r \<and> rv_number x = rv_number r) (vb_revisions db)
         then (Inl Database_Error, db)
         else (Inr r, db\<lparr>vb_revisions := vb_revisions db @ [r],
                 vb_findings := update_where (\<lambda>x. fi_id x = fi_id f) (\<lambda>x. x\<lparr>fi_count := rv_number r\<rparr>) (vb_findings db)\<rparr>))"

text \<open>A digest is put into the snapshot afterwards and the revision sealed again.\<close>

definition resealed :: "(string \<Rightarrow> string) \<Rightarrow> string \<Rightarrow> json \<Rightarrow> revision \<Rightarrow> revision" where
  "resealed H k v r = (let r' = r\<lparr>rv_snapshot := dict_put k v (rv_snapshot r)\<rparr> in r'\<lparr>rv_hash := revision_digest H r'\<rparr>)"

definition put_revision :: "revision \<Rightarrow> review_db \<Rightarrow> review_db" where
  "put_revision r db = db\<lparr>vb_revisions :=
     update_where (\<lambda>x. rv_finding x = rv_finding r \<and> rv_number x = rv_number r) (\<lambda>_. r) (vb_revisions db)\<rparr>"

definition decision_hash :: "(string \<Rightarrow> string) \<Rightarrow> revision \<Rightarrow> nat option \<Rightarrow> string \<Rightarrow> string" where
  "decision_hash H r reviewer decision =
     H (spaced_json (JObj
       [(''revision'', JInt (int (rv_number r))), (''revision_hash'', JStr (rv_hash r)),
        (''reviewer'', JStr (case reviewer of Some u \<Rightarrow> show_nat u | None \<Rightarrow> ''anonymous'')),
        (''decision'', JStr decision), (''recorded_at'', JStr (iso_instant (rv_at r)))]))"

section \<open>The audit event of a decision\<close>

definition record_audit ::
    "(string \<Rightarrow> string) \<Rightarrow> moment \<Rightarrow> acc_user \<Rightarrow> string \<Rightarrow> nat \<Rightarrow> string \<Rightarrow> json \<Rightarrow> json \<Rightarrow> json \<Rightarrow> review_db
     \<Rightarrow> (review_error + unit) \<times> review_db" where
  "record_audit H mo u action k severity previous new_state meta db =
     (case save_event H (mo_salt mo)
        \<lparr>ev_id = mo_event mo, ev_reference = mo_event_ref mo, ev_user = Some (ac_id u), ev_user_name = full_name u,
         ev_user_role = ''System'', ev_user_email = Some (ac_email u), ev_action = action, ev_type = None,
         ev_resource_type = ''CorrelationFinding'', ev_resource_id = show_nat k, ev_project = None, ev_ip = None,
         ev_agent = None, ev_time = mo_now mo, ev_previous = previous, ev_new = new_state, ev_metadata = json_or meta (JObj []),
         ev_severity = severity, ev_signature = None, ev_verified = True\<rparr> (vb_audit db) of
        Inl _ \<Rightarrow> (Inl Database_Error, db)
      | Inr es \<Rightarrow> (Inr (), db\<lparr>vb_audit := es\<rparr>))"

section \<open>Decisions of a reviewer\<close>

text \<open>\<^verbatim>\<open>setattr\<close> for each of the fields a reviewer may change, when it was named.\<close>

definition picked :: "dict \<Rightarrow> string \<Rightarrow> json \<Rightarrow> json" where
  "picked mods k old = (case map_of mods k of Some v \<Rightarrow> v | None \<Rightarrow> old)"

definition modified_by :: "dict \<Rightarrow> finding \<Rightarrow> finding" where
  "modified_by mods f = f\<lparr>fi_title := picked mods ''title'' (fi_title f),
     fi_description := picked mods ''description'' (fi_description f),
     fi_level := picked mods ''risk_level'' (fi_level f), fi_score := picked mods ''risk_score'' (fi_score f),
     fi_element := picked mods ''structural_element_id'' (fi_element f), fi_guid := picked mods ''bim_guid'' (fi_guid f),
     fi_status := Fs_Modified\<rparr>"

definition decided :: "string \<Rightarrow> dict \<Rightarrow> finding \<Rightarrow> finding" where
  "decided decision mods f =
     (if decision = ''accept'' then f\<lparr>fi_status := Fs_Accepted\<rparr>
      else if decision = ''reject'' then f\<lparr>fi_status := Fs_Rejected\<rparr>
      else if decision = ''modify'' then modified_by mods f
      else f)"

definition noted :: "acc_user \<Rightarrow> int \<Rightarrow> string \<Rightarrow> finding \<Rightarrow> finding" where
  "noted u now notes f = f\<lparr>fi_reviewer := Some (ac_id u), fi_reviewed := Some now, fi_notes := notes\<rparr>"

text \<open>The revision, the digest put into it, and the audit event.\<close>

definition seal_decision ::
    "(string \<Rightarrow> string) \<Rightarrow> moment \<Rightarrow> acc_user \<Rightarrow> string \<Rightarrow> string \<Rightarrow> dict \<Rightarrow> finding \<Rightarrow> review_db
     \<Rightarrow> (review_error + string) \<times> review_db" where
  "seal_decision H mo u decision notes previous f db =
     and_then (add_revision H (mo_recorded mo) ''decision'' (Some (ac_id u)) (decision @ '': '' @ notes) f db) (\<lambda>r db.
       let digest = decision_hash H r (Some (ac_id u)) decision;
           db = put_revision (resealed H ''decision_hash'' (JStr digest) r) db
       in and_then (record_audit H mo u (''evidence.finding.'' @ decision) (fi_id f)
              (if decision \<noteq> ''reject'' then ''High'' else ''Normal'') (JObj previous)
              (JObj [(''status'', JStr (status_text (fi_status f))), (''risk_level'', fi_level f)])
              (JObj [(''decision_hash'', JStr digest), (''notes'', JStr notes)]) db)
            (\<lambda>_ db. (Inr digest, db)))"

definition state_before :: "finding \<Rightarrow> dict" where
  "state_before f = [(''status'', JStr (status_text (fi_status f))), (''risk_level'', fi_level f),
     (''risk_score'', fi_score f), (''title'', fi_title f)]"

definition review ::
    "(string \<Rightarrow> string) \<Rightarrow> (string \<Rightarrow> json \<Rightarrow> json option) \<Rightarrow> moment \<Rightarrow> acc_user \<Rightarrow> string \<Rightarrow> string \<Rightarrow> dict \<Rightarrow> finding
     \<Rightarrow> review_db \<Rightarrow> (review_error + string) \<times> review_db" where
  "review H column mo u decision notes mods f db =
     (if decision \<notin> set [''accept'', ''reject'', ''modify'', ''escalate''] then (Inl Unknown_Decision, db)
      else if fi_status f \<notin> {Fs_Pending, Fs_Modified} then (Inl (Already_Resolved (fi_status f)), db)
      else let f' = noted u (mo_now mo) notes (decided decision mods f)
           in and_then (save_finding column f' db)
                (\<lambda>_. seal_decision H mo u decision notes (state_before f) f'))"

definition request_supplementary_evidence ::
    "(string \<Rightarrow> string) \<Rightarrow> moment \<Rightarrow> acc_user \<Rightarrow> string \<Rightarrow> string \<Rightarrow> finding
     \<Rightarrow> review_db \<Rightarrow> (review_error + revision) \<times> review_db" where
  "request_supplementary_evidence H mo u request_type notes f db =
     (if request_type \<notin> set [''supplementary'', ''live_stream'', ''retest_ndt''] then (Inl Unknown_Request, db)
      else and_then (add_revision H (mo_recorded mo) ''new_evidence'' (Some (ac_id u))
               (''Supplementary evidence requested ('' @ request_type @ ''): '' @ notes) f db) (\<lambda>r db.
             and_then (record_audit H mo u ''evidence.finding.supplementary_request'' (fi_id f) ''Normal'' JNull
               (JObj [(''request_type'', JStr request_type), (''notes'', JStr notes)]) (JObj []) db) (\<lambda>_ db. (Inr r, db))))"

section \<open>Escalation\<close>

definition inspection_for ::
    "nat \<Rightarrow> string \<Rightarrow> acc_user \<Rightarrow> string \<Rightarrow> string \<Rightarrow> string \<Rightarrow> finding \<Rightarrow> triggered_inspection" where
  "inspection_for pk ref u ty priority notes f =
     \<lparr>ti_id = pk, ti_reference = ref, ti_project = fi_project f, ti_type = ty, ti_priority = priority,
      ti_requested_by = full_name u,
      ti_summary = py_strip (''Triggered by AI correlation finding '' @ fi_reference f @ '' (risk '' @ py_str (fi_level f)
        @ ''). '' @ notes)\<rparr>"

definition escalated_by :: "acc_user \<Rightarrow> int \<Rightarrow> finding \<Rightarrow> finding" where
  "escalated_by u now f = f\<lparr>fi_status := Fs_Escalated, fi_reviewer := Some (ac_id u), fi_reviewed := Some now\<rparr>"

definition log_escalation ::
    "(string \<Rightarrow> string) \<Rightarrow> (string \<Rightarrow> json \<Rightarrow> json option) \<Rightarrow> moment \<Rightarrow> acc_user \<Rightarrow> string \<Rightarrow> string \<Rightarrow> string \<Rightarrow> json
     \<Rightarrow> finding \<Rightarrow> review_db \<Rightarrow> (review_error + unit) \<times> review_db" where
  "log_escalation H column mo u notes action severity new_state f db =
     and_then (save_finding column f db) (\<lambda>_ db.
     and_then (add_revision H (mo_recorded mo) ''escalated'' (Some (ac_id u)) notes f db) (\<lambda>_ db.
     record_audit H mo u action (fi_id f) severity JNull new_state (JObj []) db))"

definition trigger_inspection ::
    "(string \<Rightarrow> string) \<Rightarrow> (string \<Rightarrow> json \<Rightarrow> json option) \<Rightarrow> moment \<Rightarrow> nat \<Rightarrow> string \<Rightarrow> acc_user \<Rightarrow> string \<Rightarrow> string \<Rightarrow> string
     \<Rightarrow> finding \<Rightarrow> review_db \<Rightarrow> (review_error + triggered_inspection) \<times> review_db" where
  "trigger_inspection H column mo pk ref u ty priority notes f db =
     (if fi_inspection f \<noteq> None then (Inl Inspection_Linked, db)
      else let i = inspection_for pk ref u ty priority notes f;
               f' = (escalated_by u (mo_now mo) f)\<lparr>fi_inspection := Some pk, fi_notes := or_default notes (fi_notes f)\<rparr>
           in and_then (log_escalation H column mo u (''Statutory inspection '' @ ref @ '' triggered.'')
                  ''evidence.finding.trigger_inspection'' ''High'' (JObj [(''inspection_reference'', JStr ref)]) f'
                  (db\<lparr>vb_inspections := vb_inspections db @ [i]\<rparr>)) (\<lambda>_ db. (Inr i, db)))"

definition severity_of_level :: "json \<Rightarrow> string" where
  "severity_of_level l = (case l of
      JStr s \<Rightarrow> (case map_of [(''critical'', ''Critical''), (''high'', ''Major''), (''medium'', ''Major''),
                            (''low'', ''Minor''), (''info'', ''Minor'')] s of Some v \<Rightarrow> v | None \<Rightarrow> ''Major'')
    | _ \<Rightarrow> ''Major'')"

record ncr_call =
  nq_title :: string
  nq_description :: string
  nq_severity :: string
  nq_category :: string
  nq_action :: string
  nq_due :: "int option"

definition ncr_for :: "nat \<Rightarrow> string \<Rightarrow> acc_user \<Rightarrow> ncr_call \<Rightarrow> finding \<Rightarrow> ncr_row" where
  "ncr_for pk ref u c f =
     \<lparr>nc_id = pk, nc_reference = ref, nc_project = fi_project f,
      nc_title = or_default (nq_title c) (''AI-corroborated non-conformance: '' @ py_str (fi_title f)),
      nc_description = or_default (nq_description c)
        (''Issued from AI correlation finding '' @ fi_reference f @ '' (risk '' @ py_str (fi_level f)
         @ (if fi_score f = JNull then [] else '', score '' @ py_str (fi_score f)) @ ''). '' @ py_str (fi_description f)),
      nc_severity = or_default (nq_severity c) (severity_of_level (fi_level f)), nc_category = nq_category c,
      nc_source_reference = fi_reference f, nc_reporter = Some (ac_id u), nc_reporter_name = full_name u\<rparr>"

definition capa_for :: "string \<Rightarrow> ncr_call \<Rightarrow> ncr_row \<Rightarrow> capa_row list" where
  "capa_for capa_ref c n =
     (if nq_action c = [] then []
      else [\<lparr>cp_ncr = nc_id n, cp_reference = capa_ref, cp_project = nc_project n,
              cp_title = ''Corrective action for '' @ nc_reference n, cp_plan = nq_action c,
              cp_priority = (if nc_severity n = ''Critical'' then ''Critical'' else ''High''), cp_due = nq_due c\<rparr>])"

definition issue_ncr ::
    "(string \<Rightarrow> string) \<Rightarrow> (string \<Rightarrow> json \<Rightarrow> json option) \<Rightarrow> moment \<Rightarrow> nat \<Rightarrow> string \<Rightarrow> string \<Rightarrow> acc_user \<Rightarrow> ncr_call
     \<Rightarrow> finding \<Rightarrow> review_db \<Rightarrow> (review_error + ncr_row \<times> capa_row list) \<times> review_db" where
  "issue_ncr H column mo pk ref capa_ref u c f db =
     (if fi_status f = Fs_Rejected then (Inl Finding_Rejected, db)
      else if fi_ncr f \<noteq> None then (Inl Ncr_Linked, db)
      else let n = ncr_for pk ref u c f;
               capas = capa_for capa_ref c n;
               f' = (escalated_by u (mo_now mo) f)\<lparr>fi_ncr := Some pk\<rparr>
           in and_then (log_escalation H column mo u
                  (''Formal NCR '' @ ref @ '' issued''
                   @ (if capas = [] then [] else '' with corrective action '' @ capa_ref) @ ''.'')
                  ''evidence.finding.issue_ncr'' (if nc_severity n = ''Critical'' then ''Critical'' else ''High'')
                  (JObj [(''ncr_reference'', JStr ref), (''severity'', JStr (nc_severity n))]) f'
                  (db\<lparr>vb_ncrs := vb_ncrs db @ [n], vb_capas := vb_capas db @ capas\<rparr>)) (\<lambda>_ db. (Inr (n, capas), db)))"

section \<open>The sign-off of a director\<close>

definition director_signoff ::
    "(string \<Rightarrow> string) \<Rightarrow> moment \<Rightarrow> acc_user option \<Rightarrow> string \<Rightarrow> string \<Rightarrow> finding
     \<Rightarrow> review_db \<Rightarrow> (review_error + string) \<times> review_db" where
  "director_signoff H mo usr decision notes f db = (case usr of
      None \<Rightarrow> (Inl Not_Authenticated, db)
    | Some u \<Rightarrow>
      if fi_status f \<notin> {Fs_Accepted, Fs_Modified, Fs_Escalated} then (Inl Not_Reviewed_Yet, db)
      else if decision \<notin> set [''approve'', ''return''] then (Inl Unknown_Signoff, db)
      else and_then (add_revision H (mo_recorded mo) ''decision'' (Some (ac_id u))
               (py_strip (''Director sign-off: '' @ decision @ ''. '' @ notes)) f db) (\<lambda>r db.
             let digest = decision_hash H r (Some (ac_id u)) (''director_'' @ decision);
                 signed = JObj [(''decision'', JStr decision), (''director'', JStr (display_name u)),
                                (''signoff_hash'', JStr digest), (''signed_at'', JStr (iso_instant (rv_at r)))];
                 db = put_revision (resealed H ''director_signoff'' signed r) db
             in and_then (record_audit H mo u ''evidence.finding.director_signoff'' (fi_id f) ''Critical'' JNull
                    (JObj [(''decision'', JStr decision), (''signoff_hash'', JStr digest)]) (JObj []) db)
                  (\<lambda>_ db. (Inr digest, db))))"

section \<open>What the engine writes\<close>

text \<open>
  A finding is created pending and unlinked; a pending one is updated in place. Its evidence is a
  relation of its own and is set before the row is saved, so a save that fails leaves the old
  figures beside the new evidence.
\<close>

definition set_evidence :: "nat \<Rightarrow> nat list \<Rightarrow> review_db \<Rightarrow> review_db" where
  "set_evidence k evidence db =
     db\<lparr>vb_findings := update_where (\<lambda>x. fi_id x = k) (\<lambda>x. x\<lparr>fi_evidence := evidence\<rparr>) (vb_findings db)\<rparr>"

lemma put_set_evidence [simp]: "fi_id s = k \<Longrightarrow> put_finding s (set_evidence k evidence db) = put_finding s db"
  by (simp add: put_finding_def set_evidence_def update_where_def comp_def)

definition create_finding ::
    "(string \<Rightarrow> string) \<Rightarrow> (string \<Rightarrow> json \<Rightarrow> json option) \<Rightarrow> int \<Rightarrow> nat option \<Rightarrow> string \<Rightarrow> finding
     \<Rightarrow> review_db \<Rightarrow> (review_error + revision) \<times> review_db" where
  "create_finding H column at_time who notes f db =
     (let f = f\<lparr>fi_status := Fs_Pending, fi_reviewer := None, fi_reviewed := None, fi_notes := [], fi_ncr := None,
                 fi_inspection := None, fi_count := 0\<rparr>
      in case stored column f of
           None \<Rightarrow> (Inl Database_Error, db)
         | Some s \<Rightarrow> add_revision H at_time ''created'' who notes f (db\<lparr>vb_findings := vb_findings db @ [s]\<rparr>))"

definition rescore ::
    "(string \<Rightarrow> string) \<Rightarrow> (string \<Rightarrow> json \<Rightarrow> json option) \<Rightarrow> int \<Rightarrow> nat option \<Rightarrow> json \<Rightarrow> json \<Rightarrow> string \<Rightarrow> json \<Rightarrow> nat list
     \<Rightarrow> finding \<Rightarrow> review_db \<Rightarrow> (review_error + revision) \<times> review_db" where
  "rescore H column at_time who score level reasoning description evidence f db =
     (let f' = f\<lparr>fi_score := score, fi_level := level, fi_reasoning := reasoning, fi_description := description,
                  fi_evidence := evidence\<rparr>
      in and_then (save_finding column f' (set_evidence (fi_id f) evidence db)) (\<lambda>_.
           add_revision H at_time ''new_evidence'' who ''Correlation re-run with new evidence.'' f'))"

section \<open>Runs\<close>

text \<open>
  A request loads the finding it works on; requests on one finding are taken one after the
  other. A step may fail: it then leaves the state its operation left.
\<close>

inductive review_step ::
    "(string \<Rightarrow> string) \<Rightarrow> (string \<Rightarrow> json \<Rightarrow> json option) \<Rightarrow> review_db \<Rightarrow> review_db \<Rightarrow> bool"
    for H :: "string \<Rightarrow> string" and column :: "string \<Rightarrow> json \<Rightarrow> json option" where
  created: "fi_id f \<notin> fi_id ` set (vb_findings db) \<Longrightarrow>
    review_step H column db (snd (create_finding H column at_time who notes f db))"
| rescored: "f \<in> set (vb_findings db) \<Longrightarrow> fi_status f = Fs_Pending \<Longrightarrow>
    review_step H column db (snd (rescore H column at_time who score level reasoning description evidence f db))"
| reviewed: "f \<in> set (vb_findings db) \<Longrightarrow>
    review_step H column db (snd (review H column mo u decision notes mods f db))"
| asked: "f \<in> set (vb_findings db) \<Longrightarrow>
    review_step H column db (snd (request_supplementary_evidence H mo u request_type notes f db))"
| inspected: "f \<in> set (vb_findings db) \<Longrightarrow>
    review_step H column db (snd (trigger_inspection H column mo pk ref u ty priority notes f db))"
| reported: "f \<in> set (vb_findings db) \<Longrightarrow>
    review_step H column db (snd (issue_ncr H column mo pk ref capa_ref u c f db))"
| signed: "f \<in> set (vb_findings db) \<Longrightarrow>
    review_step H column db (snd (director_signoff H mo usr decision notes f db))"

definition empty_review_db :: review_db where
  "empty_review_db =
     \<lparr>vb_findings = [], vb_revisions = [], vb_ncrs = [], vb_capas = [], vb_inspections = [], vb_audit = []\<rparr>"

inductive review_run :: "(string \<Rightarrow> string) \<Rightarrow> (string \<Rightarrow> json \<Rightarrow> json option) \<Rightarrow> review_db \<Rightarrow> bool"
    for H :: "string \<Rightarrow> string" and column :: "string \<Rightarrow> json \<Rightarrow> json option" where
  start: "review_run H column empty_review_db"
| step: "review_run H column db \<Longrightarrow> review_step H column db db' \<Longrightarrow> review_run H column db'"

text \<open>What a column makes of a value it leaves alone afterwards.\<close>

definition settled_columns :: "(string \<Rightarrow> json \<Rightarrow> json option) \<Rightarrow> bool" where
  "settled_columns column \<longleftrightarrow> (\<forall>k v w. column k v = Some w \<longrightarrow> column k w = Some w)"

end
