(* ===== verification/Evidence_History.thy ===== *)
theory Evidence_History
  imports Evidence_Findings
begin

text \<open>
  What the review of findings keeps: the history of a finding is a chain of digests, notices and
  inspections are accounted for, a decision can be checked from what is stored.
\<close>

section \<open>The history of a finding is a chain\<close>

fun chained :: "(string \<Rightarrow> string) \<Rightarrow> string \<Rightarrow> nat \<Rightarrow> revision list \<Rightarrow> bool" where
  "chained H previous n [] = True"
| "chained H previous n (r # rs) =
     (rv_number r = n \<and> rv_previous r = previous \<and> rv_hash r = revision_digest H r \<and> chained H (rv_hash r) (Suc n) rs)"

definition head_hash :: "string \<Rightarrow> revision list \<Rightarrow> string" where
  "head_hash previous rs = (if rs = [] then previous else rv_hash (last rs))"

lemma chained_append:
  "chained H previous n (rs @ ss) \<longleftrightarrow>
   chained H previous n rs \<and> chained H (head_hash previous rs) (n + length rs) ss"
  by (induction rs arbitrary: previous n) (auto simp: head_hash_def)

lemma chained_numbers: "chained H previous n rs \<Longrightarrow> map rv_number rs = [n..<n + length rs]"
proof (induction rs arbitrary: previous n)
  case (Cons r rs)
  have "map rv_number rs = [Suc n..<Suc n + length rs]"
    by (rule Cons.IH [of "rv_hash r"]) (use Cons.prems in auto)
  moreover have "[n..<n + length (r # rs)] = n # [Suc n..<Suc n + length rs]" by (simp add: upt_conv_Cons del: upt_Suc)
  ultimately show ?case using Cons.prems by (simp del: upt_Suc)
qed simp

lemma highest_last: "sorted (map rv_number (r # rs)) \<Longrightarrow> distinct (map rv_number (r # rs)) \<Longrightarrow> highest r rs = last (r # rs)"
  by (induction rs arbitrary: r) (auto simp: less_le)

definition history_ok :: "(string \<Rightarrow> string) \<Rightarrow> finding \<Rightarrow> revision list \<Rightarrow> bool" where
  "history_ok H f rs \<longleftrightarrow> chained H [] 1 rs \<and> length rs = fi_count f \<and> rs \<noteq> [] \<and>
     map_of (rv_snapshot (last rs)) ''status'' = Some (JStr (status_text (fi_status f)))"

lemma last_revision_chained:
  assumes "chained H [] 1 (revisions_of k db)"
  shows "(case last_revision k db of Some l \<Rightarrow> rv_hash l | None \<Rightarrow> []) = head_hash [] (revisions_of k db)"
proof (cases "revisions_of k db")
  case (Cons r rs)
  have "map rv_number (r # rs) = [1..<1 + length (r # rs)]"
    using chained_numbers [OF assms] Cons by simp
  then have "highest r rs = last (r # rs)"
    by (intro highest_last) (simp_all only: sorted_upt distinct_upt)
  then show ?thesis by (simp add: last_revision_def Cons head_hash_def)
qed (simp add: last_revision_def head_hash_def)

lemma chained_below:
  assumes "chained H [] 1 (revisions_of k db)" "x \<in> set (vb_revisions db)" "rv_finding x = k"
  shows "rv_number x \<le> length (revisions_of k db)"
proof -
  have "rv_number x \<in> set (map rv_number (revisions_of k db))"
    using assms(2,3) by (auto simp: revisions_of_def)
  then show ?thesis using chained_numbers [OF assms(1)] by (auto simp del: upt_Suc)
qed

text \<open>On a history that is in order the next revision is accepted.\<close>

lemma add_revision_next:
  assumes "chained H [] 1 (revisions_of (fi_id f) db)" "length (revisions_of (fi_id f) db) = fi_count f"
  obtains r where
    "add_revision H at_time reason who notes f db =
       (Inr r, db\<lparr>vb_revisions := vb_revisions db @ [r],
           vb_findings := update_where (\<lambda>x. fi_id x = fi_id f) (\<lambda>x. x\<lparr>fi_count := Suc (fi_count f)\<rparr>) (vb_findings db)\<rparr>)"
    "rv_finding r = fi_id f" "rv_number r = Suc (fi_count f)" "rv_hash r = revision_digest H r"
    "rv_previous r = head_hash [] (revisions_of (fi_id f) db)" "rv_snapshot r = snapshot f" "rv_by r = who"
    "rv_notes r = notes" "rv_at r = at_time" "rv_reason r = reason"
proof
  let ?r = "new_revision H at_time reason who notes f db"
  have "rv_number x \<le> fi_count f" if "x \<in> set (vb_revisions db)" "rv_finding x = fi_id f" for x
    using chained_below [OF assms(1) that] assms(2) by simp
  then show "add_revision H at_time reason who notes f db =
       (Inr ?r, db\<lparr>vb_revisions := vb_revisions db @ [?r],
           vb_findings := update_where (\<lambda>x. fi_id x = fi_id f) (\<lambda>x. x\<lparr>fi_count := Suc (fi_count f)\<rparr>) (vb_findings db)\<rparr>)"
    by (force simp: add_revision_def new_revision_def Let_def list_ex_iff)
  show "rv_hash ?r = revision_digest H ?r"
    by (simp add: new_revision_def Let_def revision_digest_def revision_text_def)
  show "rv_previous ?r = head_hash [] (revisions_of (fi_id f) db)"
    using last_revision_chained [OF assms(1)] by (simp add: new_revision_def Let_def)
qed (simp_all add: new_revision_def Let_def)

section \<open>The invariant\<close>

definition review_inv :: "(string \<Rightarrow> string) \<Rightarrow> (string \<Rightarrow> json \<Rightarrow> json option) \<Rightarrow> review_db \<Rightarrow> bool" where
  "review_inv H column db \<longleftrightarrow>
     distinct (map fi_id (vb_findings db)) \<and>
     (\<forall>f \<in> set (vb_findings db). history_ok H f (revisions_of (fi_id f) db) \<and> stored column f = Some f \<and>
        (fi_status f = Fs_Escalated \<longleftrightarrow> fi_ncr f \<noteq> None \<or> fi_inspection f \<noteq> None)) \<and>
     (\<forall>r \<in> set (vb_revisions db). rv_finding r \<in> fi_id ` set (vb_findings db)) \<and>
     length (vb_ncrs db) = rows_where (\<lambda>f. fi_ncr f \<noteq> None) (vb_findings db) \<and>
     length (vb_inspections db) = rows_where (\<lambda>f. fi_inspection f \<noteq> None) (vb_findings db)"

lemma rows_where_replaced:
  assumes "distinct (map fi_id fs)" "f \<in> set fs" "fi_id f' = fi_id f" "P f \<longrightarrow> P f'"
  shows "rows_where P (update_where (\<lambda>x. fi_id x = fi_id f) (\<lambda>_. f') fs) =
    rows_where P fs + (if P f' \<and> \<not> P f then 1 else 0)"
  using assms
proof (induction fs)
  case (Cons a fs)
  show ?case
  proof (cases "a = f")
    case True
    with Cons.prems have "fi_id f \<notin> fi_id ` set fs" by simp
    then have "\<forall>x \<in> set fs. fi_id x \<noteq> fi_id f" by (metis imageI)
    then have "update_where (\<lambda>x. fi_id x = fi_id f) (\<lambda>_. f') fs = fs" by (rule update_where_none)
    with True Cons.prems(4) show ?thesis by (simp add: rows_where_def)
  next
    case False
    with Cons.prems have "fi_id a \<noteq> fi_id f" by auto
    with Cons False show ?thesis by (simp add: rows_where_def)
  qed
qed simp

text \<open>One more entry in the history of one finding.\<close>

lemma inv_logged:
  assumes inv: "review_inv H column db" and f: "f \<in> set (vb_findings db)"
    and findings: "vb_findings db' = update_where (\<lambda>x. fi_id x = fi_id f) (\<lambda>_. f') (vb_findings db)"
    and revisions: "vb_revisions db' = vb_revisions db @ [r]"
    and ncrs: "length (vb_ncrs db') = length (vb_ncrs db) + (if fi_ncr f' \<noteq> None \<and> fi_ncr f = None then 1 else 0)"
      "fi_ncr f \<noteq> None \<Longrightarrow> fi_ncr f' \<noteq> None"
    and inspections: "length (vb_inspections db') =
        length (vb_inspections db) + (if fi_inspection f' \<noteq> None \<and> fi_inspection f = None then 1 else 0)"
      "fi_inspection f \<noteq> None \<Longrightarrow> fi_inspection f' \<noteq> None"
    and link: "fi_status f' = Fs_Escalated \<longleftrightarrow> fi_ncr f' \<noteq> None \<or> fi_inspection f' \<noteq> None"
    and kept: "stored column f' = Some f'" "fi_id f' = fi_id f" "fi_count f' = Suc (fi_count f)"
    and r: "rv_finding r = fi_id f" "rv_number r = Suc (fi_count f)" "rv_hash r = revision_digest H r"
      "rv_previous r = head_hash [] (revisions_of (fi_id f) db)"
      "map_of (rv_snapshot r) ''status'' = Some (JStr (status_text (fi_status f')))"
  shows "review_inv H column db'"
proof -
  have dist: "distinct (map fi_id (vb_findings db))" using inv by (simp add: review_inv_def)
  have ids: "map fi_id (vb_findings db') = map fi_id (vb_findings db)"
    unfolding findings by (rule map_update_where) (simp add: kept)
  have hist: "history_ok H f (revisions_of (fi_id f) db)" using inv f by (auto simp: review_inv_def)
  have now_hist: "history_ok H f' (revisions_of (fi_id f) db @ [r])"
    using hist r kept by (simp add: history_ok_def chained_append)
  have revs: "revisions_of k db' = (if k = fi_id f then revisions_of k db @ [r] else revisions_of k db)" for k
    by (simp add: revisions_of_def revisions r)
  have "history_ok H x (revisions_of (fi_id x) db') \<and> stored column x = Some x \<and>
      (fi_status x = Fs_Escalated \<longleftrightarrow> fi_ncr x \<noteq> None \<or> fi_inspection x \<noteq> None)" if "x \<in> set (vb_findings db')" for x
    using that unfolding findings
  proof (cases rule: in_update_whereE)
    case (1 y)
    then show ?thesis using now_hist kept link by (simp add: revs)
  next
    case 2
    then show ?thesis using inv by (simp add: revs review_inv_def)
  qed
  moreover have "set (map fi_id (vb_findings db')) = set (map fi_id (vb_findings db))" by (simp only: ids)
  then have "\<forall>x \<in> set (vb_revisions db'). rv_finding x \<in> fi_id ` set (vb_findings db')"
    using inv f by (auto simp: review_inv_def revisions r)
  moreover have "length (vb_ncrs db') = rows_where (\<lambda>f. fi_ncr f \<noteq> None) (vb_findings db')"
    unfolding findings using ncrs inv f dist kept
    by (subst rows_where_replaced) (auto simp: review_inv_def)
  moreover have "length (vb_inspections db') = rows_where (\<lambda>f. fi_inspection f \<noteq> None) (vb_findings db')"
    unfolding findings using inspections inv f dist kept
    by (subst rows_where_replaced) (auto simp: review_inv_def)
  ultimately show ?thesis using dist by (simp add: review_inv_def ids)
qed

text \<open>The invariant does not look at the ledger or at the corrective actions.\<close>

definition core :: "review_db \<Rightarrow> finding list \<times> revision list \<times> nat \<times> nat" where
  "core db = (vb_findings db, vb_revisions db, length (vb_ncrs db), length (vb_inspections db))"

lemma core_cong: "core db' = core db \<Longrightarrow> review_inv H column db' = review_inv H column db"
  by (simp add: core_def review_inv_def revisions_of_def)

lemma core_audit [simp]: "core (snd (record_audit H mo u action k severity p n m db)) = core db"
  by (simp add: record_audit_def core_def split: sum.split)

lemma core_return [simp]: "core (snd (and_then m (\<lambda>_ db. (Inr x, db)))) = core (snd m)"
  by (auto simp: and_then_def split: prod.split sum.split)

lemma stored_keeps:
  assumes "stored column f = Some s"
  shows "fi_id s = fi_id f" "fi_status s = fi_status f" "fi_ncr s = fi_ncr f" "fi_inspection s = fi_inspection f"
    "fi_count s = fi_count f"
  using assms by (auto simp: stored_def bind_eq_Some_conv)

lemma stored_settled:
  "settled_columns column \<Longrightarrow> stored column f = Some s \<Longrightarrow> stored column s = Some s"
  by (auto simp: stored_def settled_columns_def bind_eq_Some_conv)

lemma stored_other_fields:
  assumes "stored column f = Some f" "fi_title f' = fi_title f" "fi_description f' = fi_description f"
    "fi_level f' = fi_level f" "fi_score f' = fi_score f" "fi_element f' = fi_element f" "fi_guid f' = fi_guid f"
  shows "stored column f' = Some f'"
proof -
  from assms(1) obtain t d l s e g where c: "column ''title'' (fi_title f) = Some t"
      "column ''description'' (fi_description f) = Some d" "column ''risk_level'' (fi_level f) = Some l"
      "column ''risk_score'' (fi_score f) = Some s" "column ''structural_element_id'' (fi_element f) = Some e"
      "column ''bim_guid'' (fi_guid f) = Some g"
    and same: "f\<lparr>fi_title := t, fi_description := d, fi_level := l, fi_score := s, fi_element := e, fi_guid := g\<rparr> = f"
    unfolding stored_def bind_eq_Some_conv by auto
  have "t = fi_title f" "d = fi_description f" "l = fi_level f" "s = fi_score f" "e = fi_element f" "g = fi_guid f"
    using arg_cong [OF same, of fi_title] arg_cong [OF same, of fi_description] arg_cong [OF same, of fi_level]
      arg_cong [OF same, of fi_score] arg_cong [OF same, of fi_element] arg_cong [OF same, of fi_guid] by simp_all
  with c show ?thesis using assms(2-7) by (simp add: stored_def)
qed

lemma put_same:
  assumes "distinct (map fi_id (vb_findings db))" "f \<in> set (vb_findings db)"
  shows "put_finding f db = db"
proof -
  have "update_where (\<lambda>x. fi_id x = fi_id f) (\<lambda>_. f) (vb_findings db) = vb_findings db"
    unfolding update_where_def by (rule map_idI) (use assms in \<open>auto dest: distinct_map_key\<close>)
  then show ?thesis by (simp add: put_finding_def)
qed

lemma resealed_keeps [simp]:
  "rv_finding (resealed H k v r) = rv_finding r" "rv_number (resealed H k v r) = rv_number r"
  "rv_previous (resealed H k v r) = rv_previous r" "rv_by (resealed H k v r) = rv_by r"
  "rv_at (resealed H k v r) = rv_at r"
  "rv_snapshot (resealed H k v r) = dict_put k v (rv_snapshot r)"
  "rv_hash (resealed H k v r) = revision_digest H (resealed H k v r)"
  by (simp_all add: resealed_def Let_def revision_digest_def revision_text_def)

text \<open>
  Saving the finding and adding a revision keeps the invariant, also when the revision is sealed
  again with one more entry.
\<close>

lemma logged:
  assumes inv: "review_inv H column db" and f: "f \<in> set (vb_findings db)" and col: "settled_columns column"
    and s: "stored column f' = Some s" "fi_id f' = fi_id f" "fi_count f' = fi_count f"
    and db0: "vb_findings db0 = vb_findings db" "vb_revisions db0 = vb_revisions db"
    and ncrs: "length (vb_ncrs db0) = length (vb_ncrs db) + (if fi_ncr f' \<noteq> None \<and> fi_ncr f = None then 1 else 0)"
      "fi_ncr f \<noteq> None \<Longrightarrow> fi_ncr f' \<noteq> None"
    and inspections: "length (vb_inspections db0) =
        length (vb_inspections db) + (if fi_inspection f' \<noteq> None \<and> fi_inspection f = None then 1 else 0)"
      "fi_inspection f \<noteq> None \<Longrightarrow> fi_inspection f' \<noteq> None"
    and link: "fi_status f' = Fs_Escalated \<longleftrightarrow> fi_ncr f' \<noteq> None \<or> fi_inspection f' \<noteq> None"
  obtains r db2 where "add_revision H at_time reason who notes f' (put_finding s db0) = (Inr r, db2)"
    "review_inv H column db2" "\<And>k v. k \<noteq> ''status'' \<Longrightarrow> review_inv H column (put_revision (resealed H k v r) db2)"
proof -
  let ?db1 = "put_finding s db0" and ?s = "s\<lparr>fi_count := Suc (fi_count f)\<rparr>"
  note sf = stored_keeps [OF s(1)]
  have hist: "history_ok H f (revisions_of (fi_id f) db)" using inv f by (auto simp: review_inv_def)
  have revs: "revisions_of k ?db1 = revisions_of k db" for k
    by (simp add: revisions_of_def put_finding_def db0)
  have "chained H [] 1 (revisions_of (fi_id f') ?db1)" "length (revisions_of (fi_id f') ?db1) = fi_count f'"
    using hist by (simp_all add: revs s history_ok_def)
  then obtain r where add: "add_revision H at_time reason who notes f' ?db1 =
       (Inr r, ?db1\<lparr>vb_revisions := vb_revisions ?db1 @ [r],
           vb_findings := update_where (\<lambda>x. fi_id x = fi_id f') (\<lambda>x. x\<lparr>fi_count := Suc (fi_count f')\<rparr>) (vb_findings ?db1)\<rparr>)"
      and r: "rv_finding r = fi_id f'" "rv_number r = Suc (fi_count f')" "rv_hash r = revision_digest H r"
        "rv_previous r = head_hash [] (revisions_of (fi_id f') ?db1)" "rv_snapshot r = snapshot f'"
    by (rule add_revision_next)
  define db2 where "db2 = ?db1\<lparr>vb_revisions := vb_revisions ?db1 @ [r],
           vb_findings := update_where (\<lambda>x. fi_id x = fi_id f') (\<lambda>x. x\<lparr>fi_count := Suc (fi_count f')\<rparr>) (vb_findings ?db1)\<rparr>"
  have fs: "vb_findings db2 = update_where (\<lambda>x. fi_id x = fi_id f) (\<lambda>_. ?s) (vb_findings db)"
    by (auto simp: db2_def put_finding_def db0 update_where_def s sf)
  have rs: "vb_revisions db2 = vb_revisions db @ [r]" by (simp add: db2_def put_finding_def db0)
  have others: "vb_ncrs db2 = vb_ncrs db0" "vb_inspections db2 = vb_inspections db0"
    by (simp_all add: db2_def put_finding_def)
  have same: "stored column ?s = Some ?s"
    by (rule stored_other_fields [OF stored_settled [OF col s(1)]]) simp_all
  have status: "map_of (rv_snapshot r) ''status'' = Some (JStr (status_text (fi_status f')))"
    by (simp add: r snapshot_def)
  have any: "review_inv H column db3" if "core db3 = (vb_findings db2, vb_revisions db @ [r'],
      length (vb_ncrs db2), length (vb_inspections db2))"
      and r': "rv_finding r' = rv_finding r" "rv_number r' = rv_number r" "rv_previous r' = rv_previous r"
        "rv_hash r' = revision_digest H r'" "map_of (rv_snapshot r') ''status'' = map_of (rv_snapshot r) ''status''"
    for r' db3
    using that(1) s r r' status ncrs inspections link same
    by (intro inv_logged [OF inv f, of db3 ?s r'])
      (simp_all add: core_def fs others sf revs)
  have "review_inv H column db2" by (rule any [of db2 r]) (simp_all add: core_def rs r)
  moreover have "review_inv H column (put_revision (resealed H k v r) db2)" if "k \<noteq> ''status''" for k v
  proof (rule any [of _ "resealed H k v r"])
    have "rv_number x \<noteq> rv_number r" if "x \<in> set (vb_revisions db)" "rv_finding x = rv_finding r" for x
      using chained_below [of H "fi_id f" db x] hist that by (simp add: history_ok_def r s)
    then have "update_where (\<lambda>x. rv_finding x = rv_finding r \<and> rv_number x = rv_number r)
        (\<lambda>_. resealed H k v r) (vb_revisions db) = vb_revisions db"
      by (intro update_where_none) auto
    then show "core (put_revision (resealed H k v r) db2) =
        (vb_findings db2, vb_revisions db @ [resealed H k v r], length (vb_ncrs db2), length (vb_inspections db2))"
      by (simp add: put_revision_def core_def rs update_where_append)
  qed (use that in simp_all)
  ultimately show ?thesis using add that unfolding db2_def by blast
qed

lemma core_bind: "core (snd (and_then m k)) = (case m of (Inl e, s) \<Rightarrow> core s | (Inr x, s) \<Rightarrow> core (snd (k x s)))"
  by (auto simp: and_then_def split: prod.split sum.split)

lemma modified_by_keeps [simp]:
  "fi_id (modified_by mods f) = fi_id f" "fi_count (modified_by mods f) = fi_count f"
  "fi_ncr (modified_by mods f) = fi_ncr f" "fi_inspection (modified_by mods f) = fi_inspection f"
  "fi_status (modified_by mods f) = Fs_Modified"
  by (simp_all add: modified_by_def)

lemma decided_keeps [simp]:
  "fi_id (decided d mods f) = fi_id f" "fi_count (decided d mods f) = fi_count f"
  "fi_ncr (decided d mods f) = fi_ncr f" "fi_inspection (decided d mods f) = fi_inspection f"
  by (simp_all add: decided_def)

lemma decided_status:
  "fi_status (decided d mods f) =
     (if d = ''accept'' then Fs_Accepted else if d = ''reject'' then Fs_Rejected
      else if d = ''modify'' then Fs_Modified else fi_status f)"
  by (simp add: decided_def)

lemma noted_keeps [simp]:
  "fi_id (noted u now notes f) = fi_id f" "fi_count (noted u now notes f) = fi_count f"
  "fi_ncr (noted u now notes f) = fi_ncr f" "fi_inspection (noted u now notes f) = fi_inspection f"
  "fi_status (noted u now notes f) = fi_status f"
  by (simp_all add: noted_def)

lemma inv_member:
  assumes "review_inv H column db" "f \<in> set (vb_findings db)"
  shows "stored column f = Some f" "put_finding f db = db" "history_ok H f (revisions_of (fi_id f) db)"
    "fi_status f = Fs_Escalated \<longleftrightarrow> fi_ncr f \<noteq> None \<or> fi_inspection f \<noteq> None"
  using assms put_same [of db f] by (auto simp: review_inv_def)

lemma review_preserves:
  assumes inv: "review_inv H column db" and f: "f \<in> set (vb_findings db)" and col: "settled_columns column"
  shows "review_inv H column (snd (review H column mo u decision notes mods f db))"
proof -
  let ?f = "noted u (mo_now mo) notes (decided decision mods f)"
  let ?open = "decision \<in> set [''accept'', ''reject'', ''modify'', ''escalate''] \<and> fi_status f \<in> {Fs_Pending, Fs_Modified}"
  show ?thesis
  proof (cases "?open \<and> stored column ?f \<noteq> None")
    case False
    then have "snd (review H column mo u decision notes mods f db) = db"
      by (auto simp: review_def save_finding_def Let_def del: not_None_eq)
    then show ?thesis using inv by simp
  next
    case True
    then obtain s where s: "stored column ?f = Some s" and ok: ?open by auto
    have run: "review H column mo u decision notes mods f db =
        seal_decision H mo u decision notes (state_before f) ?f (put_finding s db)"
    proof -
      have "\<not> decision \<notin> set [''accept'', ''reject'', ''modify'', ''escalate'']"
          "\<not> fi_status f \<notin> {Fs_Pending, Fs_Modified}" using ok by blast+
      then show ?thesis unfolding review_def Let_def save_finding_def s by (simp only: if_False option.case and_then_simps)
    qed
    have link: "fi_status ?f = Fs_Escalated \<longleftrightarrow> fi_ncr ?f \<noteq> None \<or> fi_inspection ?f \<noteq> None"
    proof -
      have "fi_status f \<noteq> Fs_Escalated" using ok by auto
      then have "fi_ncr f = None" "fi_inspection f = None" using inv_member(4) [OF inv f] by auto
      then show ?thesis using \<open>fi_status f \<noteq> Fs_Escalated\<close> by (simp add: decided_status)
    qed
    obtain r db2 where add: "add_revision H (mo_recorded mo) ''decision'' (Some (ac_id u)) (decision @ '': '' @ notes) ?f
          (put_finding s db) = (Inr r, db2)"
        and sealed: "\<And>k v. k \<noteq> ''status'' \<Longrightarrow> review_inv H column (put_revision (resealed H k v r) db2)"
      by (rule logged [OF inv f col s _ _ refl refl _ _ _ _ link]) auto
    have "core (snd (review H column mo u decision notes mods f db)) =
        core (put_revision (resealed H ''decision_hash'' (JStr (decision_hash H r (Some (ac_id u)) decision)) r) db2)"
      unfolding run seal_decision_def add and_then_simps Let_def by (simp split del: if_split)
    from core_cong [OF this] sealed show ?thesis by simp
  qed
qed

lemma asked_preserves:
  assumes inv: "review_inv H column db" and f: "f \<in> set (vb_findings db)" and col: "settled_columns column"
  shows "review_inv H column (snd (request_supplementary_evidence H mo u request_type notes f db))"
proof (cases "request_type \<in> set [''supplementary'', ''live_stream'', ''retest_ndt'']")
  case True
  obtain r db2 where "add_revision H (mo_recorded mo) ''new_evidence'' (Some (ac_id u))
        (''Supplementary evidence requested ('' @ request_type @ ''): '' @ notes) f (put_finding f db) = (Inr r, db2)"
      and inv2: "review_inv H column db2"
    by (rule logged [OF inv f col inv_member(1) [OF inv f] refl refl refl refl _ _ _ _ inv_member(4) [OF inv f]]) auto
  then have "core (snd (request_supplementary_evidence H mo u request_type notes f db)) = core db2"
    using True inv_member(2) [OF inv f] by (simp add: request_supplementary_evidence_def)
  from core_cong [OF this] inv2 show ?thesis by simp
next
  case False
  then show ?thesis using inv by (simp add: request_supplementary_evidence_def)
qed

lemma signed_preserves:
  assumes inv: "review_inv H column db" and f: "f \<in> set (vb_findings db)" and col: "settled_columns column"
  shows "review_inv H column (snd (director_signoff H mo usr decision notes f db))"
proof (cases "\<exists>u. usr = Some u \<and> fi_status f \<in> {Fs_Accepted, Fs_Modified, Fs_Escalated} \<and> decision \<in> set [''approve'', ''return'']")
  case True
  then obtain u where u: "usr = Some u" "fi_status f \<in> {Fs_Accepted, Fs_Modified, Fs_Escalated}"
      "decision \<in> set [''approve'', ''return'']" by blast
  obtain r db2 where add: "add_revision H (mo_recorded mo) ''decision'' (Some (ac_id u))
        (py_strip (''Director sign-off: '' @ decision @ ''. '' @ notes)) f (put_finding f db) = (Inr r, db2)"
      and sealed: "\<And>k v. k \<noteq> ''status'' \<Longrightarrow> review_inv H column (put_revision (resealed H k v r) db2)"
    by (rule logged [OF inv f col inv_member(1) [OF inv f] refl refl refl refl _ _ _ _ inv_member(4) [OF inv f]]) auto
  have "core (snd (director_signoff H mo usr decision notes f db)) =
      core (put_revision (resealed H ''director_signoff'' (JObj [(''decision'', JStr decision),
        (''director'', JStr (display_name u)),
        (''signoff_hash'', JStr (decision_hash H r (Some (ac_id u)) (''director_'' @ decision))),
        (''signed_at'', JStr (iso_instant (rv_at r)))]) r) db2)"
    using u add inv_member(2) [OF inv f] by (auto simp: director_signoff_def Let_def)
  from core_cong [OF this] sealed show ?thesis by simp
next
  case False
  then show ?thesis using inv by (auto simp: director_signoff_def split: option.split)
qed

lemma escalated_by_keeps [simp]:
  "fi_id (escalated_by u now f) = fi_id f" "fi_count (escalated_by u now f) = fi_count f"
  "fi_ncr (escalated_by u now f) = fi_ncr f" "fi_inspection (escalated_by u now f) = fi_inspection f"
  "fi_status (escalated_by u now f) = Fs_Escalated" "fi_notes (escalated_by u now f) = fi_notes f"
  "fi_title (escalated_by u now f) = fi_title f" "fi_description (escalated_by u now f) = fi_description f"
  "fi_level (escalated_by u now f) = fi_level f" "fi_score (escalated_by u now f) = fi_score f"
  "fi_element (escalated_by u now f) = fi_element f" "fi_guid (escalated_by u now f) = fi_guid f"
  by (simp_all add: escalated_by_def)

text \<open>An escalation whose finding carries a new link leaves the invariant.\<close>

lemma escalation_preserves:
  assumes inv: "review_inv H column db" and f: "f \<in> set (vb_findings db)" and col: "settled_columns column"
    and s: "stored column f' = Some f'" "fi_id f' = fi_id f" "fi_count f' = fi_count f" "fi_status f' = Fs_Escalated"
    and db0: "vb_findings db0 = vb_findings db" "vb_revisions db0 = vb_revisions db"
    and ncrs: "length (vb_ncrs db0) = length (vb_ncrs db) + (if fi_ncr f' \<noteq> None \<and> fi_ncr f = None then 1 else 0)"
      "fi_ncr f \<noteq> None \<Longrightarrow> fi_ncr f' \<noteq> None"
    and inspections: "length (vb_inspections db0) =
        length (vb_inspections db) + (if fi_inspection f' \<noteq> None \<and> fi_inspection f = None then 1 else 0)"
      "fi_inspection f \<noteq> None \<Longrightarrow> fi_inspection f' \<noteq> None"
    and link: "fi_ncr f' \<noteq> None \<or> fi_inspection f' \<noteq> None"
  shows "review_inv H column (snd (log_escalation H column mo u notes action severity new_state f' db0))"
proof -
  have esc: "fi_status f' = Fs_Escalated \<longleftrightarrow> fi_ncr f' \<noteq> None \<or> fi_inspection f' \<noteq> None"
    using s(4) link by simp
  obtain r db2 where add: "add_revision H (mo_recorded mo) ''escalated'' (Some (ac_id u)) notes f' (put_finding f' db0) = (Inr r, db2)"
      and inv2: "review_inv H column db2"
    by (rule logged [OF inv f col s(1-3) db0 ncrs inspections esc])
  have "core (snd (log_escalation H column mo u notes action severity new_state f' db0)) = core db2"
    by (simp add: log_escalation_def save_finding_def s(1) add)
  from core_cong [OF this] inv2 show ?thesis by simp
qed

lemma inspected_preserves:
  assumes inv: "review_inv H column db" and f: "f \<in> set (vb_findings db)" and col: "settled_columns column"
  shows "review_inv H column (snd (trigger_inspection H column mo pk ref u ty priority notes f db))"
proof (cases "fi_inspection f")
  case None
  let ?f = "(escalated_by u (mo_now mo) f)\<lparr>fi_inspection := Some pk, fi_notes := or_default notes (fi_notes f)\<rparr>"
  let ?db = "db\<lparr>vb_inspections := vb_inspections db @ [inspection_for pk ref u ty priority notes f]\<rparr>"
  have "stored column ?f = Some ?f"
    by (rule stored_other_fields [OF inv_member(1) [OF inv f]]) simp_all
  then have "review_inv H column (snd (log_escalation H column mo u (''Statutory inspection '' @ ref @ '' triggered.'')
      ''evidence.finding.trigger_inspection'' ''High'' (JObj [(''inspection_reference'', JStr ref)]) ?f ?db))"
    by (rule escalation_preserves [OF inv f col]) (simp_all add: None del: not_None_eq)
  moreover have "core (snd (trigger_inspection H column mo pk ref u ty priority notes f db)) =
      core (snd (log_escalation H column mo u (''Statutory inspection '' @ ref @ '' triggered.'')
      ''evidence.finding.trigger_inspection'' ''High'' (JObj [(''inspection_reference'', JStr ref)]) ?f ?db))"
    unfolding trigger_inspection_def Let_def using None by (simp only: core_return) simp
  ultimately show ?thesis using core_cong by blast
next
  case (Some a)
  then show ?thesis using inv by (simp add: trigger_inspection_def)
qed

lemma reported_preserves:
  assumes inv: "review_inv H column db" and f: "f \<in> set (vb_findings db)" and col: "settled_columns column"
  shows "review_inv H column (snd (issue_ncr H column mo pk ref capa_ref u c f db))"
proof (cases "fi_status f = Fs_Rejected \<or> fi_ncr f \<noteq> None")
  case False
  let ?n = "ncr_for pk ref u c f"
  let ?f = "(escalated_by u (mo_now mo) f)\<lparr>fi_ncr := Some pk\<rparr>"
  let ?log = "log_escalation H column mo u
      (''Formal NCR '' @ ref @ '' issued'' @ (if capa_for capa_ref c ?n = [] then [] else '' with corrective action '' @ capa_ref) @ ''.'')
      ''evidence.finding.issue_ncr'' (if nc_severity ?n = ''Critical'' then ''Critical'' else ''High'')
      (JObj [(''ncr_reference'', JStr ref), (''severity'', JStr (nc_severity ?n))]) ?f
      (db\<lparr>vb_ncrs := vb_ncrs db @ [?n], vb_capas := vb_capas db @ capa_for capa_ref c ?n\<rparr>)"
  have "stored column ?f = Some ?f"
    by (rule stored_other_fields [OF inv_member(1) [OF inv f]]) simp_all
  then have "review_inv H column (snd ?log)"
    by (rule escalation_preserves [OF inv f col]) (use False in \<open>simp_all del: not_None_eq\<close>)
  moreover have "core (snd (issue_ncr H column mo pk ref capa_ref u c f db)) = core (snd ?log)"
  proof -
    have "fi_status f \<noteq> Fs_Rejected" "\<not> fi_ncr f \<noteq> None" using False by simp_all
    then show ?thesis unfolding issue_ncr_def Let_def by (simp only: if_False core_return)
  qed
  ultimately show ?thesis using core_cong by blast
next
  case True
  then show ?thesis using inv by (auto simp: issue_ncr_def)
qed

text \<open>The evidence of a finding is not part of what the invariant speaks of.\<close>

lemma set_evidence_preserves:
  assumes "review_inv H column db"
  shows "review_inv H column (set_evidence k evidence db)"
proof -
  let ?g = "\<lambda>x. x\<lparr>fi_evidence := evidence\<rparr>"
  have ids: "map fi_id (update_where P ?g fs) = map fi_id fs" for P fs
    by (simp add: map_update_where)
  have set_ids: "fi_id ` set (update_where P ?g fs) = fi_id ` set fs" for P fs
    by (metis ids list.set_map)
  have rows: "rows_where (\<lambda>f. fi_ncr f \<noteq> None) (update_where P ?g fs) = rows_where (\<lambda>f. fi_ncr f \<noteq> None) fs"
    "rows_where (\<lambda>f. fi_inspection f \<noteq> None) (update_where P ?g fs) = rows_where (\<lambda>f. fi_inspection f \<noteq> None) fs" for P fs
    by (induction fs) (simp_all add: rows_where_def update_where_def)
  have revs: "revisions_of j (set_evidence k evidence db) = revisions_of j db" for j
    by (simp add: revisions_of_def set_evidence_def)
  have each: "history_ok H y (revisions_of (fi_id y) db) \<and> stored column y = Some y \<and>
      (fi_status y = Fs_Escalated \<longleftrightarrow> fi_ncr y \<noteq> None \<or> fi_inspection y \<noteq> None)" if "y \<in> set (vb_findings db)" for y
    using assms that unfolding review_inv_def by blast
  have "history_ok H x (revisions_of (fi_id x) db) \<and> stored column x = Some x \<and>
      (fi_status x = Fs_Escalated \<longleftrightarrow> fi_ncr x \<noteq> None \<or> fi_inspection x \<noteq> None)"
    if "x \<in> set (update_where (\<lambda>x. fi_id x = k) ?g (vb_findings db))" for x
    using that
  proof (cases rule: in_update_whereE)
    case (1 y)
    note y = each [OF 1(1)]
    then have "stored column y = Some y" by blast
    then have "stored column x = Some x"
      by (rule stored_other_fields) (simp_all add: 1)
    with y show ?thesis by (simp add: 1 history_ok_def)
  next
    case 2
    with each show ?thesis by blast
  qed
  with assms show ?thesis
    unfolding review_inv_def revs by (simp add: set_evidence_def ids set_ids rows del: not_None_eq)
qed

lemma rescored_preserves:
  assumes inv: "review_inv H column db" and f: "f \<in> set (vb_findings db)" and col: "settled_columns column"
  shows "review_inv H column (snd (rescore H column at_time who score level reasoning description evidence f db))"
proof -
  let ?f = "f\<lparr>fi_score := score, fi_level := level, fi_reasoning := reasoning, fi_description := description,
                  fi_evidence := evidence\<rparr>"
  have link: "fi_status ?f = Fs_Escalated \<longleftrightarrow> fi_ncr ?f \<noteq> None \<or> fi_inspection ?f \<noteq> None"
    using inv_member(4) [OF inv f] by simp
  show ?thesis
  proof (cases "stored column ?f")
    case None
    then show ?thesis using set_evidence_preserves [OF inv] by (simp add: rescore_def save_finding_def Let_def)
  next
    case (Some s)
    have "fi_id s = fi_id f" using stored_keeps(1) [OF Some] by simp
    moreover obtain r db2 where "add_revision H at_time ''new_evidence'' who ''Correlation re-run with new evidence.'' ?f
        (put_finding s db) = (Inr r, db2)" and inv2: "review_inv H column db2"
      by (rule logged [OF inv f col Some _ _ refl refl _ _ _ _ link]) auto
    ultimately show ?thesis by (simp add: rescore_def save_finding_def Let_def Some)
  qed
qed

lemma created_preserves:
  assumes inv: "review_inv H column db" and fresh: "fi_id f \<notin> fi_id ` set (vb_findings db)"
    and col: "settled_columns column"
  shows "review_inv H column (snd (create_finding H column at_time who notes f db))"
proof -
  let ?f = "f\<lparr>fi_status := Fs_Pending, fi_reviewer := None, fi_reviewed := None, fi_notes := [], fi_ncr := None,
                 fi_inspection := None, fi_count := 0\<rparr>"
  show ?thesis
  proof (cases "stored column ?f")
    case None
    then show ?thesis using inv by (simp add: create_finding_def Let_def)
  next
    case (Some s)
    note sf = stored_keeps [OF Some]
    let ?db = "db\<lparr>vb_findings := vb_findings db @ [s]\<rparr>" and ?s = "s\<lparr>fi_count := Suc 0\<rparr>"
    have "\<forall>r \<in> set (vb_revisions db). rv_finding r \<noteq> fi_id f"
      using inv fresh unfolding review_inv_def by metis
    then have none: "revisions_of (fi_id f) db = []" by (simp add: revisions_of_def filter_empty_conv)
    then have none': "revisions_of (fi_id f) ?db = []" by (simp add: revisions_of_def)
    obtain r where add: "add_revision H at_time ''created'' who notes ?f ?db =
       (Inr r, ?db\<lparr>vb_revisions := vb_revisions ?db @ [r],
           vb_findings := update_where (\<lambda>x. fi_id x = fi_id ?f) (\<lambda>x. x\<lparr>fi_count := Suc (fi_count ?f)\<rparr>) (vb_findings ?db)\<rparr>)"
        and r: "rv_finding r = fi_id ?f" "rv_number r = Suc (fi_count ?f)" "rv_hash r = revision_digest H r"
        "rv_previous r = head_hash [] (revisions_of (fi_id ?f) ?db)" "rv_snapshot r = snapshot ?f"
      by (rule add_revision_next [of H ?f ?db]) (simp_all add: none')
    define db2 where "db2 = snd (create_finding H column at_time who notes f db)"
    have others: "\<forall>x \<in> set (vb_findings db). fi_id x \<noteq> fi_id f" using fresh by (metis imageI)
    then have "update_where (\<lambda>x. fi_id x = fi_id f) (\<lambda>x. x\<lparr>fi_count := Suc 0\<rparr>) (vb_findings db) = vb_findings db"
      by (rule update_where_none)
    then have db2: "vb_findings db2 = vb_findings db @ [?s]" "vb_revisions db2 = vb_revisions db @ [r]"
        "vb_ncrs db2 = vb_ncrs db" "vb_inspections db2 = vb_inspections db"
      using sf(1) by (simp_all add: db2_def create_finding_def Let_def Some add update_where_append)
    have revs: "revisions_of k db2 = (if k = fi_id f then [r] else revisions_of k db)" for k
      using none by (simp add: revisions_of_def db2 r)
    have "history_ok H ?s [r]"
      using r sf by (simp add: history_ok_def none' head_hash_def snapshot_def)
    moreover have "stored column ?s = Some ?s"
      by (rule stored_other_fields [OF stored_settled [OF col Some]]) simp_all
    ultimately have "review_inv H column db2"
      using inv fresh others sf r(1) by (auto simp: review_inv_def db2 revs rows_where_def split: if_splits)
    then show ?thesis by (simp add: db2_def)
  qed
qed

lemma review_step_preserves:
  "review_step H column db db' \<Longrightarrow> settled_columns column \<Longrightarrow> review_inv H column db \<Longrightarrow> review_inv H column db'"
  by (induction rule: review_step.induct)
    (simp_all add: created_preserves rescored_preserves review_preserves asked_preserves inspected_preserves
      reported_preserves signed_preserves)

lemma review_run_inv: "review_run H column db \<Longrightarrow> settled_columns column \<Longrightarrow> review_inv H column db"
proof (induction rule: review_run.induct)
  case start
  show ?case by (simp add: review_inv_def empty_review_db_def rows_where_def)
next
  case (step db db')
  then show ?case by (blast intro: review_step_preserves)
qed

lemma added:
  assumes "add_revision H at_time reason who notes f db = (Inr r, db')"
  shows "r = new_revision H at_time reason who notes f db" "vb_revisions db' = vb_revisions db @ [r]"
    "vb_findings db' = update_where (\<lambda>x. fi_id x = fi_id f) (\<lambda>x. x\<lparr>fi_count := rv_number r\<rparr>) (vb_findings db)"
    "update_where (\<lambda>x. rv_finding x = rv_finding r \<and> rv_number x = rv_number r) g (vb_revisions db) = vb_revisions db"
  using assms by (auto simp: add_revision_def Let_def list_ex_iff split: if_splits intro!: update_where_none)

lemma new_revision_fields [simp]:
  "rv_snapshot (new_revision H at_time reason who notes f db) = snapshot f"
  "rv_finding (new_revision H at_time reason who notes f db) = fi_id f"
  "rv_by (new_revision H at_time reason who notes f db) = who"
  "rv_at (new_revision H at_time reason who notes f db) = at_time"
  "rv_number (new_revision H at_time reason who notes f db) = Suc (fi_count f)"
  "rv_hash (new_revision H at_time reason who notes f db) = revision_digest H (new_revision H at_time reason who notes f db)"
  by (simp_all add: new_revision_def Let_def revision_digest_def revision_text_def)

lemma audit_frame: "vb_revisions (snd (record_audit H mo u action k severity p n m db)) = vb_revisions db"
  by (simp add: record_audit_def split: sum.split)

text \<open>The text a revision is hashed over determines its three parts.\<close>

lemma revision_text_eq:
  assumes "revision_text r = revision_text x"
    and "CHR '':'' \<notin> set (rv_previous r)" "CHR '':'' \<notin> set (rv_previous x)"
  shows "rv_previous r = rv_previous x \<and> rv_number r = rv_number x \<and>
    spaced_json (JObj (rv_snapshot r)) = spaced_json (JObj (rv_snapshot x))"
proof -
  have colon: "CHR '':'' \<notin> set (show_nat n)" for n
    by (auto simp: is_digit_def dest: show_nat_digits)
  have "rv_previous r @ CHR '':'' # (show_nat (rv_number r) @ CHR '':'' # spaced_json (JObj (rv_snapshot r))) =
      rv_previous x @ CHR '':'' # (show_nat (rv_number x) @ CHR '':'' # spaced_json (JObj (rv_snapshot x)))"
    using assms(1) unfolding revision_text_def by (simp only: append_Cons append_Nil)
  from split_at_colon [OF this assms(2,3)] have prev: "rv_previous r = rv_previous x"
    and after: "show_nat (rv_number r) @ CHR '':'' # spaced_json (JObj (rv_snapshot r)) =
      show_nat (rv_number x) @ CHR '':'' # spaced_json (JObj (rv_snapshot x))" by blast+
  from split_at_colon [OF after colon colon] prev show ?thesis by (simp only: show_nat_inj)
qed

text \<open>A revision as it was before a digest was put into it.\<close>

definition unsealed :: "(string \<Rightarrow> string) \<Rightarrow> string \<Rightarrow> revision \<Rightarrow> revision" where
  "unsealed H k r = (let r' = r\<lparr>rv_snapshot := filter (\<lambda>(k', _). k' \<noteq> k) (rv_snapshot r)\<rparr>
                     in r'\<lparr>rv_hash := revision_digest H r'\<rparr>)"

lemma filter_dict_put: "k \<notin> fst ` set d \<Longrightarrow> filter (\<lambda>(k', _). k' \<noteq> k) (dict_put k v d) = d"
  by (induction d) (auto simp: filter_id_conv)

lemma unsealed_resealed:
  assumes "k \<notin> fst ` set (rv_snapshot r)" "rv_hash r = revision_digest H r"
  shows "unsealed H k (resealed H k v r) = r"
proof -
  have "revision_digest H (r\<lparr>rv_hash := h\<rparr>) = revision_digest H r" for h
    by (simp add: revision_digest_def revision_text_def)
  then show ?thesis
    using assms by (simp add: unsealed_def resealed_def Let_def filter_dict_put)
qed

lemma guards_passed:
  "(if A then (Inl e, s) else if \<not> C then (Inl e', s) else X) = (Inr y, s') \<Longrightarrow> C \<and> X = (Inr y, s')"
  by (auto split: if_splits)

text \<open>A successful review, taken apart.\<close>

lemma review_Inr:
  assumes "review H column mo u decision notes mods f db = (Inr digest, db')"
  obtains r where
    "digest = decision_hash H r (Some (ac_id u)) decision" "rv_by r = Some (ac_id u)" "rv_at r = mo_recorded mo"
    "rv_snapshot r = snapshot (noted u (mo_now mo) notes (decided decision mods f))" "rv_hash r = revision_digest H r"
    "rv_finding r = fi_id f"
    "vb_revisions db' = vb_revisions db @ [resealed H ''decision_hash'' (JStr digest) r]"
    "fi_status f \<in> {Fs_Pending, Fs_Modified}"
proof -
  let ?f = "noted u (mo_now mo) notes (decided decision mods f)"
  obtain s where ok: "fi_status f \<in> {Fs_Pending, Fs_Modified}" "stored column ?f = Some s"
      and run: "seal_decision H mo u decision notes (state_before f) ?f (put_finding s db) = (Inr digest, db')"
  proof -
    have "fi_status f \<in> {Fs_Pending, Fs_Modified} \<and>
        and_then (save_finding column ?f db) (\<lambda>_. seal_decision H mo u decision notes (state_before f) ?f) = (Inr digest, db')"
      using assms unfolding review_def Let_def by (rule guards_passed)
    then show ?thesis using that by (cases "stored column ?f") (simp_all add: save_finding_def)
  qed
  from run [unfolded seal_decision_def] obtain r db2
    where add: "add_revision H (mo_recorded mo) ''decision'' (Some (ac_id u)) (decision @ '': '' @ notes) ?f
        (put_finding s db) = (Inr r, db2)"
      and rest: "(let digest = decision_hash H r (Some (ac_id u)) decision;
           db = put_revision (resealed H ''decision_hash'' (JStr digest) r) db2
       in and_then (record_audit H mo u (''evidence.finding.'' @ decision) (fi_id ?f)
              (if decision \<noteq> ''reject'' then ''High'' else ''Normal'') (JObj (state_before f))
              (JObj [(''status'', JStr (status_text (fi_status ?f))), (''risk_level'', fi_level ?f)])
              (JObj [(''decision_hash'', JStr digest), (''notes'', JStr notes)]) db)
            (\<lambda>_ db. (Inr digest, db))) = (Inr digest, db')"
    by (rule and_then_InrE)
  define db3 where "db3 = put_revision (resealed H ''decision_hash'' (JStr (decision_hash H r (Some (ac_id u)) decision)) r) db2"
  from rest [unfolded Let_def, folded db3_def] have "digest = decision_hash H r (Some (ac_id u)) decision"
      "\<exists>action sev p n m. db' = snd (record_audit H mo u action (fi_id ?f) sev p n m db3)"
    by (auto elim!: and_then_InrE) (metis snd_conv)+
  moreover have "vb_revisions db3 = vb_revisions db @ [resealed H ''decision_hash'' (JStr (decision_hash H r (Some (ac_id u)) decision)) r]"
    by (simp add: db3_def put_revision_def added(2,4) [OF add] update_where_append) (simp add: put_finding_def)
  ultimately show ?thesis
    using that [of r] ok(1) added(1) [OF add] by (auto simp: audit_frame)
qed

section \<open>Results\<close>

text \<open>
  A history is in order when its revisions are numbered from one, each names the digest of the one
  before it and each verifies: what the service keeps for every finding. \<^verbatim>\<open>verify_chain\<close>
  checks the last of the three alone.
\<close>

definition in_order :: "revision list \<Rightarrow> bool" where
  "in_order rs \<longleftrightarrow> rs \<noteq> [] \<and> map rv_number rs = [1..<Suc (length rs)] \<and>
     map rv_previous rs = [] # map rv_hash (butlast rs) \<and> list_all (revision_verifies sha256_hex) rs"

lemma in_order_chained:
  assumes "in_order rs"
  shows "chained sha256_hex [] 1 rs"
proof -
  have "chained sha256_hex p n rs"
    if "rs \<noteq> []" "map rv_number rs = [n..<n + length rs]" "map rv_previous rs = p # map rv_hash (butlast rs)"
      "list_all (revision_verifies sha256_hex) rs" for p n rs
    using that
  proof (induction rs arbitrary: p n)
    case (Cons r rs)
    show ?case
    proof (cases rs)
      case Nil
      with Cons.prems show ?thesis by (simp add: revision_verifies_def)
    next
      case (Cons x xs)
      have "map rv_number rs = [Suc n..<Suc n + length rs]"
        using Cons.prems(2) by (simp add: upt_conv_Cons del: upt_Suc)
      then have "chained sha256_hex (rv_hash r) (Suc n) rs"
        using Cons.prems(3,4) Cons by (intro Cons.IH) simp_all
      with Cons.prems show ?thesis by (simp add: revision_verifies_def upt_conv_Cons del: upt_Suc)
    qed
  qed simp
  from this [of rs 1] assms show ?thesis by (simp add: in_order_def)
qed

lemma run_in_order:
  assumes "review_run sha256_hex column db" "settled_columns column" "f \<in> set (vb_findings db)"
  shows "in_order (revisions_of (fi_id f) db)"
proof -
  let ?rs = "revisions_of (fi_id f) db"
  have ok: "history_ok sha256_hex f ?rs"
    using review_run_inv [OF assms(1,2)] assms(3) by (rule inv_member)
  have hashes: "chained sha256_hex p n rs \<Longrightarrow> list_all (revision_verifies sha256_hex) rs" for p n rs
    using sha256.digest_ne by (induction rs arbitrary: p n) (auto simp: revision_verifies_def revision_digest_def)
  have links: "rs \<noteq> [] \<Longrightarrow> chained sha256_hex p n rs \<Longrightarrow> map rv_previous rs = p # map rv_hash (butlast rs)" for p n rs
  proof (induction rs arbitrary: p n)
    case (Cons r rs)
    then show ?case by (cases rs) auto
  qed simp
  show ?thesis
    using ok hashes [of "[]" 1 ?rs] links [of ?rs "[]" 1] chained_numbers [of sha256_hex "[]" 1 ?rs]
    by (simp add: in_order_def history_ok_def del: upt_Suc)
qed

text \<open>
  C27. Along every run of the review service the history of each finding is complete and in
  order: its revisions are numbered from one up to its count, each names the digest of the one
  before and verifies, and the last snapshot has the status the finding has now.
\<close>
theorem finding_history_sound:
  assumes "review_run sha256_hex column db" "settled_columns column" "f \<in> set (vb_findings db)"
  shows "map rv_number (revisions_of (fi_id f) db) = [1..<Suc (fi_count f)] \<and>
    list_all (revision_verifies sha256_hex) (revisions_of (fi_id f) db) \<and>
    map rv_previous (revisions_of (fi_id f) db) = [] # map rv_hash (butlast (revisions_of (fi_id f) db)) \<and>
    map_of (rv_snapshot (last (revisions_of (fi_id f) db))) ''status'' = Some (JStr (status_text (fi_status f)))"
proof -
  let ?rs = "revisions_of (fi_id f) db"
  have ok: "history_ok sha256_hex f ?rs"
    using review_run_inv [OF assms(1,2)] assms(3) by (rule inv_member)
  with run_in_order [OF assms] show ?thesis
    by (simp add: in_order_def history_ok_def)
qed

text \<open>
  C28. Escalation is accounted for: a finding is escalated exactly when it carries a notice of
  non-conformance or an inspection, and over every run there are as many notices and triggered
  inspections as findings that carry one, so none is issued twice.
\<close>
theorem escalation_accounted:
  assumes "review_run H column db" "settled_columns column"
  shows "length (vb_ncrs db) = rows_where (\<lambda>f. fi_ncr f \<noteq> None) (vb_findings db) \<and>
    length (vb_inspections db) = rows_where (\<lambda>f. fi_inspection f \<noteq> None) (vb_findings db) \<and>
    (\<forall>f \<in> set (vb_findings db). fi_status f = Fs_Escalated \<longleftrightarrow> fi_ncr f \<noteq> None \<or> fi_inspection f \<noteq> None)"
  using review_run_inv [OF assms] by (auto simp: review_inv_def)

text \<open>
  C29. A decision can be checked from what is stored: the revision it wrote names the reviewer,
  the time and the digest, and taking the digest out of its snapshot gives the revision the
  digest was computed over, together with the reviewer, the decision and the time.
\<close>
theorem decision_reproducible:
  assumes "review H column mo u decision notes mods f db = (Inr digest, db')"
  shows "\<exists>r. last (revisions_of (fi_id f) db') = r \<and> rv_by r = Some (ac_id u) \<and> rv_at r = mo_recorded mo \<and>
    map_of (rv_snapshot r) ''decision_hash'' = Some (JStr digest) \<and>
    decision_hash H (unsealed H ''decision_hash'' r) (rv_by r) decision = digest"
proof -
  from assms obtain r where r: "digest = decision_hash H r (Some (ac_id u)) decision" "rv_by r = Some (ac_id u)"
      "rv_at r = mo_recorded mo" "rv_snapshot r = snapshot (noted u (mo_now mo) notes (decided decision mods f))"
      "rv_hash r = revision_digest H r" "rv_finding r = fi_id f"
      "vb_revisions db' = vb_revisions db @ [resealed H ''decision_hash'' (JStr digest) r]"
    by (rule review_Inr)
  have "unsealed H ''decision_hash'' (resealed H ''decision_hash'' (JStr digest) r) = r"
    by (rule unsealed_resealed) (simp_all add: r(4,5) snapshot_def)
  then show ?thesis using r by (simp add: revisions_of_def)
qed

text \<open>
  C30. The digest of the last revision commits to the whole history. Take two histories that are
  in order: numbered from one, every revision naming the digest of the one before and verifying,
  as the history of each finding is along every run of the service. If they end in the same digest
  they have the same number of revisions with the same snapshots, number by number, unless SHA-256
  collides on one of their texts. (Verifying revision by revision is not enough: a rewritten one
  that is sealed again verifies, and only the link from its successor gives it away.)
\<close>
theorem history_head_commits:
  assumes "in_order rs" "in_order rs'" "rv_hash (last rs) = rv_hash (last rs')"
    and "inj_on sha256_hex (revision_text ` (set rs \<union> set rs'))"
    and "list_all (\<lambda>r. wf_json (JObj (rv_snapshot r)) \<and> plain_floats (JObj (rv_snapshot r))) (rs @ rs')"
  shows "map (\<lambda>r. (rv_number r, json_norm (JObj (rv_snapshot r)))) rs =
    map (\<lambda>r. (rv_number r, json_norm (JObj (rv_snapshot r)))) rs'"
proof -
  have no_colon: "CHR '':'' \<notin> set (head_hash [] xs)" if "chained sha256_hex [] 1 xs" for xs
    using that sha256.digest_no_colon
    by (cases xs rule: rev_cases) (auto simp: head_hash_def chained_append revision_digest_def)
  have "head_hash [] rs = head_hash [] rs' \<Longrightarrow> chained sha256_hex [] 1 rs \<Longrightarrow> chained sha256_hex [] 1 rs' \<Longrightarrow>
      inj_on sha256_hex (revision_text ` (set rs \<union> set rs')) \<Longrightarrow>
      list_all (\<lambda>r. wf_json (JObj (rv_snapshot r)) \<and> plain_floats (JObj (rv_snapshot r))) (rs @ rs') \<Longrightarrow>
      map (\<lambda>r. (rv_number r, json_norm (JObj (rv_snapshot r)))) rs =
      map (\<lambda>r. (rv_number r, json_norm (JObj (rv_snapshot r)))) rs'"
  proof (induction rs arbitrary: rs' rule: rev_induct)
    case Nil
    then show ?case using sha256.digest_ne not_sym [OF sha256.digest_ne]
      by (cases rs' rule: rev_cases) (auto simp: head_hash_def chained_append revision_digest_def)
  next
    case (snoc r rs)
    from snoc.prems(1,3) obtain xs x where rs': "rs' = xs @ [x]"
      using snoc.prems(2) sha256.digest_ne not_sym [OF sha256.digest_ne]
      by (cases rs' rule: rev_cases) (auto simp: head_hash_def chained_append revision_digest_def)
    have r: "rv_number r = 1 + length rs" "rv_previous r = head_hash [] rs" "rv_hash r = sha256_hex (revision_text r)"
        "chained sha256_hex [] 1 rs"
      using snoc.prems(2) by (auto simp: chained_append revision_digest_def)
    have x: "rv_number x = 1 + length xs" "rv_previous x = head_hash [] xs" "rv_hash x = sha256_hex (revision_text x)"
        "chained sha256_hex [] 1 xs"
      using snoc.prems(3) by (auto simp: rs' chained_append revision_digest_def)
    have "sha256_hex (revision_text r) = sha256_hex (revision_text x)"
      using snoc.prems(1) r(3) x(3) by (simp add: rs' head_hash_def)
    then have same_text: "revision_text r = revision_text x"
      by (rule inj_onD [OF snoc.prems(4)]) (simp_all add: rs')
    have "head_hash [] rs = head_hash [] xs" "rv_number r = rv_number x"
        "spaced_json (JObj (rv_snapshot r)) = spaced_json (JObj (rv_snapshot x))"
      using revision_text_eq [OF same_text] no_colon [OF r(4)] no_colon [OF x(4)] unfolding r(2) x(2) by blast+
    moreover have "json_norm (JObj (rv_snapshot r)) = json_norm (JObj (rv_snapshot x))"
      using calculation(3) snoc.prems(5) spaced_json_eq_iff [of "JObj (rv_snapshot r)" "JObj (rv_snapshot x)"]
      by (simp add: rs' del: spaced_json.simps)
    moreover have "map (\<lambda>r. (rv_number r, json_norm (JObj (rv_snapshot r)))) rs =
        map (\<lambda>r. (rv_number r, json_norm (JObj (rv_snapshot r)))) xs"
      using snoc.prems(4,5) by (intro snoc.IH [OF calculation(1) r(4) x(4)]) (auto simp: rs' elim: inj_on_subset)
    ultimately show ?case by (simp add: rs')
  qed
  moreover have "rs \<noteq> []" "rs' \<noteq> []" using assms(1,2) by (simp_all add: in_order_def)
  ultimately show ?thesis
    using in_order_chained [OF assms(1)] in_order_chained [OF assms(2)] assms(3-5) by (simp add: head_hash_def)
qed

section \<open>Examples and witnesses\<close>

definition demo_reviewer :: acc_user where
  "demo_reviewer = \<lparr>ac_id = 5, ac_first = ''Ada'', ac_last = ''Obi'', ac_email = ''ada@gov'', ac_active = True,
     ac_superuser = False, ac_profile = None\<rparr>"

definition demo_moment :: "nat \<Rightarrow> moment" where
  "demo_moment k = \<lparr>mo_now = int k, mo_recorded = int k, mo_event = k, mo_event_ref = ''AUD'', mo_salt = ''s''\<rparr>"

definition demo_finding :: finding where
  "demo_finding = \<lparr>fi_id = 7, fi_reference = ''CF-7'', fi_project = 3, fi_group = ''element:C24'', fi_element = JStr ''C24'',
     fi_guid = JStr [], fi_title = JStr ''C24: HIGH multi-source risk'', fi_description = JStr ''two records'',
     fi_level = JStr ''high'', fi_score = JFloat ''0.7'', fi_reasoning = ''...'', fi_evidence = [4], fi_status = Fs_Pending,
     fi_reviewer = None, fi_reviewed = None, fi_notes = [], fi_ncr = None, fi_inspection = None, fi_count = 0\<rparr>"

definition loaded :: "review_db \<Rightarrow> finding" where
  "loaded db = hd (vb_findings db)"

definition demo_created :: "(string \<Rightarrow> string) \<Rightarrow> review_db" where
  "demo_created H = snd (create_finding H (\<lambda>_. Some) 0 None [] demo_finding empty_review_db)"

lemma settled_Some: "settled_columns (\<lambda>_. Some)"
  by (simp add: settled_columns_def)

lemma demo_created_run: "review_run H (\<lambda>_. Some) (demo_created H)"
  unfolding demo_created_def
  by (rule review_run.step [OF review_run.start]) (rule review_step.created, simp add: empty_review_db_def)

lemma demo_created_finding: "demo_finding\<lparr>fi_count := 1\<rparr> \<in> set (vb_findings (demo_created H))"
  by (simp add: demo_created_def create_finding_def stored_def add_revision_def new_revision_def empty_review_db_def
      demo_finding_def Let_def)

lemma finding_history_sound_witness:
  "map rv_number (revisions_of 7 (demo_created sha256_hex)) = [1] \<and>
   list_all (revision_verifies sha256_hex) (revisions_of 7 (demo_created sha256_hex))"
  using finding_history_sound [OF demo_created_run settled_Some demo_created_finding]
  by (simp add: demo_finding_def)

lemma escalation_accounted_witness:
  "length (vb_ncrs (demo_created sha256_hex)) = rows_where (\<lambda>f. fi_ncr f \<noteq> None) (vb_findings (demo_created sha256_hex))"
  using escalation_accounted [OF demo_created_run settled_Some] by (rule conjunct1)

definition demo_reviewed :: "string \<Rightarrow> (review_error + string) \<times> review_db" where
  "demo_reviewed decision = review (\<lambda>_. ''h'') (\<lambda>_. Some) (demo_moment 2) demo_reviewer decision ''seen'' []
     (loaded (demo_created (\<lambda>_. ''h''))) (demo_created (\<lambda>_. ''h''))"

lemma demo_reviewed_ok: "fst (demo_reviewed ''accept'') = Inr ''h''"
  by code_simp

lemma decision_reproducible_witness:
  "map_of (rv_snapshot (last (revisions_of 7 (snd (demo_reviewed ''accept''))))) ''decision_hash'' = Some (JStr ''h'')"
proof -
  have id: "fi_id (loaded (demo_created (\<lambda>_. ''h''))) = 7" by code_simp
  have "demo_reviewed ''accept'' = (Inr ''h'', snd (demo_reviewed ''accept''))"
    using demo_reviewed_ok by (metis prod.collapse)
  from decision_reproducible [OF this [unfolded demo_reviewed_def]] show ?thesis
    unfolding id demo_reviewed_def by blast
qed

text \<open>
  The first revision of the example as the service wrote it, and as a database that returns the
  keys of the snapshot in another order gives it back.
\<close>

definition first_revision :: revision where
  "first_revision = (let r = \<lparr>rv_finding = 7, rv_number = 1, rv_reason = ''created'',
       rv_snapshot = [(''status'', JStr ''accepted''), (''risk_level'', JStr ''high'')],
       rv_by = None, rv_notes = [], rv_hash = [], rv_previous = [], rv_at = 0\<rparr>
     in r\<lparr>rv_hash := revision_digest sha256_hex r\<rparr>)"

definition shuffled_revision :: revision where
  "shuffled_revision = first_revision\<lparr>rv_snapshot := rev (rv_snapshot first_revision)\<rparr>"

lemma shuffled_text: "revision_text shuffled_revision = revision_text first_revision"
proof -
  let ?p = "JObj [(''status'', JStr ''accepted''), (''risk_level'', JStr ''high'')]"
  let ?q = "JObj [(''risk_level'', JStr ''high''), (''status'', JStr ''accepted'')]"
  have "json_norm ?q = json_norm ?p" by (simp add: json_norm_JObj)
  then have "spaced_json ?q = spaced_json ?p" by (metis spaced_json_norm)
  then show ?thesis
    by (simp add: shuffled_revision_def first_revision_def Let_def revision_text_def del: spaced_json.simps)
qed

lemma demo_in_order: "in_order [first_revision]" "in_order [shuffled_revision]"
proof -
  have hash: "rv_hash first_revision = sha256_hex (revision_text first_revision)"
    by (simp add: first_revision_def Let_def revision_digest_def revision_text_def)
  then have "revision_verifies sha256_hex first_revision" "revision_verifies sha256_hex shuffled_revision"
    using sha256.digest_ne shuffled_text
    by (simp_all add: revision_verifies_def revision_digest_def) (simp_all add: shuffled_revision_def)
  then show "in_order [first_revision]" "in_order [shuffled_revision]"
    by (simp_all add: in_order_def) (simp_all add: shuffled_revision_def first_revision_def Let_def)
qed

lemma history_head_commits_witness:
  "rv_snapshot first_revision \<noteq> rv_snapshot shuffled_revision \<and>
   map (\<lambda>r. (rv_number r, json_norm (JObj (rv_snapshot r)))) [first_revision] =
   map (\<lambda>r. (rv_number r, json_norm (JObj (rv_snapshot r)))) [shuffled_revision]"
proof
  show "rv_snapshot first_revision \<noteq> rv_snapshot shuffled_revision"
    by (simp add: shuffled_revision_def first_revision_def Let_def)
  show "map (\<lambda>r. (rv_number r, json_norm (JObj (rv_snapshot r)))) [first_revision] =
   map (\<lambda>r. (rv_number r, json_norm (JObj (rv_snapshot r)))) [shuffled_revision]"
  proof (rule history_head_commits [OF demo_in_order])
    show "rv_hash (last [first_revision]) = rv_hash (last [shuffled_revision])"
      by (simp add: shuffled_revision_def)
    show "inj_on sha256_hex (revision_text ` (set [first_revision] \<union> set [shuffled_revision]))"
      by (simp add: shuffled_text)
    show "list_all (\<lambda>r. wf_json (JObj (rv_snapshot r)) \<and> plain_floats (JObj (rv_snapshot r)))
        ([first_revision] @ [shuffled_revision])"
      by (simp add: shuffled_revision_def first_revision_def Let_def)
  qed
qed

text \<open>
  A rejected finding cannot be reported, but triggering an inspection is not refused: it makes
  the finding an escalated one, and then the report goes through.
\<close>

definition report_call :: ncr_call where
  "report_call = \<lparr>nq_title = [], nq_description = [], nq_severity = [], nq_category = ''Structural'', nq_action = [],
     nq_due = None\<rparr>"

definition report_it :: "review_db \<Rightarrow> (review_error + ncr_row \<times> capa_row list) \<times> review_db" where
  "report_it db = issue_ncr (\<lambda>_. ''h'') (\<lambda>_. Some) (demo_moment 4) 1 ''NCR-1'' ''CAPA-1'' demo_reviewer report_call (loaded db) db"

lemma rejection_bypassed:
  "fst (report_it (snd (demo_reviewed ''reject''))) = Inl Finding_Rejected"
  "is_ok (fst (report_it (snd (trigger_inspection (\<lambda>_. ''h'') (\<lambda>_. Some) (demo_moment 3) 1 ''INS-1'' demo_reviewer
     ''Structural Review'' ''High'' [] (loaded (snd (demo_reviewed ''reject''))) (snd (demo_reviewed ''reject''))))))"
  by code_simp+

text \<open>
  Two reviewers who loaded the same finding: the second writes its decision into the finding
  before its revision is refused, so the status has no revision and the failure is no refusal.
\<close>

lemma stale_review_writes_status:
  assumes "fi_status f = Fs_Pending" "stored column (noted u (mo_now mo) notes (f\<lparr>fi_status := Fs_Accepted\<rparr>)) = Some s"
    and "x \<in> set (vb_revisions db)" "rv_finding x = fi_id f" "rv_number x = Suc (fi_count f)"
  shows "review H column mo u ''accept'' notes mods f db = (Inl Database_Error, put_finding s db)"
proof -
  let ?f = "noted u (mo_now mo) notes (f\<lparr>fi_status := Fs_Accepted\<rparr>)"
  have "add_revision H t reason who n ?f (put_finding s db) = (Inl Database_Error, put_finding s db)" for t reason who n
    using assms(3-5) by (auto simp: add_revision_def Let_def list_ex_iff put_finding_def)
  then show ?thesis
    using assms(1,2) by (simp add: review_def decided_def save_finding_def Let_def seal_decision_def)
qed

text \<open>Verification looks at one revision alone: a rewritten one that is sealed again verifies.\<close>

lemma rewritten_revision_verifies: "revision_verifies sha256_hex (resealed sha256_hex k v r)"
  using sha256.digest_ne by (simp add: revision_verifies_def revision_digest_def)

end
