(* ===== verification/Evidence_Correlation.thy ===== *)
theory Evidence_Correlation
  imports Evidence_History Evidence_Registry Geofence Strength_Adjustment
begin

text \<open>
  The correlation of evidence: \<^verbatim>\<open>apps/evidence/correlation.py\<close>. Records are grouped by
  element, by model object, by position or by source; each group gets a score and a pending
  finding. Scores are exact reals; the JSON form of a float, the reasoning text and the display
  names of sources are parameters, and the analysis record beside a new finding is left out.
  Numbers in payloads and coordinates are finite.
\<close>

section \<open>Severity of one record\<close>

text \<open>What raises: a key that cannot be hashed, a comparison with a non-number, a method of a non-object.\<close>

datatype scoring_fault = Unhashable | Not_Comparable | Not_An_Object

definition number :: "json \<Rightarrow> real option" where
  "number j = (case j of
      JInt i \<Rightarrow> Some (of_int i)
    | JBool b \<Rightarrow> Some (if b then 1 else 0)
    | JFloat r \<Rightarrow> (case read_float r of Some (Fin x) \<Rightarrow> Some x | _ \<Rightarrow> None)
    | _ \<Rightarrow> None)"

definition severity_scores :: "(string \<times> real) list" where
  "severity_scores =
     [(''critical'', 95/100), (''high'', 93/100), (''medium'', 50/100), (''low'', 25/100), (''info'', 5/100),
      (''Major'', 75/100), (''Minor'', 35/100), (''CRITICAL'', 95/100), (''HIGH'', 93/100), (''MEDIUM'', 50/100),
      (''LOW'', 25/100), (''Critical'', 95/100), (''poor'', 93/100), (''very_poor'', 95/100),
      (''questionable'', 50/100), (''good'', 15/100), (''excellent'', 5/100), (''fail'', 85/100), (''pass'', 5/100)]"

definition source_weights :: "(string \<times> real) list" where
  "source_weights =
     [(''gpr'', 1), (''pundit'', 1), (''inspection_finding'', 95/100), (''scan_defect'', 90/100),
      (''scan_alignment'', 85/100), (''bim_element'', 60/100), (''scan_thermal'', 70/100), (''gnss'', 60/100),
      (''scan_progress'', 40/100), (''inspection'', 50/100), (''document'', 40/100), (''live_stream'', 30/100),
      (''corrective_action'', 50/100), (''other'', 40/100)]"

definition structural_sources :: "string list" where
  "structural_sources = [''gpr'', ''pundit'', ''scan_defect'', ''scan_alignment'', ''bim_element'']"

fun named_severity :: "json \<Rightarrow> string list \<Rightarrow> scoring_fault + real option" where
  "named_severity p [] = Inr None"
| "named_severity p (k # ks) = (case json_get p k of
      JArr _ \<Rightarrow> Inl Unhashable
    | JObj _ \<Rightarrow> Inl Unhashable
    | JStr s \<Rightarrow> (case map_of severity_scores s of Some x \<Rightarrow> Inr (Some x) | None \<Rightarrow> named_severity p ks)
    | _ \<Rightarrow> named_severity p ks)"

definition alignment_severity :: "real \<Rightarrow> real" where
  "alignment_severity mm =
     (if mm \<le> 15 then 10/100 else if 20 \<le> mm then 80/100 else 10/100 + (mm - 15) / 5 * (70/100))"

definition measured_severity :: "json \<Rightarrow> (real \<Rightarrow> real) \<Rightarrow> scoring_fault + real option" where
  "measured_severity v g = (case number v of Some x \<Rightarrow> Inr (Some (g x)) | None \<Rightarrow> Inl Not_Comparable)"

definition score_severity :: "json \<Rightarrow> string \<Rightarrow> scoring_fault + real option" where
  "score_severity p source =
     bind_r (check (json_is_object p) Not_An_Object) (\<lambda>_.
     bind_r (named_severity p [''severity'', ''quality_grade'', ''status'']) (\<lambda>named. case named of
       Some x \<Rightarrow> Inr (Some x)
     | None \<Rightarrow>
       if source = ''pundit''
       then Inr (case json_get p ''quality_grade'' of JStr g \<Rightarrow> map_of severity_scores g | _ \<Rightarrow> None)
       else if source = ''scan_alignment''
       then (if json_get p ''mean_deviation_mm'' = JNull then Inr None
             else measured_severity (json_get p ''mean_deviation_mm'') alignment_severity)
       else if source = ''gpr''
       then (if json_get p ''depth_m'' = JNull then Inr (Some (35/100))
             else measured_severity (json_get p ''depth_m'') (\<lambda>d. if d < 1 then 60/100 else 35/100))
       else Inr None))"

definition risk_level_for :: "real \<Rightarrow> string" where
  "risk_level_for s =
     (if 85/100 \<le> s then ''critical'' else if 65/100 \<le> s then ''high'' else if 45/100 \<le> s then ''medium''
      else if 25/100 \<le> s then ''low'' else ''info'')"

section \<open>Groups\<close>

datatype group_kind = By_Element | By_Guid | By_Source | By_Position

type_synonym group_name = "group_kind \<times> string"

text \<open>\<^verbatim>\<open>groups.setdefault(key, []).append(record)\<close>\<close>

fun file_under :: "'k \<Rightarrow> 'r \<Rightarrow> ('k \<times> 'r list) list \<Rightarrow> ('k \<times> 'r list) list" where
  "file_under k r [] = [(k, [r])]"
| "file_under k r ((k', rs) # g) = (if k' = k then (k', rs @ [r]) # g else (k', rs) # file_under k r g)"

definition identity_name :: "evidence_record \<Rightarrow> group_name option" where
  "identity_name r =
     (if er_element r \<noteq> [] then Some (By_Element, er_element r)
      else if er_guid r \<noteq> [] then Some (By_Guid, er_guid r) else None)"

definition coordinate :: "string \<Rightarrow> evidence_record \<Rightarrow> json" where
  "coordinate k r = (case er_coordinates r of None \<Rightarrow> JNull | Some c \<Rightarrow> json_get c k)"

definition coordinates_readable :: "evidence_record \<Rightarrow> bool" where
  "coordinates_readable r = (case er_coordinates r of None \<Rightarrow> True | Some c \<Rightarrow> json_truthy c \<longrightarrow> json_is_object c)"

definition near :: "evidence_record \<Rightarrow> evidence_record \<Rightarrow> scoring_fault + bool" where
  "near r anchor =
     (case (number (coordinate ''latitude'' r), number (coordinate ''longitude'' r),
            number (coordinate ''latitude'' anchor), number (coordinate ''longitude'' anchor)) of
        (Some a, Some b, Some c, Some d) \<Rightarrow> Inr (haversine_m (a, b) (c, d) \<le> 2)
      | _ \<Rightarrow> Inl Not_Comparable)"

text \<open>The first cluster whose first record is near takes the record.\<close>

fun join_cluster :: "evidence_record \<Rightarrow> evidence_record list list \<Rightarrow> scoring_fault + evidence_record list list" where
  "join_cluster r [] = Inr [[r]]"
| "join_cluster r (c # cs) =
     bind_r (near r (hd c)) (\<lambda>close. if close then Inr ((c @ [r]) # cs)
       else bind_r (join_cluster r cs) (\<lambda>cs'. Inr (c # cs')))"

fun cluster_all ::
    "evidence_record list \<Rightarrow> (group_name \<times> evidence_record list) list \<Rightarrow> evidence_record list list
     \<Rightarrow> scoring_fault + (group_name \<times> evidence_record list) list \<times> evidence_record list list" where
  "cluster_all [] g cs = Inr (g, cs)"
| "cluster_all (r # rs) g cs =
     (if \<not> coordinates_readable r then Inl Not_An_Object
      else if coordinate ''latitude'' r = JNull \<or> coordinate ''longitude'' r = JNull
      then cluster_all rs (file_under (By_Source, er_source_type r) r g) cs
      else bind_r (join_cluster r cs) (cluster_all rs g))"

definition cluster_name :: "nat \<Rightarrow> group_name" where
  "cluster_name i = (By_Position, ''cluster-'' @ show_nat (i + 1))"

definition identity_groups :: "evidence_record list \<Rightarrow> (group_name \<times> evidence_record list) list" where
  "identity_groups rs = foldl (\<lambda>g r. case identity_name r of Some k \<Rightarrow> file_under k r g | None \<Rightarrow> g) [] rs"

text \<open>Names of clusters are new, so filing a cluster under its name appends a group.\<close>

definition evidence_groups :: "evidence_record list \<Rightarrow> scoring_fault + (group_name \<times> evidence_record list) list" where
  "evidence_groups rs =
     bind_r (cluster_all (filter (\<lambda>r. identity_name r = None) rs) (identity_groups rs) []) (\<lambda>(g, cs).
       Inr (foldl (\<lambda>g (i, c). foldl (\<lambda>g r. file_under (cluster_name i) r g) g c) g (enumerate 0 cs)))"

section \<open>The score of a group\<close>

record contribution =
  co_source :: string
  co_base :: real
  co_weight :: real
  co_confidence :: real

definition co_value :: "contribution \<Rightarrow> real" where
  "co_value c = co_base c * co_weight c * (1/2 + 1/2 * co_confidence c)"

definition confidence_of :: "evidence_record \<Rightarrow> scoring_fault + real" where
  "confidence_of r = (case er_confidence r of
      None \<Rightarrow> Inr (8/10)
    | Some t \<Rightarrow> (case number (JFloat t) of Some c \<Rightarrow> Inr c | None \<Rightarrow> Inl Not_Comparable))"

definition weight_of :: "string \<Rightarrow> real" where
  "weight_of source = (case map_of source_weights source of Some w \<Rightarrow> w | None \<Rightarrow> 4/10)"

fun contributions :: "evidence_record list \<Rightarrow> scoring_fault + contribution list" where
  "contributions [] = Inr []"
| "contributions (r # rs) =
     bind_r (score_severity (er_payload r) (er_source_type r)) (\<lambda>base. case base of
       None \<Rightarrow> contributions rs
     | Some b \<Rightarrow>
       bind_r (confidence_of r) (\<lambda>c.
       bind_r (contributions rs) (\<lambda>cs.
         Inr (\<lparr>co_source = er_source_type r, co_base = b, co_weight = weight_of (er_source_type r),
               co_confidence = c\<rparr> # cs))))"

definition weighted_mean :: "contribution list \<Rightarrow> real" where
  "weighted_mean cs =
     (let w = sum_list (map co_weight cs) in if w = 0 then 0 else sum_list (map co_value cs) / w)"

text \<open>The sources one of whose contributions reaches the threshold.\<close>

definition corroborating :: "contribution list \<Rightarrow> string list" where
  "corroborating cs = remdups (map co_source (filter (\<lambda>c. 25/100 \<le> co_value c) cs))"

definition agreement_boost :: "contribution list \<Rightarrow> real" where
  "agreement_boost cs =
     (let sources = corroborating cs
      in min (6/100 * real (length sources - 1)) (15/100)
         + (if 2 \<le> length (filter (\<lambda>s. s \<in> set structural_sources) sources) then 8/100 else 0))"

definition group_score :: "contribution list \<Rightarrow> real" where
  "group_score cs = min 1 (weighted_mean cs + agreement_boost cs)"

definition score_group :: "evidence_record list \<Rightarrow> scoring_fault + real option \<times> string" where
  "score_group rs = bind_r (contributions rs) (\<lambda>cs.
     if cs = [] then Inr (None, ''info'')
     else Inr (Some (round_to 3 (group_score cs)), risk_level_for (group_score cs)))"

section \<open>A run of the engine\<close>

record engine =
  en_digest :: "string \<Rightarrow> string"
  en_column :: "string \<Rightarrow> json \<Rightarrow> json option"
  en_float :: "real \<Rightarrow> json"
  en_explain :: "group_name \<Rightarrow> evidence_record list \<Rightarrow> string"
  en_display :: "string \<Rightarrow> string"

definition kind_text :: "group_kind \<Rightarrow> string" where
  "kind_text k = (case k of By_Element \<Rightarrow> ''element'' | By_Guid \<Rightarrow> ''guid'' | By_Source \<Rightarrow> ''source''
     | By_Position \<Rightarrow> ''spatial'')"

definition correlation_key :: "group_name \<Rightarrow> string" where
  "correlation_key k = kind_text (fst k) @ '':'' @ snd k"

text \<open>\<^verbatim>\<open>str.title\<close> on ASCII text\<close>

definition is_letter :: "char \<Rightarrow> bool" where
  "is_letter c \<longleftrightarrow> upper_char c \<noteq> lower_char c"

fun title_from :: "bool \<Rightarrow> string \<Rightarrow> string" where
  "title_from inside [] = []"
| "title_from inside (c # s) = (if inside then lower_char c else upper_char c) # title_from (is_letter c) s"

definition title_for :: "group_name \<Rightarrow> string \<Rightarrow> string" where
  "title_for k level =
     (if fst k \<in> {By_Element, By_Guid} then snd k
      else title_from False (map (\<lambda>c. if c = CHR ''-'' then CHR '' '' else c) (snd k)))
     @ '': '' @ py_upper level @ '' multi-source risk''"

definition description_for :: "engine \<Rightarrow> evidence_record list \<Rightarrow> string" where
  "description_for E rs =
     ''Cross-source correlation of '' @ show_nat (length rs) @ '' evidence record(s) (''
     @ join_with '', '' (sort (remdups (map (en_display E \<circ> er_source_type) rs))) @ '').''"

definition pending_for :: "nat \<Rightarrow> group_name \<Rightarrow> review_db \<Rightarrow> finding option" where
  "pending_for pj k db =
     first_where (\<lambda>f. fi_project f = pj \<and> fi_group f = correlation_key k \<and> fi_status f = Fs_Pending) (rev (vb_findings db))"

definition score_json :: "engine \<Rightarrow> real option \<Rightarrow> json" where
  "score_json E score = (case score of Some x \<Rightarrow> en_float E x | None \<Rightarrow> JNull)"

definition fresh_finding ::
    "engine \<Rightarrow> nat \<Rightarrow> nat \<Rightarrow> string \<Rightarrow> group_name \<Rightarrow> evidence_record list \<Rightarrow> real option \<Rightarrow> string \<Rightarrow> finding" where
  "fresh_finding E pj pk ref k rs score level =
     \<lparr>fi_id = pk, fi_reference = ref, fi_project = pj, fi_group = correlation_key k,
      fi_element = JStr (if fst k = By_Element \<and> score \<noteq> None then snd k else []),
      fi_guid = JStr (if fst k = By_Guid \<and> score \<noteq> None then snd k else []),
      fi_title = JStr (title_for k level), fi_description = JStr (description_for E rs), fi_level = JStr level,
      fi_score = score_json E score, fi_reasoning = en_explain E k rs, fi_evidence = map er_id rs, fi_status = Fs_Pending,
      fi_reviewer = None, fi_reviewed = None, fi_notes = [], fi_ncr = None, fi_inspection = None, fi_count = 0\<rparr>"

datatype run_fault = Scoring scoring_fault | Storing review_error

definition correlate_group ::
    "engine \<Rightarrow> int \<Rightarrow> nat option \<Rightarrow> nat \<Rightarrow> nat \<times> string \<Rightarrow> group_name \<times> evidence_record list \<Rightarrow> review_db
     \<Rightarrow> (run_fault + revision) \<times> review_db" where
  "correlate_group E now who pj new grp db =
     (case score_group (snd grp) of
        Inl e \<Rightarrow> (Inl (Scoring e), db)
      | Inr (score, level) \<Rightarrow>
          let res = (case pending_for pj (fst grp) db of
                  Some f \<Rightarrow> rescore (en_digest E) (en_column E) now who (score_json E score) (JStr level) (en_explain E (fst grp) (snd grp))
                              (JStr (description_for E (snd grp))) (map er_id (snd grp)) f db
                | None \<Rightarrow> create_finding (en_digest E) (en_column E) now who ''Finding created by correlation engine.''
                            (fresh_finding E pj (fst new) (snd new) (fst grp) (snd grp) score level) db)
          in (case fst res of Inl e \<Rightarrow> Inl (Storing e) | Inr r \<Rightarrow> Inr r, snd res))"

text \<open>\<open>new i\<close> is the identity the \<open>i\<close>-th group takes should it need a finding.\<close>

fun correlate_groups ::
    "engine \<Rightarrow> int \<Rightarrow> nat option \<Rightarrow> nat \<Rightarrow> (nat \<Rightarrow> nat \<times> string) \<Rightarrow> nat \<Rightarrow> (group_name \<times> evidence_record list) list
     \<Rightarrow> review_db \<Rightarrow> (run_fault + revision list) \<times> review_db" where
  "correlate_groups E now who pj new i [] db = (Inr [], db)"
| "correlate_groups E now who pj new i (g # gs) db =
     and_then (correlate_group E now who pj (new i) g db) (\<lambda>r db.
     and_then (correlate_groups E now who pj new (Suc i) gs db) (\<lambda>rs db. (Inr (r # rs), db)))"

definition correlate ::
    "engine \<Rightarrow> int \<Rightarrow> nat option \<Rightarrow> nat \<Rightarrow> (nat \<Rightarrow> nat \<times> string) \<Rightarrow> evidence_record list \<Rightarrow> review_db
     \<Rightarrow> (run_fault + revision list) \<times> review_db" where
  "correlate E now who pj new rs db = (case evidence_groups rs of
      Inl e \<Rightarrow> (Inl (Scoring e), db)
    | Inr gs \<Rightarrow> correlate_groups E now who pj new 0 gs db)"

section \<open>Filing\<close>

definition contents :: "('k \<times> 'r list) list \<Rightarrow> 'k \<Rightarrow> 'r list" where
  "contents g k = (case map_of g k of Some rs \<Rightarrow> rs | None \<Rightarrow> [])"

definition tidy :: "('k \<times> 'r list) list \<Rightarrow> bool" where
  "tidy g \<longleftrightarrow> distinct (map fst g) \<and> list_all (\<lambda>p. snd p \<noteq> []) g"

lemma tidy_Nil [simp]: "tidy []"
  by (simp add: tidy_def)

lemma contents_Nil [simp]: "contents [] k = []"
  by (simp add: contents_def)

lemma contents_file_under: "contents (file_under k r g) k' = contents g k' @ (if k' = k then [r] else [])"
  by (induction g) (auto simp: contents_def)

lemma keys_file_under:
  "map fst (file_under k r g) = (if k \<in> set (map fst g) then map fst g else map fst g @ [k])"
proof (induction g)
  case (Cons p g)
  then show ?case by (cases p) (simp only: file_under.simps list.map fst_conv list.set split: if_split, auto)
qed simp

lemma tidy_file_under: "tidy g \<Longrightarrow> tidy (file_under k r g)"
proof -
  have "list_all (\<lambda>p. snd p \<noteq> []) g \<Longrightarrow> list_all (\<lambda>p. snd p \<noteq> []) (file_under k r g)"
    by (induction g) auto
  then show "tidy g \<Longrightarrow> tidy (file_under k r g)" by (simp add: tidy_def keys_file_under)
qed

lemma mset_file_under: "mset (concat (map snd (file_under k r g))) = add_mset r (mset (concat (map snd g)))"
  by (induction g) auto

lemma tidy_member: "tidy g \<Longrightarrow> (k, xs) \<in> set g \<longleftrightarrow> contents g k = xs \<and> xs \<noteq> []"
proof -
  assume tidy: "tidy g"
  then have "(k, xs) \<in> set g \<longleftrightarrow> map_of g k = Some xs" by (simp add: tidy_def map_of_eq_Some_iff)
  moreover have "ys \<noteq> []" if "map_of g k = Some ys" for ys
    using tidy map_of_SomeD [OF that] by (auto simp: tidy_def list_all_iff)
  ultimately show ?thesis by (cases "map_of g k") (auto simp: contents_def)
qed

lemma file_all:
  "contents (foldl (\<lambda>g r. file_under k r g) g rs) k' = contents g k' @ (if k' = k then rs else [])"
  "tidy g \<Longrightarrow> tidy (foldl (\<lambda>g r. file_under k r g) g rs)"
  "mset (concat (map snd (foldl (\<lambda>g r. file_under k r g) g rs))) = mset rs + mset (concat (map snd g))"
  by (induction rs arbitrary: g) (simp_all add: contents_file_under tidy_file_under mset_file_under)

lemma identity_groups_facts:
  "contents (identity_groups rs) k = filter (\<lambda>r. identity_name r = Some k) rs"
  "tidy (identity_groups rs)"
  "mset (concat (map snd (identity_groups rs))) + mset (filter (\<lambda>r. identity_name r = None) rs) = mset rs"
  unfolding identity_groups_def
  by (induction rs rule: rev_induct)
    (auto simp: contents_file_under tidy_file_under mset_file_under split: option.split)

text \<open>Every record of a cluster but its first is near the first.\<close>

definition gathered :: "evidence_record list \<Rightarrow> bool" where
  "gathered c \<longleftrightarrow> c \<noteq> [] \<and> (\<forall>r \<in> set (tl c). near r (hd c) = Inr True)"

lemma join_cluster_facts:
  assumes "join_cluster r cs = Inr cs'" "list_all gathered cs"
  shows "mset (concat cs') = add_mset r (mset (concat cs)) \<and> list_all gathered cs'"
  using assms
proof (induction cs arbitrary: cs')
  case Nil
  then show ?case by (auto simp: gathered_def)
next
  case (Cons c cs)
  then obtain close where close: "near r (hd c) = Inr close" by (auto simp: bind_r_Inr_iff)
  show ?case
  proof (cases close)
    case True
    with Cons.prems close show ?thesis by (cases c) (auto simp: gathered_def)
  next
    case False
    with Cons.prems(1) close obtain ds where "join_cluster r cs = Inr ds" "cs' = c # ds"
      by (auto simp: bind_r_Inr_iff)
    with Cons.IH [of ds] Cons.prems(2) show ?thesis by auto
  qed
qed

lemma cluster_all_facts:
  assumes "cluster_all rs g cs = Inr (g', cs')" "tidy g" "list_all gathered cs"
  shows "mset (concat (map snd g')) + mset (concat cs') = mset rs + mset (concat (map snd g)) + mset (concat cs) \<and>
    tidy g' \<and> list_all gathered cs' \<and> (\<forall>k. fst k \<noteq> By_Source \<longrightarrow> contents g' k = contents g k)"
  using assms
proof (induction rs arbitrary: g cs)
  case Nil
  then show ?case by simp
next
  case (Cons r rs)
  have readable: "coordinates_readable r" using Cons.prems(1) by (auto split: if_splits)
  show ?case
  proof (cases "coordinate ''latitude'' r = JNull \<or> coordinate ''longitude'' r = JNull")
    case True
    with Cons.prems(1) readable have run: "cluster_all rs (file_under (By_Source, er_source_type r) r g) cs = Inr (g', cs')"
      by simp
    from Cons.IH [OF run tidy_file_under [OF Cons.prems(2)] Cons.prems(3)] show ?thesis
      by (auto simp: contents_file_under mset_file_under)
  next
    case False
    with Cons.prems(1) readable obtain ds where join: "join_cluster r cs = Inr ds"
        and run: "cluster_all rs g ds = Inr (g', cs')"
      by (auto simp: bind_r_Inr_iff)
    from join_cluster_facts [OF join Cons.prems(3)] Cons.IH [OF run Cons.prems(2)] show ?thesis by auto
  qed
qed

lemma cluster_name_eq [simp]: "cluster_name i = cluster_name j \<longleftrightarrow> i = j"
  by (simp add: cluster_name_def)

lemma file_clusters:
  "contents (foldl (\<lambda>g (i, c). foldl (\<lambda>g r. file_under (cluster_name i) r g) g c) g (enumerate n cs)) k =
     contents g k @ (if \<exists>i < length cs. k = cluster_name (n + i) then cs ! (THE i. k = cluster_name (n + i)) else [])"
  "tidy g \<Longrightarrow> tidy (foldl (\<lambda>g (i, c). foldl (\<lambda>g r. file_under (cluster_name i) r g) g c) g (enumerate n cs))"
  "mset (concat (map snd (foldl (\<lambda>g (i, c). foldl (\<lambda>g r. file_under (cluster_name i) r g) g c) g (enumerate n cs)))) =
     mset (concat cs) + mset (concat (map snd g))"
proof (induction cs arbitrary: g n)
  case (Cons c cs)
  { case 1
    have later: "(\<exists>i < length (c # cs). k = cluster_name (n + i)) \<longleftrightarrow>
        k = cluster_name n \<or> (\<exists>i < length cs. k = cluster_name (Suc n + i))"
      by (auto simp: less_Suc_eq_0_disj)
    show ?case
      by (auto simp: Cons(1) file_all later nth_Cons split: nat.split)
  next
    case 2
    then show ?case by (simp add: Cons(2) file_all)
  next
    case 3
    show ?case by (simp add: Cons(3) file_all)
  }
qed simp_all

lemma evidence_groups_facts:
  assumes "evidence_groups rs = Inr gs"
  shows "tidy gs" and "mset (concat (map snd gs)) = mset rs"
    and "fst k \<in> {By_Element, By_Guid} \<Longrightarrow> contents gs k = filter (\<lambda>r. identity_name r = Some k) rs"
    and "contents gs (By_Position, s) = x # ys \<Longrightarrow> gathered (x # ys)"
proof -
  note ids = identity_groups_facts [of rs]
  from assms obtain g cs where clusters:
      "cluster_all (filter (\<lambda>r. identity_name r = None) rs) (identity_groups rs) [] = Inr (g, cs)"
      and gs: "gs = foldl (\<lambda>g (i, c). foldl (\<lambda>g r. file_under (cluster_name i) r g) g c) g (enumerate 0 cs)"
    by (auto simp: evidence_groups_def bind_r_Inr_iff)
  from cluster_all_facts [OF clusters ids(2)] have c: "mset (concat (map snd g)) + mset (concat cs) =
        mset (filter (\<lambda>r. identity_name r = None) rs) + mset (concat (map snd (identity_groups rs)))"
      "tidy g" "list_all gathered cs" "\<And>k. fst k \<noteq> By_Source \<Longrightarrow> contents g k = contents (identity_groups rs) k"
    by auto
  have at: "contents gs k = contents g k @ (if \<exists>i < length cs. k = cluster_name i
      then cs ! (THE i. k = cluster_name i) else [])" for k
    using file_clusters(1) [where n = 0 and cs = cs and g = g and k = k] by (simp only: gs add_0)
  show "mset (concat (map snd gs)) = mset rs"
    using file_clusters(3) [where n = 0 and cs = cs and g = g] c(1) ids(3) by (simp add: gs ac_simps)
  show "tidy gs" using file_clusters(2) [OF c(2), where n = 0 and cs = cs] by (simp add: gs)
  show "contents gs k = filter (\<lambda>r. identity_name r = Some k) rs" if "fst k \<in> {By_Element, By_Guid}"
    using that c(4) [of k] ids(1) [of k] by (auto simp: at cluster_name_def)
  assume some: "contents gs (By_Position, s) = x # ys"
  have none: "contents g (By_Position, s) = []"
    using c(4) [of "(By_Position, s)"] ids(1) [of "(By_Position, s)"]
    by (auto simp: filter_empty_conv identity_name_def)
  with some obtain i where "i < length cs" "(By_Position, s) = cluster_name i"
    by (auto simp: at split: if_splits)
  then have "contents gs (By_Position, s) \<in> set cs" using none by (auto simp: at)
  with some c(3) show "gathered (x # ys)" by (auto simp: list_all_iff)
qed

section \<open>Results\<close>

text \<open>
  C31. Grouping loses and repeats nothing: the groups are named differently, none is empty, and
  together they hold each record once. The group of an element holds exactly the records that
  name it, in their order, and every record of a group made by position lies within two metres
  of its first.
\<close>
theorem evidence_groups_partition:
  assumes "evidence_groups rs = Inr gs"
  shows "distinct (map fst gs) \<and> mset (concat (map snd gs)) = mset rs \<and>
    (\<forall>e xs. ((By_Element, e), xs) \<in> set gs \<longleftrightarrow> e \<noteq> [] \<and> xs \<noteq> [] \<and> xs = filter (\<lambda>r. er_element r = e) rs) \<and>
    (\<forall>s x ys. ((By_Position, s), x # ys) \<in> set gs \<longrightarrow> (\<forall>y \<in> set ys. near y x = Inr True))"
proof (intro conjI allI impI ballI)
  note f = evidence_groups_facts [OF assms]
  show "distinct (map fst gs)" using f(1) by (simp add: tidy_def)
  show "mset (concat (map snd gs)) = mset rs" by (rule f(2))
  show "((By_Element, e), xs) \<in> set gs \<longleftrightarrow> e \<noteq> [] \<and> xs \<noteq> [] \<and> xs = filter (\<lambda>r. er_element r = e) rs" for e xs
  proof -
    have "filter (\<lambda>r. identity_name r = Some (By_Element, e)) rs = (if e = [] then [] else filter (\<lambda>r. er_element r = e) rs)"
      by (auto simp: identity_name_def filter_empty_conv intro!: filter_cong)
    then show ?thesis
      unfolding tidy_member [OF f(1)] f(3) [of "(By_Element, e)", simplified] by auto
  qed
  show "near y x = Inr True" if "((By_Position, s), x # ys) \<in> set gs" "y \<in> set ys" for s x ys y
  proof -
    have "contents gs (By_Position, s) = x # ys" using tidy_member [OF f(1)] that(1) by blast
    then have "gathered (x # ys)" by (rule f(4))
    then show ?thesis using that(2) by (simp add: gathered_def)
  qed
qed

lemma severity_scores_bounds: "map_of severity_scores s = Some x \<Longrightarrow> 0 \<le> x \<and> x \<le> 1"
  by (auto simp: severity_scores_def split: if_splits)

lemma named_severity_bounds: "named_severity p ks = Inr (Some x) \<Longrightarrow> 0 \<le> x \<and> x \<le> 1"
  by (induction ks) (auto split: json.splits option.splits dest: severity_scores_bounds)

lemma alignment_severity_bounds: "0 \<le> alignment_severity mm \<and> alignment_severity mm \<le> 1"
  by (auto simp: alignment_severity_def field_simps)

lemma measured_severity_bounds:
  "measured_severity v g = Inr (Some x) \<Longrightarrow> (\<And>y. 0 \<le> g y \<and> g y \<le> 1) \<Longrightarrow> 0 \<le> x \<and> x \<le> 1"
  by (auto simp: measured_severity_def split: option.splits)

lemma score_severity_bounds:
  assumes score: "score_severity p source = Inr (Some x)"
  shows "0 \<le> x \<and> x \<le> 1"
proof -
  from score obtain named where obj: "json_is_object p"
      and named: "named_severity p [''severity'', ''quality_grade'', ''status''] = Inr named"
    by (simp only: score_severity_def bind_check_Inr) (auto simp only: bind_r_Inr_iff)
  have inner: "(case named of Some x \<Rightarrow> Inr (Some x) | None \<Rightarrow>
       if source = ''pundit''
       then Inr (case json_get p ''quality_grade'' of JStr g \<Rightarrow> map_of severity_scores g | _ \<Rightarrow> None)
       else if source = ''scan_alignment''
       then (if json_get p ''mean_deviation_mm'' = JNull then Inr None
             else measured_severity (json_get p ''mean_deviation_mm'') alignment_severity)
       else if source = ''gpr''
       then (if json_get p ''depth_m'' = JNull then Inr (Some (35/100))
             else measured_severity (json_get p ''depth_m'') (\<lambda>d. if d < 1 then 60/100 else 35/100))
       else Inr None) = Inr (Some x)"
    using score unfolding score_severity_def bind_check_Inr by (simp only: obj named simp_thms bind_r_simps)
  show ?thesis
  proof (cases named)
    case (Some y)
    with inner named have "named_severity p [''severity'', ''quality_grade'', ''status''] = Inr (Some x)" by simp
    then show ?thesis by (rule named_severity_bounds)
  next
    case None
    note inner = inner [unfolded None option.case]
    show ?thesis
    proof (cases "source = ''pundit''")
      case True
      then have "(case json_get p ''quality_grade'' of JStr g \<Rightarrow> map_of severity_scores g | _ \<Rightarrow> None) = Some x"
        using inner by (simp only: simp_thms if_True sum.inject)
      then show ?thesis by (cases "json_get p ''quality_grade''") (simp_all add: severity_scores_bounds)
    next
      case False
      note inner = inner [unfolded if_not_P [OF False]]
      show ?thesis
      proof (cases "source = ''scan_alignment''")
        case True
        then show ?thesis
          using inner alignment_severity_bounds measured_severity_bounds [of _ alignment_severity x]
          by (simp only: simp_thms if_True split: if_splits) (simp_all only: sum.inject option.distinct)
      next
        case False
        note inner = inner [unfolded if_not_P [OF False]]
        show ?thesis
          using inner measured_severity_bounds [of _ "\<lambda>d. if d < 1 then 60/100 else 35/100" x]
          by (auto split: if_splits)
      qed
    qed
  qed
qed

lemma weight_of_bounds: "0 < weight_of s \<and> weight_of s \<le> 1"
proof -
  have "0 < w \<and> w \<le> 1" if "map_of source_weights s = Some w" for w
    using that by (auto simp: source_weights_def split: if_splits)
  then show ?thesis by (auto simp: weight_of_def split: option.split)
qed

definition confident :: "evidence_record \<Rightarrow> bool" where
  "confident r = (case confidence_of r of Inr c \<Rightarrow> 0 \<le> c \<and> c \<le> 1 | Inl _ \<Rightarrow> True)"

lemma contributions_bounds:
  assumes "contributions rs = Inr cs" "list_all confident rs"
  shows "list_all (\<lambda>c. 0 < co_weight c \<and> 0 \<le> co_value c \<and> co_value c \<le> co_weight c) cs"
  using assms
proof (induction rs arbitrary: cs)
  case (Cons r rs)
  then obtain base where base: "score_severity (er_payload r) (er_source_type r) = Inr base"
    by (auto simp: bind_r_Inr_iff)
  show ?case
  proof (cases base)
    case None
    with Cons base show ?thesis by auto
  next
    case (Some b)
    with Cons.prems(1) base obtain c ds where c: "confidence_of r = Inr c" "contributions rs = Inr ds"
        "cs = \<lparr>co_source = er_source_type r, co_base = b, co_weight = weight_of (er_source_type r),
               co_confidence = c\<rparr> # ds"
      by (auto simp: bind_r_Inr_iff)
    have cb: "0 \<le> c" "c \<le> 1" using Cons.prems(2) c(1) by (auto simp: confident_def)
    have bb: "0 \<le> b" "b \<le> 1" using score_severity_bounds base Some by auto
    let ?w = "weight_of (er_source_type r)"
    have w: "0 < ?w" using weight_of_bounds by blast
    have "b * (1/2 + 1/2 * c) \<le> 1 * 1"
      using bb cb by (intro mult_mono) auto
    then have "?w * (b * (1/2 + 1/2 * c)) \<le> ?w * 1" using w by (intro mult_left_mono) auto
    then have "b * ?w * (1/2 + 1/2 * c) \<le> ?w" by (simp only: mult.commute mult.left_commute mult_1_right)
    moreover have "0 \<le> b * ?w * (1/2 + 1/2 * c)" using bb cb w by simp
    ultimately show ?thesis using Cons.IH [OF c(2)] Cons.prems(2) w by (simp add: c(3) co_value_def)
  qed
qed simp

lemma weighted_mean_bounds:
  assumes "list_all (\<lambda>c. 0 < co_weight c \<and> 0 \<le> co_value c \<and> co_value c \<le> co_weight c) cs"
  shows "0 \<le> weighted_mean cs \<and> weighted_mean cs \<le> 1"
proof -
  have "0 \<le> sum_list (map co_value cs) \<and> sum_list (map co_value cs) \<le> sum_list (map co_weight cs)"
    using assms by (induction cs) auto
  then show ?thesis by (simp add: weighted_mean_def Let_def divide_le_eq)
qed

lemma agreement_boost_bounds: "0 \<le> agreement_boost cs \<and> agreement_boost cs \<le> 23/100"
  by (simp add: agreement_boost_def Let_def min_def)

text \<open>
  C32. The level and the stored number of a group are those of one score, and the score is never
  below the weighted mean of what its records contribute, cut at one, nor more than 0.23 above the
  mean or above one. The stored number is the score to three places; a group with nothing to score
  has no number and the level info. That the score is not negative, and the mean at most one, is
  so when every confidence lies between zero and one, which the registry does not enforce.
\<close>
theorem group_score_sound:
  assumes "score_group rs = Inr (res, level)"
  shows "\<exists>cs. contributions rs = Inr cs \<and> (case res of
      None \<Rightarrow> cs = [] \<and> level = ''info''
    | Some stored_score \<Rightarrow> cs \<noteq> [] \<and> min 1 (weighted_mean cs) \<le> group_score cs \<and>
        group_score cs \<le> min 1 (weighted_mean cs + 23/100) \<and> level = risk_level_for (group_score cs) \<and>
        \<bar>stored_score - group_score cs\<bar> \<le> 1/2000 \<and>
        (list_all confident rs \<longrightarrow> 0 \<le> weighted_mean cs \<and> weighted_mean cs \<le> 1 \<and> 0 \<le> group_score cs))"
proof -
  from assms obtain cs where cs: "contributions rs = Inr cs"
    "res = (if cs = [] then None else Some (round_to 3 (group_score cs)))"
    "level = (if cs = [] then ''info'' else risk_level_for (group_score cs))"
    by (auto simp: score_group_def bind_r_Inr_iff split: if_splits)
  have mean: "0 \<le> weighted_mean cs \<and> weighted_mean cs \<le> 1" if "list_all confident rs"
    by (rule weighted_mean_bounds [OF contributions_bounds [OF cs(1) that]])
  have near: "\<bar>round_to 3 (group_score cs) - group_score cs\<bar> \<le> 1/2000"
    using round_to_close [of 3 "group_score cs"] by simp
  have bounds: "min 1 (weighted_mean cs) \<le> group_score cs" "group_score cs \<le> min 1 (weighted_mean cs + 23/100)"
    "0 \<le> weighted_mean cs \<Longrightarrow> 0 \<le> group_score cs"
    using agreement_boost_bounds [of cs] by (auto simp: group_score_def)
  show ?thesis
  proof (intro exI [of _ cs] conjI)
    show "contributions rs = Inr cs" by (rule cs(1))
    show "case res of
      None \<Rightarrow> cs = [] \<and> level = ''info''
    | Some stored_score \<Rightarrow> cs \<noteq> [] \<and> min 1 (weighted_mean cs) \<le> group_score cs \<and>
        group_score cs \<le> min 1 (weighted_mean cs + 23/100) \<and> level = risk_level_for (group_score cs) \<and>
        \<bar>stored_score - group_score cs\<bar> \<le> 1/2000 \<and>
        (list_all confident rs \<longrightarrow> 0 \<le> weighted_mean cs \<and> weighted_mean cs \<le> 1 \<and> 0 \<le> group_score cs)"
      using near bounds mean by (cases "cs = []") (simp_all add: cs(2,3))
  qed
qed

text \<open>The level follows the unrounded score: a stored score may carry the level below its own.\<close>

lemma stored_score_of_a_higher_level:
  "risk_level_for (8496/10000) = ''high''" "round_to 3 (8496/10000) = 850/1000" "risk_level_for (850/1000) = ''critical''"
proof -
  have "round_half_even (8496/10) = 850"
    by (simp add: round_half_even_def floor_eq_iff)
  then show "round_to 3 (8496/10000) = 850/1000" by (simp add: round_to_def)
qed (simp_all add: risk_level_for_def)

section \<open>What a run touches\<close>

text \<open>Only the finding with key \<open>k\<close> and its history may differ.\<close>

definition touches_only :: "nat \<Rightarrow> review_db \<Rightarrow> review_db \<Rightarrow> bool" where
  "touches_only k db db' \<longleftrightarrow>
     (\<forall>f. fi_id f \<noteq> k \<longrightarrow> f \<in> set (vb_findings db') \<longleftrightarrow> f \<in> set (vb_findings db)) \<and>
     (\<forall>j. j \<noteq> k \<longrightarrow> revisions_of j db' = revisions_of j db)"

lemma touches_only_refl [simp]: "touches_only k db db"
  by (simp add: touches_only_def)

lemma touches_only_trans: "touches_only k a b \<Longrightarrow> touches_only k b c \<Longrightarrow> touches_only k a c"
  by (simp add: touches_only_def)

lemma touches_put: "touches_only (fi_id s) db (put_finding s db)"
  by (auto simp: touches_only_def put_finding_def revisions_of_def set_update_where)

lemma touches_add: "touches_only (fi_id f) db (snd (add_revision H at_time reason who notes f db))"
proof (cases "fst (add_revision H at_time reason who notes f db)")
  case (Inl e)
  then show ?thesis by (auto simp: add_revision_def Let_def split: if_splits)
next
  case (Inr r)
  then have run: "add_revision H at_time reason who notes f db = (Inr r, snd (add_revision H at_time reason who notes f db))"
    by (metis prod.collapse)
  show ?thesis
    using added(1-3) [OF run] by (auto simp: touches_only_def revisions_of_def set_update_where)
qed

lemma touches_evidence: "touches_only k db (set_evidence k evidence db)"
  by (auto simp: touches_only_def set_evidence_def revisions_of_def set_update_where)

lemma touches_rescore:
  "touches_only (fi_id f) db (snd (rescore H column at_time who score level reasoning description evidence f db))"
proof -
  let ?f = "f\<lparr>fi_score := score, fi_level := level, fi_reasoning := reasoning, fi_description := description,
                  fi_evidence := evidence\<rparr>"
  show ?thesis
  proof (cases "stored column ?f")
    case None
    then show ?thesis by (simp add: rescore_def save_finding_def Let_def touches_evidence)
  next
    case (Some s)
    have same: "fi_id s = fi_id f" using stored_keeps(1) [OF Some] by simp
    have "touches_only (fi_id f) db (put_finding s db)"
      using touches_put [of s db] stored_keeps(1) [OF Some] by simp
    moreover have "touches_only (fi_id f) (put_finding s db) (snd (add_revision H at_time ''new_evidence'' who
        ''Correlation re-run with new evidence.'' ?f (put_finding s db)))"
      using touches_add [of ?f] by simp
    ultimately have "touches_only (fi_id f) db (snd (add_revision H at_time ''new_evidence'' who
        ''Correlation re-run with new evidence.'' ?f (put_finding s db)))"
      by (rule touches_only_trans)
    then show ?thesis by (simp add: rescore_def save_finding_def and_then_def Let_def Some same)
  qed
qed

lemma touches_create: "touches_only (fi_id f) db (snd (create_finding H column at_time who notes f db))"
proof -
  let ?f = "f\<lparr>fi_status := Fs_Pending, fi_reviewer := None, fi_reviewed := None, fi_notes := [], fi_ncr := None,
                 fi_inspection := None, fi_count := 0\<rparr>"
  show ?thesis
  proof (cases "stored column ?f")
    case None
    then show ?thesis by (simp add: create_finding_def Let_def)
  next
    case (Some s)
    let ?db = "db\<lparr>vb_findings := vb_findings db @ [s]\<rparr>"
    have "touches_only (fi_id f) db ?db"
      using stored_keeps(1) [OF Some] by (auto simp: touches_only_def revisions_of_def)
    moreover have "touches_only (fi_id f) ?db (snd (add_revision H at_time ''created'' who notes ?f ?db))"
      using touches_add [of ?f] by simp
    ultimately have "touches_only (fi_id f) db (snd (add_revision H at_time ''created'' who notes ?f ?db))"
      by (rule touches_only_trans)
    then show ?thesis by (simp add: create_finding_def Let_def Some)
  qed
qed

lemma pending_for_Some:
  "pending_for pj k db = Some f \<Longrightarrow> f \<in> set (vb_findings db) \<and> fi_status f = Fs_Pending"
  by (auto simp: pending_for_def dest: first_where_Some)

text \<open>A group makes at most one step of the review machine, on a pending finding or on a new one.\<close>

lemma correlate_group_step:
  assumes "fst new \<notin> fi_id ` set (vb_findings db)" "snd (correlate_group E now who pj new grp db) = db'"
  shows "db' = db \<or> review_step (en_digest E) (en_column E) db db' \<and>
    (touches_only (fst new) db db' \<or>
     (\<exists>f \<in> set (vb_findings db). fi_status f = Fs_Pending \<and> touches_only (fi_id f) db db'))"
proof (cases "score_group (snd grp)")
  case (Inl e)
  then show ?thesis using assms(2) by (simp add: correlate_group_def)
next
  case (Inr sl)
  then obtain score level where sl: "score_group (snd grp) = Inr (score, level)" by (cases sl) auto
  show ?thesis
  proof (cases "pending_for pj (fst grp) db")
    case None
    let ?new = "fresh_finding E pj (fst new) (snd new) (fst grp) (snd grp) score level"
    have id: "fi_id ?new = fst new" by (simp add: fresh_finding_def)
    have db': "db' = snd (create_finding (en_digest E) (en_column E) now who ''Finding created by correlation engine.'' ?new db)"
      using assms(2) by (simp add: correlate_group_def sl None Let_def)
    have "fi_id ?new \<notin> fi_id ` set (vb_findings db)" using assms(1) id by simp
    then have "review_step (en_digest E) (en_column E) db db'" unfolding db' by (rule review_step.created)
    moreover have "touches_only (fi_id ?new) db db'" unfolding db' by (rule touches_create)
    ultimately show ?thesis using id by simp
  next
    case (Some f)
    note f = pending_for_Some [OF Some]
    have db': "db' = snd (rescore (en_digest E) (en_column E) now who (score_json E score) (JStr level)
        (en_explain E (fst grp) (snd grp)) (JStr (description_for E (snd grp))) (map er_id (snd grp)) f db)"
      using assms(2) by (simp add: correlate_group_def sl Some Let_def)
    have "review_step (en_digest E) (en_column E) db db'"
      unfolding db' by (rule review_step.rescored) (use f in simp_all)
    moreover have "touches_only (fi_id f) db db'" unfolding db' by (rule touches_rescore)
    ultimately show ?thesis using f by blast
  qed
qed

lemma correlate_groups_run:
  assumes "review_run (en_digest E) (en_column E) db" "settled_columns (en_column E)" "inj (fst \<circ> new)"
    and "\<forall>j \<ge> i. fst (new j) \<notin> fi_id ` set (vb_findings db)"
  shows "review_run (en_digest E) (en_column E) (snd (correlate_groups E now who pj new i gs db)) \<and>
    (\<forall>f \<in> set (vb_findings db). fi_status f \<noteq> Fs_Pending \<longrightarrow>
       f \<in> set (vb_findings (snd (correlate_groups E now who pj new i gs db))) \<and>
       revisions_of (fi_id f) (snd (correlate_groups E now who pj new i gs db)) = revisions_of (fi_id f) db)"
  using assms(1,4)
proof (induction gs arbitrary: i db)
  case (Cons g gs)
  obtain res db1 where one: "correlate_group E now who pj (new i) g db = (res, db1)" by force
  from Cons.prems(2) have "fst (new i) \<notin> fi_id ` set (vb_findings db)" by blast
  note step = correlate_group_step [OF this, of E now who pj g db1] one
  have run1: "review_run (en_digest E) (en_column E) db1"
    using step Cons.prems(1) by (auto intro: review_run.step)
  have dist: "distinct (map fi_id (vb_findings db))"
    using review_run_inv [OF Cons.prems(1) assms(2)] by (simp add: review_inv_def)
  have only: "db1 = db \<or> touches_only (fst (new i)) db db1 \<or>
      (\<exists>f \<in> set (vb_findings db). fi_status f = Fs_Pending \<and> touches_only (fi_id f) db db1)"
    using step by auto
  have kept: "f \<in> set (vb_findings db1) \<and> revisions_of (fi_id f) db1 = revisions_of (fi_id f) db"
    if f: "f \<in> set (vb_findings db)" "fi_status f \<noteq> Fs_Pending" for f
  proof -
    have "fi_id f \<noteq> fst (new i)" using Cons.prems(2) f(1) by (metis imageI order_refl)
    moreover have "fi_id f \<noteq> fi_id x" if "x \<in> set (vb_findings db)" "fi_status x = Fs_Pending" for x
      using distinct_map_key [OF dist f(1) that(1)] that(2) f(2) by auto
    ultimately show ?thesis using only f(1) unfolding touches_only_def by metis
  qed
  have fresh1: "\<forall>j \<ge> Suc i. fst (new j) \<notin> fi_id ` set (vb_findings db1)"
  proof (intro allI impI notI)
    fix j assume j: "Suc i \<le> j" "fst (new j) \<in> fi_id ` set (vb_findings db1)"
    then obtain x where x: "x \<in> set (vb_findings db1)" "fi_id x = fst (new j)" by auto
    have "fst (new j) \<noteq> fst (new i)" using injD [OF assms(3), of j i] j(1) by auto
    moreover have "fst (new j) \<notin> fi_id ` set (vb_findings db)" using Cons.prems(2) j(1) by simp
    ultimately show False using only x unfolding touches_only_def by (metis imageI)
  qed
  show ?case
  proof (cases res)
    case (Inl e)
    then show ?thesis using run1 kept by (simp add: one)
  next
    case (Inr r)
    have "snd (correlate_groups E now who pj new i (g # gs) db) = snd (correlate_groups E now who pj new (Suc i) gs db1)"
      by (simp add: one Inr and_then_def split: prod.split sum.split)
    then show ?thesis using Cons.IH [OF run1 fresh1] kept by metis
  qed
qed simp

text \<open>
  C33. A run of the engine is a sequence of creations and re-scorings, so what holds along runs
  of the review service holds across it; and it leaves every finding that a person has dealt
  with, and its history, as they were.
\<close>
theorem correlation_keeps_reviewed:
  assumes "review_run (en_digest E) (en_column E) db" "settled_columns (en_column E)"
    and "inj (fst \<circ> new)" "\<forall>j. fst (new j) \<notin> fi_id ` set (vb_findings db)"
  shows "review_run (en_digest E) (en_column E) (snd (correlate E now who pj new rs db)) \<and>
    (\<forall>f \<in> set (vb_findings db). fi_status f \<noteq> Fs_Pending \<longrightarrow>
      f \<in> set (vb_findings (snd (correlate E now who pj new rs db))) \<and>
      revisions_of (fi_id f) (snd (correlate E now who pj new rs db)) = revisions_of (fi_id f) db)"
proof -
  have "\<forall>j \<ge> 0. fst (new j) \<notin> fi_id ` set (vb_findings db)" using assms(4) by simp
  note groups = correlate_groups_run [OF assms(1-3) this]
  show ?thesis
  proof (cases "evidence_groups rs")
    case (Inl e)
    then show ?thesis using assms(1) by (simp add: correlate_def)
  next
    case (Inr gs)
    then have "correlate E now who pj new rs db = correlate_groups E now who pj new 0 gs db" by (simp add: correlate_def)
    then show ?thesis using groups by metis
  qed
qed

section \<open>Examples and witnesses\<close>

definition demo_evidence :: "nat \<Rightarrow> evidence_record" where
  "demo_evidence k = \<lparr>er_id = k, er_reference = ''EV-1'', er_project = 3, er_source_type = ''gpr'', er_element = ''C30'',
     er_guid = [], er_coordinates = None, er_captured = None, er_confidence = None, er_source_model = ''digital_eye.GPRAnomaly'',
     er_source_id = ''4'', er_inspection = None, er_payload = JObj [(''severity'', JStr ''high'')], er_hash = [],
     er_by = None, er_created = int k\<rparr>"

definition demo_engine :: engine where
  "demo_engine = \<lparr>en_digest = (\<lambda>_. ''h''), en_column = (\<lambda>_. Some), en_float = (\<lambda>_. JFloat ''0.837''),
     en_explain = (\<lambda>_ _. []), en_display = id\<rparr>"

lemma demo_evidence_groups: "evidence_groups [demo_evidence 1, demo_evidence 2] = Inr [((By_Element, ''C30''), [demo_evidence 1, demo_evidence 2])]"
  by (simp add: evidence_groups_def identity_groups_def identity_name_def demo_evidence_def)

lemma evidence_groups_partition_witness:
  "mset (concat (map snd [((By_Element, ''C30''), [demo_evidence 1, demo_evidence 2])])) = mset [demo_evidence 1, demo_evidence 2]"
  using evidence_groups_partition [OF demo_evidence_groups] by blast

lemma demo_score: "score_group [demo_evidence 1] = Inr (Some (round_to 3 (837/1000)), ''high'')"
proof -
  have "map_of severity_scores ''high'' = Some (93/100)" by (simp add: severity_scores_def)
  then have "score_severity (JObj [(''severity'', JStr ''high'')]) ''gpr'' = Inr (Some (93/100))"
    by (simp add: score_severity_def json_is_object_def dict_get_def)
  moreover have "weight_of ''gpr'' = 1" by (simp add: weight_of_def source_weights_def)
  ultimately have "contributions [demo_evidence 1] =
      Inr [\<lparr>co_source = ''gpr'', co_base = 93/100, co_weight = 1, co_confidence = 8/10\<rparr>]"
    by (simp add: demo_evidence_def confidence_of_def)
  then show ?thesis
    by (simp add: score_group_def group_score_def weighted_mean_def agreement_boost_def corroborating_def co_value_def
        structural_sources_def risk_level_for_def Let_def)
qed

lemma group_score_sound_witness:
  "\<exists>cs. contributions [demo_evidence 1] = Inr cs \<and> ''high'' = risk_level_for (group_score cs)
     \<and> 0 \<le> weighted_mean cs \<and> weighted_mean cs \<le> group_score cs"
proof -
  have "list_all confident [demo_evidence 1]"
    by (simp add: confident_def confidence_of_def demo_evidence_def)
  with group_score_sound [OF demo_score] obtain cs where "contributions [demo_evidence 1] = Inr cs"
    "''high'' = risk_level_for (group_score cs)" "0 \<le> weighted_mean cs" "weighted_mean cs \<le> 1"
    "min 1 (weighted_mean cs) \<le> group_score cs" by auto
  then show ?thesis by auto
qed

text \<open>
  A confidence below zero, which only the upload form refuses, makes a severe record lower the
  score below zero, and the level with it.
\<close>

lemma negative_confidence_negative_score:
  "score_group [(demo_evidence 1)\<lparr>er_confidence := Some ''-3.0''\<rparr>] = Inr (Some (round_to 3 (- 93/100)), ''info'')"
proof -
  have "map_of severity_scores ''high'' = Some (93/100)" by (simp add: severity_scores_def)
  then have "score_severity (JObj [(''severity'', JStr ''high'')]) ''gpr'' = Inr (Some (93/100))"
    by (simp add: score_severity_def json_is_object_def dict_get_def)
  moreover have "weight_of ''gpr'' = 1" by (simp add: weight_of_def source_weights_def)
  moreover have "read_float ''-3.0'' = Some (Fin (- 3))"
    by (simp add: read_float_def py_lower_def lower_char_def split_sign_def read_decimal_def Let_def
        is_digit_def decimal_value_def read_nat_def as_float_small)
  then have "number (JFloat ''-3.0'') = Some (- 3)" by (simp add: number_def)
  ultimately have "contributions [(demo_evidence 1)\<lparr>er_confidence := Some ''-3.0''\<rparr>] =
      Inr [\<lparr>co_source = ''gpr'', co_base = 93/100, co_weight = 1, co_confidence = - 3\<rparr>]"
    by (simp add: demo_evidence_def confidence_of_def)
  then show ?thesis
    by (simp add: score_group_def group_score_def weighted_mean_def agreement_boost_def corroborating_def co_value_def
        structural_sources_def risk_level_for_def Let_def)
qed

definition demo_run :: "(run_fault + revision list) \<times> review_db" where
  "demo_run = correlate demo_engine 9 None 3 (\<lambda>i. (i + 8, ''CF'')) [demo_evidence 1, demo_evidence 2] (snd (demo_reviewed ''accept''))"

lemma demo_reviewed_run: "review_run (\<lambda>_. ''h'') (\<lambda>_. Some) (snd (demo_reviewed ''accept''))"
proof -
  have "loaded (demo_created (\<lambda>_. ''h'')) \<in> set (vb_findings (demo_created (\<lambda>_. ''h'')))"
    using demo_created_finding [of "\<lambda>_. ''h''"] by (cases "vb_findings (demo_created (\<lambda>_. ''h''))") (simp_all add: loaded_def)
  from review_step.reviewed [OF this] show ?thesis
    unfolding demo_reviewed_def by (rule review_run.step [OF demo_created_run])
qed

lemma correlation_keeps_reviewed_witness:
  "loaded (snd (demo_reviewed ''accept'')) \<in> set (vb_findings (snd demo_run))"
proof -
  have one: "map fi_id (vb_findings (snd (demo_reviewed ''accept''))) = [7]" by code_simp
  then obtain f where f: "vb_findings (snd (demo_reviewed ''accept'')) = [f]" "fi_id f = 7" by auto
  have "fi_status (loaded (snd (demo_reviewed ''accept''))) \<noteq> Fs_Pending" by code_simp
  moreover have "loaded (snd (demo_reviewed ''accept'')) = f" by (simp add: loaded_def f(1))
  moreover have "inj (fst \<circ> (\<lambda>i::nat. (i + 8, ''CF'')))" by (simp add: inj_def)
  moreover have "review_run (en_digest demo_engine) (en_column demo_engine) (snd (demo_reviewed ''accept''))"
    using demo_reviewed_run by (simp add: demo_engine_def)
  moreover have "settled_columns (en_column demo_engine)" by (simp add: demo_engine_def settled_Some)
  ultimately show ?thesis
    unfolding demo_run_def using correlation_keeps_reviewed [of demo_engine _ "\<lambda>i. (i + 8, ''CF'')"] f by simp
qed

text \<open>
  A re-run writes the new level into a pending finding and leaves its title, which names the
  level of the run that made it.
\<close>

lemma rescored_title_kept:
  assumes "rescore H (\<lambda>_. Some) now who score level reasoning description evidence f db = (Inr r, db')"
    "f \<in> set (vb_findings db)"
  shows "\<exists>g \<in> set (vb_findings db'). fi_id g = fi_id f \<and> fi_level g = level \<and> fi_title g = fi_title f"
proof -
  let ?f = "f\<lparr>fi_score := score, fi_level := level, fi_reasoning := reasoning, fi_description := description,
                  fi_evidence := evidence\<rparr>"
  have s: "stored (\<lambda>_. Some) ?f = Some ?f" by (simp add: stored_def)
  have "add_revision H now ''new_evidence'' who ''Correlation re-run with new evidence.'' ?f (put_finding ?f db) = (Inr r, db')"
    using assms(1) by (simp add: rescore_def save_finding_def and_then_def Let_def s)
  note added(3) [OF this]
  moreover have "?f \<in> set (vb_findings (put_finding ?f db))"
    using assms(2) by (auto simp: put_finding_def set_update_where)
  ultimately show ?thesis by (auto simp: set_update_where intro!: bexI [of _ "?f\<lparr>fi_count := rv_number r\<rparr>"])
qed

end
