(* ===== verification/Permit_Applications.thy ===== *)
theory Permit_Applications
  imports Audit_Ledger Access
begin

text \<open>
  Permit applications and permits: \<^verbatim>\<open>apps/applications/services.py\<close>,
  \<^verbatim>\<open>apps/permits/services.py\<close> and their models. Operations take the row their caller loaded and
  return the state they leave, also when they fail: no transaction spans a request. Dates are days
  since 1970, instants microseconds; values fit their columns. The status of a permit is text,
  as approvals write words into it that are none of its choices.
\<close>

section \<open>Rows\<close>

datatype app_status =
    Ap_Draft | Ap_Submitted | Ap_Under_Review | Ap_Review_Completed | Ap_Approval_Requested
  | Ap_Conditional | Ap_Approved | Ap_Rejected | Ap_Expired | Ap_Renewed

definition app_status_text :: "app_status \<Rightarrow> string" where
  "app_status_text s = (case s of
      Ap_Draft \<Rightarrow> ''DRAFT'' | Ap_Submitted \<Rightarrow> ''SUBMITTED'' | Ap_Under_Review \<Rightarrow> ''UNDER_REVIEW''
    | Ap_Review_Completed \<Rightarrow> ''REVIEW_COMPLETED'' | Ap_Approval_Requested \<Rightarrow> ''APPROVAL_REQUESTED''
    | Ap_Conditional \<Rightarrow> ''CONDITIONAL_APPROVAL'' | Ap_Approved \<Rightarrow> ''APPROVED'' | Ap_Rejected \<Rightarrow> ''REJECTED''
    | Ap_Expired \<Rightarrow> ''EXPIRED'' | Ap_Renewed \<Rightarrow> ''RENEWED'')"

record doc_note =
  dn_status :: string
  dn_at :: int
  dn_note :: string
  dn_by :: string

record doc_request =
  dr_id :: string
  dr_items :: "string list"
  dr_states :: "(string \<times> string) list"
  dr_instructions :: string
  dr_by :: string
  dr_at :: int
  dr_deadline :: string
  dr_status :: string
  dr_progress :: nat
  dr_history :: "doc_note list"

record application =
  ap_id :: nat
  ap_reference :: string
  ap_title :: string
  ap_project :: nat
  ap_applicant :: nat
  ap_type :: string
  ap_jurisdiction :: string
  ap_status :: app_status
  ap_priority :: string
  ap_fee :: int
  ap_fee_status :: string
  ap_created_by :: string
  ap_reviewer :: "nat option"
  ap_reviewer_name :: "string option"
  ap_deadline :: "string option"
  ap_decided :: "int option"
  ap_reason :: "string option"
  ap_conditions :: "string option"
  ap_action :: string
  ap_items :: json
  ap_documents :: json
  ap_requests :: "doc_request list"

record permit =
  pm_id :: nat
  pm_number :: string
  pm_project :: nat
  pm_application :: nat
  pm_issuer :: "nat option"
  pm_issued :: int
  pm_expiry :: int
  pm_status :: string
  pm_conditions :: "string option"
  pm_renewals :: nat
  pm_renewed :: "int option"

record building_site =
  st_id :: nat
  st_name :: string
  st_status :: string

record permit_db =
  pd_sites :: "building_site list"
  pd_applications :: "application list"
  pd_permits :: "permit list"
  pd_audit :: "audit_event list"

datatype permit_error =
    Applicant_Required | Project_Required | Wrong_Transition app_status string | Not_Renewable string
  | Date_Out_Of_Range | Row_Exists

text \<open>
  A request: the user, the profile the user has, both clocks, and the identities that a row made
  by it will get. The user is \<open>None\<close> when anonymous.
\<close>

record desk =
  dk_user :: "acc_user option"
  dk_profile :: "nat option"
  dk_now :: int
  dk_today :: int
  dk_event :: nat
  dk_event_ref :: string
  dk_salt :: string
  dk_new :: nat
  dk_number :: string

section \<open>Audit\<close>

definition opt_json :: "string option \<Rightarrow> json" where
  "opt_json x = (case x of None \<Rightarrow> JNull | Some s \<Rightarrow> JStr s)"

text \<open>A ledger that refuses the event is ignored.\<close>

definition log_audit ::
    "(string \<Rightarrow> string) \<Rightarrow> desk \<Rightarrow> string \<Rightarrow> string \<Rightarrow> nat \<Rightarrow> json \<Rightarrow> json \<Rightarrow> audit_event list \<Rightarrow> audit_event list" where
  "log_audit H dk resource action k previous new_state es =
     (case save_event H (dk_salt dk)
        \<lparr>ev_id = dk_event dk, ev_reference = dk_event_ref dk, ev_user = map_option ac_id (dk_user dk), ev_user_name = ''System'',
         ev_user_role = ''System'', ev_user_email = None, ev_action = action, ev_type = None, ev_resource_type = resource,
         ev_resource_id = show_nat k, ev_project = None, ev_ip = None, ev_agent = None, ev_time = dk_now dk,
         ev_previous = previous, ev_new = new_state, ev_metadata = JObj [], ev_severity = ''Normal'', ev_signature = None,
         ev_verified = True\<rparr> es of
        Inl _ \<Rightarrow> es
      | Inr es' \<Rightarrow> es')"

definition logged ::
    "(string \<Rightarrow> string) \<Rightarrow> desk \<Rightarrow> string \<Rightarrow> string \<Rightarrow> nat \<Rightarrow> json \<Rightarrow> json \<Rightarrow> permit_db \<Rightarrow> permit_db" where
  "logged H dk resource action k previous new_state db =
     db\<lparr>pd_audit := log_audit H dk resource action k previous new_state (pd_audit db)\<rparr>"

section \<open>Applications\<close>

record application_call =
  cl_project :: nat
  cl_title :: "string option"
  cl_type :: "string option"
  cl_jurisdiction :: "string option"
  cl_priority :: "string option"
  cl_fee :: "int option"
  cl_fee_status :: "string option"
  cl_created_by :: "string option"
  cl_deadline :: "string option"
  cl_action :: "string option"
  cl_items :: "json option"
  cl_documents :: "json option"

text \<open>\<^verbatim>\<open>data.get(k, default)\<close>\<close>

definition given :: "'a \<Rightarrow> 'a option \<Rightarrow> 'a" where
  "given d x = (case x of None \<Rightarrow> d | Some v \<Rightarrow> v)"

definition default_review_items :: json where
  "default_review_items = JArr (map (\<lambda>(k, n). JObj [(''id'', JStr k), (''name'', JStr n), (''status'', JStr ''PENDING''), (''notes'', JStr [])])
     [(''doc_arch'', ''Architectural Drawings Compliance''), (''doc_struct'', ''Structural Calculations & Soil Test''),
      (''doc_eia'', ''Environmental Impact Assessment (EIA)''), (''doc_mep'', ''MEP & Fire Protection Engineering'')])"

definition new_application :: "desk \<Rightarrow> acc_user \<Rightarrow> application_call \<Rightarrow> application" where
  "new_application dk u c =
     \<lparr>ap_id = dk_new dk, ap_reference = dk_number dk, ap_title = or_default (or_empty (cl_title c)) ''Permit Application'',
      ap_project = cl_project c, ap_applicant = ac_id u, ap_type = given ''Building Permit'' (cl_type c),
      ap_jurisdiction = given [] (cl_jurisdiction c), ap_status = Ap_Submitted, ap_priority = given ''Normal'' (cl_priority c),
      ap_fee = given 0 (cl_fee c), ap_fee_status = given ''UNPAID'' (cl_fee_status c),
      ap_created_by = or_default (or_empty (cl_created_by c)) (display_name u), ap_reviewer = None, ap_reviewer_name = None,
      ap_deadline = cl_deadline c, ap_decided = None, ap_reason = None, ap_conditions = None,
      ap_action = given ''Initial Screening Required'' (cl_action c), ap_items = given default_review_items (cl_items c),
      ap_documents = given (JArr []) (cl_documents c), ap_requests = []\<rparr>"

definition create_application ::
    "(string \<Rightarrow> string) \<Rightarrow> desk \<Rightarrow> application_call \<Rightarrow> permit_db \<Rightarrow> (permit_error + application) \<times> permit_db" where
  "create_application H dk c db = (case dk_user dk of
      None \<Rightarrow> (Inl Applicant_Required, db)
    | Some u \<Rightarrow>
        if \<not> list_ex (\<lambda>w. st_id w = cl_project c) (pd_sites db) then (Inl Project_Required, db)
        else let a = new_application dk u c
          in if list_ex (\<lambda>x. ap_id x = ap_id a \<or> ap_reference x = ap_reference a) (pd_applications db) then (Inl Row_Exists, db)
             else (Inr a, logged H dk ''Application'' ''APPLICATION_CREATED'' (ap_id a) JNull
                (JObj [(''reference'', JStr (ap_reference a)), (''status'', JStr (app_status_text (ap_status a)))])
                (db\<lparr>pd_applications := pd_applications db @ [a]\<rparr>)))"

definition put_application :: "application \<Rightarrow> permit_db \<Rightarrow> permit_db" where
  "put_application a db = db\<lparr>pd_applications := update_where (\<lambda>x. ap_id x = ap_id a) (\<lambda>_. a) (pd_applications db)\<rparr>"

section \<open>Transitions\<close>

definition valid_transitions :: "app_status \<Rightarrow> app_status list" where
  "valid_transitions s = (case s of
      Ap_Draft \<Rightarrow> [Ap_Submitted]
    | Ap_Submitted \<Rightarrow> [Ap_Under_Review, Ap_Rejected]
    | Ap_Under_Review \<Rightarrow> [Ap_Review_Completed, Ap_Approval_Requested, Ap_Conditional, Ap_Approved, Ap_Rejected]
    | Ap_Review_Completed \<Rightarrow> [Ap_Approval_Requested, Ap_Conditional, Ap_Approved, Ap_Rejected, Ap_Under_Review]
    | Ap_Approval_Requested \<Rightarrow> [Ap_Approved, Ap_Conditional, Ap_Rejected, Ap_Under_Review]
    | Ap_Conditional \<Rightarrow> [Ap_Approved, Ap_Rejected, Ap_Under_Review]
    | Ap_Approved \<Rightarrow> [Ap_Expired]
    | Ap_Rejected \<Rightarrow> [Ap_Submitted, Ap_Under_Review]
    | Ap_Expired \<Rightarrow> [Ap_Renewed, Ap_Submitted]
    | Ap_Renewed \<Rightarrow> [Ap_Expired])"

text \<open>The status the requested word names, when the table lists it.\<close>

definition listed :: "app_status \<Rightarrow> string \<Rightarrow> app_status option" where
  "listed s word = find (\<lambda>t. app_status_text t = word) (valid_transitions s)"

definition put_permit :: "permit \<Rightarrow> permit_db \<Rightarrow> permit_db" where
  "put_permit p db = db\<lparr>pd_permits := update_where (\<lambda>x. pm_id x = pm_id p) (\<lambda>_. p) (pd_permits db)\<rparr>"

definition permit_of :: "nat \<Rightarrow> permit_db \<Rightarrow> permit option" where
  "permit_of k db = first_where (\<lambda>p. pm_application p = k) (pd_permits db)"

definition permit_for :: "desk \<Rightarrow> string \<Rightarrow> application \<Rightarrow> permit" where
  "permit_for dk conditions a =
     \<lparr>pm_id = dk_new dk, pm_number = dk_number dk, pm_project = ap_project a, pm_application = ap_id a,
      pm_issuer = dk_profile dk, pm_issued = dk_today dk, pm_expiry = dk_today dk + 365, pm_status = ''ACTIVE'',
      pm_conditions = Some conditions, pm_renewals = 0, pm_renewed = None\<rparr>"

definition issue_permit :: "desk \<Rightarrow> string \<Rightarrow> application \<Rightarrow> permit_db \<Rightarrow> (permit_error + unit) \<times> permit_db" where
  "issue_permit dk conditions a db =
     (if list_ex (\<lambda>p. pm_id p = dk_new dk \<or> pm_number p = dk_number dk) (pd_permits db) then (Inl Row_Exists, db)
      else (Inr (), db\<lparr>pd_permits := pd_permits db @ [permit_for dk conditions a]\<rparr>))"

definition activate_site :: "nat \<Rightarrow> permit_db \<Rightarrow> permit_db" where
  "activate_site k db = db\<lparr>pd_sites := update_where (\<lambda>w. st_id w = k) (\<lambda>w. w\<lparr>st_status := ''ACTIVE''\<rparr>) (pd_sites db)\<rparr>"

definition approve_effects :: "desk \<Rightarrow> application \<Rightarrow> permit_db \<Rightarrow> (permit_error + unit) \<times> permit_db" where
  "approve_effects dk a db =
     (let db = activate_site (ap_project a) db
      in case permit_of (ap_id a) db of
           None \<Rightarrow> issue_permit dk (or_empty (ap_conditions a)) a db
         | Some p \<Rightarrow> (Inr (), if pm_status p \<noteq> ''ACTIVE'' then put_permit (p\<lparr>pm_status := ''ACTIVE''\<rparr>) db else db))"

definition conditional_effects ::
    "desk \<Rightarrow> string option \<Rightarrow> application \<Rightarrow> permit_db \<Rightarrow> (permit_error + unit) \<times> permit_db" where
  "conditional_effects dk conditions a db = (case permit_of (ap_id a) db of
      None \<Rightarrow> issue_permit dk (or_default (or_empty conditions) ''Approved subject to satisfaction of outstanding items.'') a db
    | Some p \<Rightarrow> (Inr (), db))"

text \<open>\<^verbatim>\<open>if reason: application.decision_reason = reason\<close>\<close>

definition if_given :: "string option \<Rightarrow> string option \<Rightarrow> string option" where
  "if_given x old = (if or_empty x = [] then old else x)"

definition decided_application :: "int \<Rightarrow> app_status \<Rightarrow> string option \<Rightarrow> string option \<Rightarrow> application \<Rightarrow> application" where
  "decided_application now s reason conditions a =
     a\<lparr>ap_status := s, ap_decided := Some now, ap_reason := if_given reason (ap_reason a),
       ap_conditions := if_given conditions (ap_conditions a)\<rparr>"

definition transition_effects ::
    "desk \<Rightarrow> app_status \<Rightarrow> string option \<Rightarrow> application \<Rightarrow> permit_db \<Rightarrow> (permit_error + unit) \<times> permit_db" where
  "transition_effects dk s conditions a db =
     (if s = Ap_Approved then approve_effects dk a db
      else if s = Ap_Conditional then conditional_effects dk conditions a db
      else (Inr (), db))"

text \<open>
  The role of the user is computed and then not used: the branch that would refuse is
  \<^verbatim>\<open>pass\<close>.
\<close>

definition transition_status ::
    "(string \<Rightarrow> string) \<Rightarrow> desk \<Rightarrow> string \<Rightarrow> string option \<Rightarrow> string option \<Rightarrow> application \<Rightarrow> permit_db
     \<Rightarrow> (permit_error + application) \<times> permit_db" where
  "transition_status H dk word reason conditions a db = (case listed (ap_status a) word of
      None \<Rightarrow> (Inl (Wrong_Transition (ap_status a) word), db)
    | Some s \<Rightarrow>
        let a' = decided_application (dk_now dk) s reason conditions a
        in and_then (transition_effects dk s conditions a' (put_application a' db)) (\<lambda>_ db.
             (Inr a', logged H dk ''Application'' (''APPLICATION_TRANSITION_'' @ word) (ap_id a)
                (JObj [(''status'', JStr (app_status_text (ap_status a))), (''decision_reason'', opt_json (ap_reason a)),
                       (''conditions'', opt_json (ap_conditions a))])
                (JObj [(''status'', JStr word), (''reason'', opt_json reason), (''conditions'', opt_json conditions)]) db)))"

definition assign_reviewer ::
    "(string \<Rightarrow> string) \<Rightarrow> desk \<Rightarrow> acc_user \<Rightarrow> string option \<Rightarrow> application \<Rightarrow> permit_db \<Rightarrow> application \<times> permit_db" where
  "assign_reviewer H dk reviewer deadline a db =
     (let a' = a\<lparr>ap_reviewer := Some (ac_id reviewer), ap_reviewer_name := Some (display_name reviewer),
                 ap_deadline := if_given deadline (ap_deadline a),
                 ap_status := if ap_status a = Ap_Submitted then Ap_Under_Review else ap_status a\<rparr>
      in (a', logged H dk ''Application'' ''APPLICATION_REVIEWER_ASSIGNED'' (ap_id a)
                (JObj [(''reviewer'', opt_json (ap_reviewer_name a))])
                (JObj [(''reviewer'', JStr (display_name reviewer)), (''deadline'', JStr (given ''None'' deadline))])
                (put_application a' db)))"

section \<open>Document requests\<close>

text \<open>\<^verbatim>\<open>strftime("%b %d, %Y")\<close>\<close>

definition month_names :: "string list" where
  "month_names = [''Jan'', ''Feb'', ''Mar'', ''Apr'', ''May'', ''Jun'', ''Jul'', ''Aug'', ''Sep'', ''Oct'', ''Nov'', ''Dec'']"

definition short_date :: "int \<Rightarrow> string" where
  "short_date t = (let (y, m, d) = civil_of_days (t div 86400000000)
     in month_names ! nat (m - 1) @ '' '' @ pad_int 2 d @ '', '' @ show_int y)"

definition desk_name :: "desk \<Rightarrow> string \<Rightarrow> string" where
  "desk_name dk fallback = (case dk_user dk of None \<Rightarrow> fallback | Some u \<Rightarrow> display_name u)"

definition request_name :: "nat \<Rightarrow> string" where
  "request_name n = ''REQ-'' @ pad_int 3 (int n)"

definition note_json :: "doc_note \<Rightarrow> json" where
  "note_json n = JObj [(''status'', JStr (dn_status n)), (''updated_at'', JStr (iso_instant (dn_at n))),
     (''note'', JStr (dn_note n)), (''updated_by'', JStr (dn_by n))]"

definition request_json :: "doc_request \<Rightarrow> json" where
  "request_json r = JObj
     [(''id'', JStr (dr_id r)), (''requested_items'', JArr (map JStr (dr_items r))),
      (''items_progress'', JObj (map (\<lambda>(k, v). (k, JStr v)) (dr_states r))), (''instructions'', JStr (dr_instructions r)),
      (''requested_by'', JStr (dr_by r)), (''requested_at'', JStr (iso_instant (dr_at r))), (''deadline'', JStr (dr_deadline r)),
      (''status'', JStr (dr_status r)), (''progress'', JInt (int (dr_progress r))),
      (''status_history'', JArr (map note_json (dr_history r)))]"

definition new_request :: "desk \<Rightarrow> string list \<Rightarrow> string \<Rightarrow> string option \<Rightarrow> nat \<Rightarrow> doc_request" where
  "new_request dk items instructions deadline n =
     \<lparr>dr_id = request_name (n + 1), dr_items = items, dr_states = foldl (\<lambda>d i. dict_put i ''PENDING'' d) [] items,
      dr_instructions = instructions, dr_by = desk_name dk ''Government Regulatory Desk'', dr_at = dk_now dk,
      dr_deadline = or_default (or_empty deadline) (short_date (dk_now dk + 7 * 86400000000)),
      dr_status = ''PENDING_SUBMISSION'', dr_progress = 0,
      dr_history = [\<lparr>dn_status = ''REQUEST_ISSUED'', dn_at = dk_now dk,
        dn_note = ''Formal requirement notice issued for '' @ show_nat (length items) @ '' technical documents.'',
        dn_by = desk_name dk ''Regulatory Desk''\<rparr>]\<rparr>"

definition request_additional_documents ::
    "(string \<Rightarrow> string) \<Rightarrow> desk \<Rightarrow> string list \<Rightarrow> string \<Rightarrow> string option \<Rightarrow> application \<Rightarrow> permit_db \<Rightarrow> application \<times> permit_db" where
  "request_additional_documents H dk items instructions deadline a db =
     (let r = new_request dk items instructions deadline (length (ap_requests a));
          a' = a\<lparr>ap_requests := ap_requests a @ [r], ap_action := ''Awaiting applicant submission: '' @ join_with '', '' items\<rparr>
      in (a', logged H dk ''Application'' ''APPLICATION_DOCUMENTS_REQUESTED'' (ap_id a) JNull (request_json r) (put_application a' db)))"

definition counted :: "string \<Rightarrow> bool" where
  "counted v \<longleftrightarrow> v \<in> set [''VERIFIED'', ''PASSED'', ''APPROVED'']"

definition verified_count :: "(string \<times> string) list \<Rightarrow> nat" where
  "verified_count d = length (filter counted (map snd d))"

text \<open>
  \<^verbatim>\<open>int((verified_count / total_items) * 100)\<close>: the quotient and the product are each
  rounded to the nearest double, a tie to the even one, and the result is cut. A double is given as
  a fraction; \<open>binade\<close> is the power of two it starts from, and 53 bits are kept. So 29 of 100 are
  28 percent.
\<close>

function binade :: "int \<Rightarrow> int \<Rightarrow> int" where
  "binade a b =
     (if a \<le> 0 \<or> b \<le> 0 then 0
      else if a < b then binade (2 * a) b - 1
      else if 2 * b \<le> a then binade a (2 * b) + 1
      else 0)"
  by pat_completeness auto

termination
  by (relation "measure (\<lambda>(a, b). nat (if a < b then b - a else if 2 * b \<le> a then a - b else 0))") auto

declare binade.simps [simp del]

definition nearest :: "int \<Rightarrow> int \<Rightarrow> int" where
  "nearest a b = (let q = a div b; r = a mod b in if 2 * r < b \<or> (2 * r = b \<and> even q) then q else q + 1)"

definition as_double :: "int \<times> int \<Rightarrow> int \<times> int" where
  "as_double x = (case x of (a, b) \<Rightarrow>
     let k = 52 - binade a b
     in if 0 \<le> k then (nearest (a * 2 ^ nat k) b, 2 ^ nat k)
        else (nearest a (b * 2 ^ nat (- k)) * 2 ^ nat (- k), 1))"

definition percent :: "nat \<Rightarrow> nat \<Rightarrow> nat" where
  "percent v n =
     (case as_double (int v, int n) of (a, b) \<Rightarrow>
      case as_double (a * 100, b) of (c, d) \<Rightarrow> nat (c div d))"

definition with_item :: "string \<Rightarrow> string option \<Rightarrow> doc_request \<Rightarrow> doc_request" where
  "with_item item state r =
     (let d = dict_put item (or_default (or_empty state) ''VERIFIED'') (dr_states r);
          v = verified_count d;
          pr = percent v (length (dr_items r))
      in if dr_items r = [] then r\<lparr>dr_states := d\<rparr>
         else r\<lparr>dr_states := d, dr_progress := pr,
                dr_status := if pr = 100 then ''COMPLETED''
                  else if 0 < v \<or> ''SUBMITTED'' \<in> set (map snd d) then ''IN_PROGRESS'' else dr_status r\<rparr>)"

definition progressed ::
    "desk \<Rightarrow> string option \<Rightarrow> string option \<Rightarrow> string option \<Rightarrow> string option \<Rightarrow> doc_request \<Rightarrow> doc_request" where
  "progressed dk item state note overall r =
     (let r = (if or_empty item = [] then r else with_item (or_empty item) state r);
          r = (if or_empty overall = [] then r else r\<lparr>dr_status := or_empty overall\<rparr>);
          what = (if or_empty state \<noteq> [] then or_empty state else given ''None'' overall)
      in r\<lparr>dr_history := dr_history r @ [\<lparr>dn_status = dr_status r, dn_at = dk_now dk,
             dn_note = or_default (or_empty note)
               (''Updated '' @ or_default (or_empty item) ''document requirement'' @ '' to '' @ what),
             dn_by = desk_name dk ''Regulatory Desk''\<rparr>]\<rparr>)"

text \<open>The first request of that name; the loop breaks there.\<close>

fun update_first :: "('a \<Rightarrow> bool) \<Rightarrow> ('a \<Rightarrow> 'a) \<Rightarrow> 'a list \<Rightarrow> 'a list" where
  "update_first P f [] = []"
| "update_first P f (x # xs) = (if P x then f x # xs else x # update_first P f xs)"

definition update_document_request_progress ::
    "(string \<Rightarrow> string) \<Rightarrow> desk \<Rightarrow> string \<Rightarrow> string option \<Rightarrow> string option \<Rightarrow> string option \<Rightarrow> string option
     \<Rightarrow> application \<Rightarrow> permit_db \<Rightarrow> application \<times> permit_db" where
  "update_document_request_progress H dk k item state note overall a db =
     (if \<not> list_ex (\<lambda>r. dr_id r = k) (ap_requests a) then (a, db)
      else let a' = a\<lparr>ap_requests := update_first (\<lambda>r. dr_id r = k) (progressed dk item state note overall) (ap_requests a)\<rparr>
        in (a', logged H dk ''Application'' ''DOCUMENT_REQUEST_PROGRESS_UPDATED'' (ap_id a) JNull
              (JObj [(''request_id'', JStr k), (''item'', opt_json item), (''status'', opt_json state)]) (put_application a' db)))"

section \<open>Permits\<close>

definition iso_day :: "int \<Rightarrow> string" where
  "iso_day d = (let (y, m, k) = civil_of_days d in pad_int 4 y @ ''-'' @ pad_int 2 m @ ''-'' @ pad_int 2 k)"

text \<open>A \<^verbatim>\<open>date\<close> lies in the years 1 to 9999.\<close>

definition date_ok :: "int \<Rightarrow> bool" where
  "date_ok d \<longleftrightarrow> -719162 \<le> d \<and> d \<le> 2932896"

definition renewed_permit :: "int \<Rightarrow> int \<Rightarrow> string option \<Rightarrow> permit \<Rightarrow> permit" where
  "renewed_permit today months notes p =
     p\<lparr>pm_expiry := max (pm_expiry p) today + months * 30, pm_status := ''ACTIVE'', pm_renewals := pm_renewals p + 1,
       pm_renewed := Some today,
       pm_conditions := (if or_empty notes = [] then pm_conditions p
         else Some (py_strip (or_empty (pm_conditions p) @ CHR 0x0A # ''Renewal Note: '' @ or_empty notes)))\<rparr>"

definition mark_renewed :: "nat \<Rightarrow> permit_db \<Rightarrow> permit_db" where
  "mark_renewed k db = db\<lparr>pd_applications :=
     update_where (\<lambda>a. ap_id a = k) (\<lambda>a. a\<lparr>ap_status := Ap_Renewed\<rparr>) (pd_applications db)\<rparr>"

definition renew_permit ::
    "(string \<Rightarrow> string) \<Rightarrow> desk \<Rightarrow> int \<Rightarrow> string option \<Rightarrow> permit \<Rightarrow> permit_db \<Rightarrow> (permit_error + permit) \<times> permit_db" where
  "renew_permit H dk months notes p db =
     (let p' = renewed_permit (dk_today dk) months notes p
      in if pm_status p \<notin> set [''ACTIVE'', ''EXPIRED''] then (Inl (Not_Renewable (pm_status p)), db)
         else if \<not> date_ok (pm_expiry p') then (Inl Date_Out_Of_Range, db)
         else (Inr p', logged H dk ''Permit'' ''PERMIT_RENEWED'' (pm_id p)
                (JObj [(''expiry_date'', JStr (iso_day (pm_expiry p))), (''status'', JStr (pm_status p'))])
                (JObj [(''expiry_date'', JStr (iso_day (pm_expiry p'))), (''renewal_count'', JInt (int (pm_renewals p')))])
                (mark_renewed (pm_application p) (put_permit p' db))))"

definition send_expiry_notice :: "(string \<Rightarrow> string) \<Rightarrow> desk \<Rightarrow> acc_user \<Rightarrow> permit \<Rightarrow> permit_db \<Rightarrow> json \<times> permit_db" where
  "send_expiry_notice H dk u p db =
     (let notice = JObj [(''permit_number'', JStr (pm_number p)),
            (''project'', JStr (case first_where (\<lambda>w. st_id w = pm_project p) (pd_sites db) of None \<Rightarrow> [] | Some w \<Rightarrow> st_name w)),
            (''expiry_date'', JStr (iso_day (pm_expiry p))), (''sent_at'', JStr (iso_instant (dk_now dk))),
            (''sent_by'', JStr (display_name u))]
      in (notice, logged H dk ''Permit'' ''PERMIT_EXPIRY_NOTICE_SENT'' (pm_id p) JNull notice db))"

definition halt_permit ::
    "(string \<Rightarrow> string) \<Rightarrow> desk \<Rightarrow> string \<Rightarrow> string \<Rightarrow> string \<Rightarrow> permit \<Rightarrow> permit_db \<Rightarrow> permit \<times> permit_db" where
  "halt_permit H dk status action reason p db =
     (let p' = p\<lparr>pm_status := status\<rparr>
      in (p', logged H dk ''Permit'' action (pm_id p) (JObj [(''status'', JStr (pm_status p))])
                (JObj [(''status'', JStr status), (''reason'', JStr reason)]) (put_permit p' db)))"

definition suspend_permit :: "(string \<Rightarrow> string) \<Rightarrow> desk \<Rightarrow> string \<Rightarrow> permit \<Rightarrow> permit_db \<Rightarrow> permit \<times> permit_db" where
  "suspend_permit H dk = halt_permit H dk ''SUSPENDED'' ''PERMIT_SUSPENDED''"

definition revoke_permit :: "(string \<Rightarrow> string) \<Rightarrow> desk \<Rightarrow> string \<Rightarrow> permit \<Rightarrow> permit_db \<Rightarrow> permit \<times> permit_db" where
  "revoke_permit H dk = halt_permit H dk ''REVOKED'' ''PERMIT_REVOKED''"

text \<open>
  The generic create of \<^verbatim>\<open>PermitViewSet\<close>: the serializer takes the project, the
  application and the dates from the client, checks that both rows exist, that the application has
  no permit yet and that the status is one of the choices, and asks nothing of the application.
\<close>

record permit_post =
  po_project :: nat
  po_application :: nat
  po_issuer :: "nat option"
  po_issued :: "int option"
  po_expiry :: int
  po_status :: "string option"
  po_conditions :: "string option"
  po_renewals :: "nat option"
  po_renewed :: "int option"

datatype post_refusal = Unknown_Project | Unknown_Application | Application_Taken | Not_A_Choice | Number_Taken

definition permit_choices :: "string list" where
  "permit_choices = [''ACTIVE'', ''SUSPENDED'', ''REVOKED'', ''EXPIRED'', ''RENEWED'']"

definition posted_permit :: "desk \<Rightarrow> permit_post \<Rightarrow> permit" where
  "posted_permit dk c =
     \<lparr>pm_id = dk_new dk, pm_number = dk_number dk, pm_project = po_project c, pm_application = po_application c,
      pm_issuer = po_issuer c, pm_issued = given (dk_today dk) (po_issued c), pm_expiry = po_expiry c,
      pm_status = given ''ACTIVE'' (po_status c), pm_conditions = po_conditions c,
      pm_renewals = given 0 (po_renewals c), pm_renewed = po_renewed c\<rparr>"

definition post_permit :: "desk \<Rightarrow> permit_post \<Rightarrow> permit_db \<Rightarrow> (post_refusal + permit) \<times> permit_db" where
  "post_permit dk c db =
     (if \<not> list_ex (\<lambda>w. st_id w = po_project c) (pd_sites db) then (Inl Unknown_Project, db)
      else if \<not> list_ex (\<lambda>a. ap_id a = po_application c) (pd_applications db) then (Inl Unknown_Application, db)
      else if permit_of (po_application c) db \<noteq> None then (Inl Application_Taken, db)
      else if given ''ACTIVE'' (po_status c) \<notin> set permit_choices then (Inl Not_A_Choice, db)
      else if list_ex (\<lambda>p. pm_id p = dk_new dk \<or> pm_number p = dk_number dk) (pd_permits db) then (Inl Number_Taken, db)
      else (Inr (posted_permit dk c), db\<lparr>pd_permits := pd_permits db @ [posted_permit dk c]\<rparr>))"

section \<open>Runs\<close>

text \<open>
  The number of a new permit is drawn at random; \<open>fresh_number\<close> says that it was not drawn
  before. A run may draw a number again: the approval then fails after the application was saved.
  The runs with \<open>fresh = True\<close> are those in which that never happens.
\<close>

definition fresh_number :: "desk \<Rightarrow> permit_db \<Rightarrow> bool" where
  "fresh_number dk db \<longleftrightarrow> \<not> list_ex (\<lambda>p. pm_id p = dk_new dk \<or> pm_number p = dk_number dk) (pd_permits db)"

inductive permit_step :: "bool \<Rightarrow> (string \<Rightarrow> string) \<Rightarrow> permit_db \<Rightarrow> permit_db \<Rightarrow> bool"
    for fresh :: bool and H :: "string \<Rightarrow> string" where
  filed: "permit_step fresh H db (snd (create_application H dk c db))"
| moved: "a \<in> set (pd_applications db) \<Longrightarrow> fresh \<longrightarrow> fresh_number dk db \<Longrightarrow>
    permit_step fresh H db (snd (transition_status H dk word reason conditions a db))"
| assigned: "a \<in> set (pd_applications db) \<Longrightarrow> permit_step fresh H db (snd (assign_reviewer H dk u deadline a db))"
| asked: "a \<in> set (pd_applications db) \<Longrightarrow>
    permit_step fresh H db (snd (request_additional_documents H dk items instructions deadline a db))"
| tracked: "a \<in> set (pd_applications db) \<Longrightarrow>
    permit_step fresh H db (snd (update_document_request_progress H dk k item state note overall a db))"
| extended: "p \<in> set (pd_permits db) \<Longrightarrow> permit_step fresh H db (snd (renew_permit H dk months notes p db))"
| noticed: "p \<in> set (pd_permits db) \<Longrightarrow> permit_step fresh H db (snd (send_expiry_notice H dk u p db))"
| suspended: "p \<in> set (pd_permits db) \<Longrightarrow> permit_step fresh H db (snd (suspend_permit H dk reason p db))"
| revoked: "p \<in> set (pd_permits db) \<Longrightarrow> permit_step fresh H db (snd (revoke_permit H dk reason p db))"

inductive permit_run :: "bool \<Rightarrow> (string \<Rightarrow> string) \<Rightarrow> permit_db \<Rightarrow> bool" for fresh :: bool and H :: "string \<Rightarrow> string" where
  start: "permit_run fresh H \<lparr>pd_sites = ws, pd_applications = [], pd_permits = [], pd_audit = []\<rparr>"
| step: "permit_run fresh H db \<Longrightarrow> permit_step fresh H db db' \<Longrightarrow> permit_run fresh H db'"

text \<open>A series of requested words, each on the application as it is stored then.\<close>

fun follow :: "(string \<Rightarrow> string) \<Rightarrow> desk \<Rightarrow> nat \<Rightarrow> string list \<Rightarrow> permit_db \<Rightarrow> (permit_error + unit) \<times> permit_db" where
  "follow H dk k [] db = (Inr (), db)"
| "follow H dk k (w # ws) db = (case first_where (\<lambda>a. ap_id a = k) (pd_applications db) of
      None \<Rightarrow> (Inl Project_Required, db)
    | Some a \<Rightarrow> and_then (transition_status H dk w None None a db) (\<lambda>_. follow H dk k ws))"

end
