(* ===== verification/Permit_Workflow.thy ===== *)
theory Permit_Workflow
  imports Permit_Applications
begin

text \<open>
  What holds of permit applications and permits: which states can follow each other, which
  permits there are, that an approval can always be reached, what a renewal does and when a
  request for documents is complete.
\<close>

section \<open>What an operation writes\<close>

lemma logged_frame [simp]:
  "pd_sites (logged H dk resource action k previous new_state db) = pd_sites db"
  "pd_applications (logged H dk resource action k previous new_state db) = pd_applications db"
  "pd_permits (logged H dk resource action k previous new_state db) = pd_permits db"
  by (simp_all add: logged_def)

lemma put_frame [simp]:
  "pd_permits (put_application a db) = pd_permits db"
  "pd_applications (put_permit p db) = pd_applications db"
  "pd_applications (activate_site k db) = pd_applications db"
  "pd_permits (activate_site k db) = pd_permits db"
  "pd_permits (mark_renewed k db) = pd_permits db"
  by (simp_all add: put_application_def put_permit_def activate_site_def mark_renewed_def)

lemma permit_of_activate [simp]: "permit_of k (activate_site j db) = permit_of k db"
  by (simp add: permit_of_def)

lemma permit_of_put_application [simp]: "permit_of k (put_application a db) = permit_of k db"
  by (simp add: permit_of_def)

lemma listed_Some: "listed s w = Some t \<Longrightarrow> t \<in> set (valid_transitions s) \<and> app_status_text t = w"
  by (auto simp: listed_def find_Some_iff)

lemma app_status_text_inj [simp]: "app_status_text s = app_status_text t \<longleftrightarrow> s = t"
  by (cases s; cases t) (simp_all add: app_status_text_def)

lemma listed_text: "listed s (app_status_text t) = (if t \<in> set (valid_transitions s) then Some t else None)"
  by (cases s; cases t) (simp_all add: listed_def valid_transitions_def)

lemma decided_application_keeps [simp]:
  "ap_id (decided_application now s r c a) = ap_id a" "ap_project (decided_application now s r c a) = ap_project a"
  "ap_status (decided_application now s r c a) = s" "ap_requests (decided_application now s r c a) = ap_requests a"
  by (simp_all add: decided_application_def)

lemma renewed_permit_keeps [simp]:
  "pm_id (renewed_permit t m n p) = pm_id p" "pm_application (renewed_permit t m n p) = pm_application p"
  "pm_project (renewed_permit t m n p) = pm_project p" "pm_status (renewed_permit t m n p) = ''ACTIVE''"
  by (simp_all add: renewed_permit_def)

section \<open>Keys\<close>

definition app_key :: "application \<Rightarrow> nat \<times> nat" where
  "app_key a = (ap_id a, ap_project a)"

definition permit_key :: "permit \<Rightarrow> nat \<times> nat \<times> nat" where
  "permit_key p = (pm_id p, pm_application p, pm_project p)"

text \<open>The rows an update replaces keep their keys.\<close>

lemma put_application_keys:
  assumes "distinct (map ap_id (pd_applications db))" "a \<in> set (pd_applications db)" "app_key a' = app_key a"
  shows "map app_key (pd_applications (put_application a' db)) = map app_key (pd_applications db)"
proof -
  have "app_key x = app_key a'" if "x \<in> set (pd_applications db)" "ap_id x = ap_id a'" for x
    using distinct_map_key [OF assms(1) that(1) assms(2)] that(2) assms(3) by (simp add: app_key_def)
  then show ?thesis by (auto simp: put_application_def update_where_def)
qed

lemma put_permit_keys:
  assumes "distinct (map pm_id (pd_permits db))" "p \<in> set (pd_permits db)" "permit_key p' = permit_key p"
  shows "map permit_key (pd_permits (put_permit p' db)) = map permit_key (pd_permits db)"
proof -
  have "permit_key x = permit_key p'" if "x \<in> set (pd_permits db)" "pm_id x = pm_id p'" for x
    using distinct_map_key [OF assms(1) that(1) assms(2)] that(2) assms(3) by (simp add: permit_key_def)
  then show ?thesis by (auto simp: put_permit_def update_where_def)
qed

lemma mark_renewed_keys: "map app_key (pd_applications (mark_renewed k db)) = map app_key (pd_applications db)"
  by (simp add: mark_renewed_def update_where_def app_key_def)

section \<open>The invariant\<close>

text \<open>The statuses of an application that has been granted something.\<close>

definition entitled :: "app_status \<Rightarrow> bool" where
  "entitled s \<longleftrightarrow> s \<in> {Ap_Conditional, Ap_Approved, Ap_Expired, Ap_Renewed}"

definition requests_ok :: "doc_request list \<Rightarrow> bool" where
  "requests_ok rs \<longleftrightarrow> map dr_id rs = map (\<lambda>i. request_name (i + 1)) [0..<length rs] \<and>
     list_all (\<lambda>r. distinct (map fst (dr_states r)) \<and> set (dr_items r) \<subseteq> fst ` set (dr_states r)) rs"

definition permit_rows_ok :: "(nat \<times> nat) list \<Rightarrow> (nat \<times> nat \<times> nat) list \<Rightarrow> bool" where
  "permit_rows_ok as ps \<longleftrightarrow> distinct (map fst as) \<and> distinct (map fst ps) \<and> distinct (map (fst \<circ> snd) ps) \<and>
     snd ` set ps \<subseteq> set as"

definition permit_inv :: "bool \<Rightarrow> permit_db \<Rightarrow> bool" where
  "permit_inv fresh db \<longleftrightarrow>
     permit_rows_ok (map app_key (pd_applications db)) (map permit_key (pd_permits db)) \<and>
     (\<forall>p \<in> set (pd_permits db). pm_status p \<in> {''ACTIVE'', ''SUSPENDED'', ''REVOKED''}) \<and>
     (fresh \<longrightarrow> (\<forall>a \<in> set (pd_applications db). entitled (ap_status a) \<longrightarrow> ap_id a \<in> pm_application ` set (pd_permits db))) \<and>
     (\<forall>a \<in> set (pd_applications db). requests_ok (ap_requests a))"

lemma permit_inv_ids:
  assumes "permit_inv fresh db"
  shows "distinct (map ap_id (pd_applications db))" "distinct (map pm_id (pd_permits db))"
  using assms by (simp_all add: permit_inv_def permit_rows_ok_def app_key_def permit_key_def comp_def)

lemma permit_inv_logged [simp]: "permit_inv fresh (logged H dk resource action k previous new_state db) = permit_inv fresh db"
  by (simp add: permit_inv_def)

lemma permit_inv_activate [simp]: "permit_inv fresh (activate_site k db) = permit_inv fresh db"
  by (simp add: permit_inv_def)

lemma permit_inv_put_application:
  assumes inv: "permit_inv fresh db" "a \<in> set (pd_applications db)" and new: "app_key a' = app_key a" "requests_ok (ap_requests a')"
    and "fresh \<Longrightarrow> entitled (ap_status a') \<Longrightarrow> ap_id a' \<in> pm_application ` set (pd_permits db)"
  shows "permit_inv fresh (put_application a' db)"
proof -
  note keys = put_application_keys [OF permit_inv_ids(1) [OF inv(1)] inv(2) new(1)]
  have mem: "x = a' \<or> x \<in> set (pd_applications db)" if "x \<in> set (pd_applications (put_application a' db))" for x
    using that by (auto simp: put_application_def set_update_where)
  have "fresh \<longrightarrow> (\<forall>x \<in> set (pd_applications (put_application a' db)). entitled (ap_status x) \<longrightarrow>
      ap_id x \<in> pm_application ` set (pd_permits db))"
    using mem inv(1) assms(5) unfolding permit_inv_def by blast
  moreover have "\<forall>x \<in> set (pd_applications (put_application a' db)). requests_ok (ap_requests x)"
    using mem inv(1) new(2) unfolding permit_inv_def by blast
  ultimately show ?thesis using inv(1) unfolding permit_inv_def keys by simp
qed

lemma permit_inv_put_permit:
  assumes inv: "permit_inv fresh db" "p \<in> set (pd_permits db)" and new: "permit_key p' = permit_key p"
    and "pm_status p' \<in> {''ACTIVE'', ''SUSPENDED'', ''REVOKED''}"
  shows "permit_inv fresh (put_permit p' db)"
proof -
  note keys = put_permit_keys [OF permit_inv_ids(2) [OF inv(1)] inv(2) new]
  have "x = p' \<or> x \<in> set (pd_permits db)" if "x \<in> set (pd_permits (put_permit p' db))" for x
    using that by (auto simp: put_permit_def set_update_where)
  then have "\<forall>x \<in> set (pd_permits (put_permit p' db)). pm_status x \<in> {''ACTIVE'', ''SUSPENDED'', ''REVOKED''}"
    using inv(1) assms(4) unfolding permit_inv_def by blast
  moreover have "pm_application ` set (pd_permits (put_permit p' db)) = pm_application ` set (pd_permits db)"
    using arg_cong [OF keys, of "\<lambda>ks. (fst \<circ> snd) ` set ks"] by (simp add: permit_key_def image_comp comp_def)
  ultimately show ?thesis using inv(1) unfolding permit_inv_def keys by simp
qed

section \<open>Every operation keeps it\<close>

lemma permit_rows_ok_snoc: "permit_rows_ok as ps \<Longrightarrow> fst k \<notin> fst ` set as \<Longrightarrow> permit_rows_ok (as @ [k]) ps"
  by (auto simp: permit_rows_ok_def)

lemma filed_inv: "permit_inv fresh db \<Longrightarrow> permit_inv fresh (snd (create_application H dk c db))"
proof (cases "dk_user dk")
  case (Some u)
  let ?a = "new_application dk u c"
  assume inv: "permit_inv fresh db"
  show ?thesis
  proof (cases "list_ex (\<lambda>w. st_id w = cl_project c) (pd_sites db) \<and>
      \<not> list_ex (\<lambda>x. ap_id x = ap_id ?a \<or> ap_reference x = ap_reference ?a) (pd_applications db)")
    case True
    then have "ap_id ?a \<notin> ap_id ` set (pd_applications db)" by (auto simp: list_ex_iff)
    then have "permit_rows_ok (map app_key (pd_applications db) @ [app_key ?a]) (map permit_key (pd_permits db))"
      using inv by (intro permit_rows_ok_snoc) (auto simp: permit_inv_def app_key_def)
    moreover have "\<not> entitled (ap_status ?a)" "requests_ok (ap_requests ?a)"
      by (simp_all add: new_application_def entitled_def requests_ok_def)
    ultimately have "permit_inv fresh (db\<lparr>pd_applications := pd_applications db @ [?a]\<rparr>)"
      using inv by (simp add: permit_inv_def)
    then show ?thesis using True Some by (simp add: create_application_def Let_def)
  next
    case False
    then show ?thesis using inv Some by (auto simp: create_application_def Let_def)
  qed
qed (simp add: create_application_def)

lemma issued_inv:
  assumes inv: "permit_inv fresh db" and "a \<in> set (pd_applications db)" "app_key a' = app_key a" "fresh_number dk db"
    "permit_of (ap_id a') db = None"
  shows "permit_inv fresh (db\<lparr>pd_permits := pd_permits db @ [permit_for dk conditions a']\<rparr>)"
proof -
  have "app_key a' \<in> app_key ` set (pd_applications db)" using assms(2,3) by (metis imageI)
  then show ?thesis
    using assms by (auto simp: permit_inv_def permit_rows_ok_def permit_key_def permit_for_def fresh_number_def list_ex_iff
        permit_of_def first_where_None app_key_def comp_def)
qed

text \<open>A permit is issued while the application already has its new status.\<close>

lemma issue_put_commute:
  "issue_permit dk conditions a' (put_application a db) =
   (if fresh_number dk db then (Inr (), put_application a (db\<lparr>pd_permits := pd_permits db @ [permit_for dk conditions a']\<rparr>))
    else (Inl Row_Exists, put_application a db))"
  by (simp add: issue_permit_def fresh_number_def put_application_def)

lemma granted_inv:
  assumes inv: "permit_inv fresh db" and a: "a \<in> set (pd_applications db)" and key: "app_key a' = app_key a"
    and rest: "requests_ok (ap_requests a')" "fresh \<longrightarrow> fresh_number dk db" "permit_of (ap_id a') db = None"
  shows "permit_inv fresh (snd (issue_permit dk conditions a' (put_application a' db)))"
proof (cases "fresh_number dk db")
  case True
  have "permit_inv fresh (put_application a' (db\<lparr>pd_permits := pd_permits db @ [permit_for dk conditions a']\<rparr>))"
    by (rule permit_inv_put_application [OF issued_inv [OF inv a key True rest(3)] _ key rest(1)])
      (simp_all add: a permit_for_def)
  then show ?thesis by (simp add: issue_put_commute True)
next
  case False
  with rest(2) have "permit_inv fresh (put_application a' db)"
    by (intro permit_inv_put_application [OF inv a key rest(1)]) simp
  then show ?thesis by (simp add: issue_put_commute False)
qed

lemma permit_of_Some: "permit_of k db = Some p \<Longrightarrow> p \<in> set (pd_permits db) \<and> pm_application p = k"
  by (auto simp: permit_of_def dest: first_where_Some)

lemma activate_put: "activate_site k (put_application a db) = put_application a (activate_site k db)"
  by (simp add: activate_site_def put_application_def)

lemma fresh_activate [simp]: "fresh_number dk (activate_site k db) = fresh_number dk db"
  by (simp add: fresh_number_def)

lemma effects_inv:
  assumes inv: "permit_inv fresh db" and a: "a \<in> set (pd_applications db)" and key: "app_key a' = app_key a"
    and rest: "requests_ok (ap_requests a')" "fresh \<longrightarrow> fresh_number dk db" and s: "s \<in> set (valid_transitions (ap_status a))"
      "ap_status a' = s"
  shows "permit_inv fresh (snd (transition_effects dk s conditions a' (put_application a' db)))"
proof (cases "permit_of (ap_id a') db")
  case None
  then have "ap_id a' \<notin> pm_application ` set (pd_permits db)" by (auto simp: permit_of_def first_where_None)
  moreover have "ap_id a' = ap_id a" using key by (simp add: app_key_def)
  ultimately have "fresh \<Longrightarrow> \<not> entitled (ap_status a)" using inv a by (auto simp: permit_inv_def)
  with s have "s = Ap_Approved \<or> s = Ap_Conditional \<or> (fresh \<longrightarrow> \<not> entitled s)"
    by (cases "ap_status a") (auto simp: valid_transitions_def entitled_def)
  moreover have "permit_inv fresh (snd (approve_effects dk a' (put_application a' db)))"
    using granted_inv [of fresh "activate_site (ap_project a') db" a a'] assms None
    by (simp add: approve_effects_def activate_put Let_def)
  moreover have "permit_inv fresh (snd (conditional_effects dk conditions a' (put_application a' db)))"
    using granted_inv [OF inv a key rest None] None by (simp add: conditional_effects_def)
  moreover have "permit_inv fresh (put_application a' db)" if "fresh \<longrightarrow> \<not> entitled s"
    using that s(2) by (intro permit_inv_put_application [OF inv a key rest(1)]) simp
  ultimately show ?thesis by (auto simp: transition_effects_def)
next
  case (Some p)
  note p = permit_of_Some [OF Some]
  have put: "permit_inv fresh (put_application a' db)"
    by (rule permit_inv_put_application [OF inv a key rest(1)]) (use p in \<open>metis imageI\<close>)
  have "permit_inv fresh (put_permit (p\<lparr>pm_status := ''ACTIVE''\<rparr>) (activate_site (ap_project a') (put_application a' db)))"
    by (rule permit_inv_put_permit [of fresh _ p]) (use put p in \<open>simp_all add: permit_key_def\<close>)
  then show ?thesis
    using put Some by (simp add: transition_effects_def approve_effects_def conditional_effects_def Let_def)
qed

lemma moved_inv:
  assumes "permit_inv fresh db" "a \<in> set (pd_applications db)" "fresh \<longrightarrow> fresh_number dk db"
  shows "permit_inv fresh (snd (transition_status H dk word reason conditions a db))"
proof (cases "listed (ap_status a) word")
  case None
  then show ?thesis using assms(1) by (simp add: transition_status_def)
next
  case (Some s)
  let ?a = "decided_application (dk_now dk) s reason conditions a"
  have "permit_inv fresh (snd (transition_effects dk s conditions ?a (put_application ?a db)))"
    using effects_inv [OF assms(1,2), of ?a dk s] assms listed_Some [OF Some] by (simp add: app_key_def permit_inv_def)
  moreover obtain r db' where eff: "transition_effects dk s conditions ?a (put_application ?a db) = (r, db')" by force
  ultimately show ?thesis by (cases r) (simp_all add: transition_status_def Some Let_def)
qed

lemma assigned_inv:
  assumes "permit_inv fresh db" "a \<in> set (pd_applications db)"
  shows "permit_inv fresh (snd (assign_reviewer H dk u deadline a db))"
proof -
  let ?a = "a\<lparr>ap_reviewer := Some (ac_id u), ap_reviewer_name := Some (display_name u),
    ap_deadline := if_given deadline (ap_deadline a),
    ap_status := if ap_status a = Ap_Submitted then Ap_Under_Review else ap_status a\<rparr>"
  have "requests_ok (ap_requests a)" "fresh \<Longrightarrow> entitled (ap_status a) \<Longrightarrow> ap_id a \<in> pm_application ` set (pd_permits db)"
    using assms by (simp_all add: permit_inv_def)
  then have "permit_inv fresh (put_application ?a db)"
    by (intro permit_inv_put_application [OF assms]) (simp_all add: app_key_def entitled_def split: if_splits)
  then show ?thesis by (simp add: assign_reviewer_def Let_def)
qed

lemma request_keys:
  "fst ` set (foldl (\<lambda>d i. dict_put i v d) d items) = fst ` set d \<union> set items"
  "distinct (map fst d) \<Longrightarrow> distinct (map fst (foldl (\<lambda>d i. dict_put i v d) d items))"
  by (induction items arbitrary: d) (auto simp: dict_put_keys distinct_dict_put)

lemma requests_ok_snoc: "requests_ok rs \<Longrightarrow> requests_ok (rs @ [new_request dk items instructions deadline (length rs)])"
  by (simp add: requests_ok_def new_request_def request_keys)

lemma asked_inv:
  assumes "permit_inv fresh db" "a \<in> set (pd_applications db)"
  shows "permit_inv fresh (snd (request_additional_documents H dk items instructions deadline a db))"
  using permit_inv_put_application [OF assms, of "a\<lparr>ap_requests := ap_requests a @ [new_request dk items instructions deadline
      (length (ap_requests a))], ap_action := ''Awaiting applicant submission: '' @ join_with '', '' items\<rparr>"] assms
  by (simp add: request_additional_documents_def Let_def app_key_def permit_inv_def requests_ok_snoc)

lemma with_item_keeps:
  "dr_id (with_item i v r) = dr_id r" "dr_items (with_item i v r) = dr_items r"
  "dr_states (with_item i v r) = dict_put i (or_default (or_empty v) ''VERIFIED'') (dr_states r)"
  by (simp_all add: with_item_def Let_def)

lemma progressed_keeps:
  "dr_id (progressed dk item state note overall r) = dr_id r"
  "dr_items (progressed dk item state note overall r) = dr_items r"
  "dr_states (progressed dk item state note overall r) =
    (if or_empty item = [] then dr_states r else dict_put (or_empty item) (or_default (or_empty state) ''VERIFIED'') (dr_states r))"
  by (simp_all add: progressed_def Let_def with_item_keeps)

lemma update_first_facts:
  assumes "\<And>r. dr_id (f r) = dr_id r"
  shows "map dr_id (update_first P f rs) = map dr_id rs" "length (update_first P f rs) = length rs"
    "r \<in> set (update_first P f rs) \<Longrightarrow> r \<in> set rs \<or> (\<exists>r' \<in> set rs. r = f r')"
  using assms by (induction rs) (auto split: if_splits)

lemma requests_ok_update: "requests_ok rs \<Longrightarrow> requests_ok (update_first P (progressed dk item state note overall) rs)"
proof -
  let ?f = "progressed dk item state note overall"
  assume ok: "requests_ok rs"
  have "distinct (map fst (dr_states (?f r))) \<and> set (dr_items (?f r)) \<subseteq> fst ` set (dr_states (?f r))" if "r \<in> set rs" for r
    using ok that by (auto simp: requests_ok_def list_all_iff progressed_keeps distinct_dict_put dict_put_keys)
  then have "\<forall>r \<in> set (update_first P ?f rs). distinct (map fst (dr_states r)) \<and> set (dr_items r) \<subseteq> fst ` set (dr_states r)"
    using ok update_first_facts(3) [where f = ?f and P = P and rs = rs, OF progressed_keeps(1)]
    unfolding requests_ok_def list_all_iff by blast
  moreover have "map dr_id (update_first P ?f rs) = map dr_id rs" "length (update_first P ?f rs) = length rs"
    by (simp_all add: update_first_facts progressed_keeps(1))
  ultimately show ?thesis using ok unfolding requests_ok_def list_all_iff by simp
qed

lemma tracked_inv:
  assumes "permit_inv fresh db" "a \<in> set (pd_applications db)"
  shows "permit_inv fresh (snd (update_document_request_progress H dk k item state note overall a db))"
  using permit_inv_put_application [OF assms, of "a\<lparr>ap_requests :=
      update_first (\<lambda>r. dr_id r = k) (progressed dk item state note overall) (ap_requests a)\<rparr>"] assms
  by (simp add: update_document_request_progress_def Let_def app_key_def permit_inv_def requests_ok_update)

lemma mark_renewed_inv:
  assumes "permit_inv fresh db" "k \<in> pm_application ` set (pd_permits db)"
  shows "permit_inv fresh (mark_renewed k db)"
proof -
  have "x \<in> set (pd_applications db) \<or> (\<exists>a \<in> set (pd_applications db). ap_id a = k \<and> x = a\<lparr>ap_status := Ap_Renewed\<rparr>)"
    if "x \<in> set (pd_applications (mark_renewed k db))" for x
    using that by (auto simp: mark_renewed_def set_update_where)
  then show ?thesis using assms unfolding permit_inv_def mark_renewed_keys by fastforce
qed

lemma extended_inv:
  assumes "permit_inv fresh db" "p \<in> set (pd_permits db)"
  shows "permit_inv fresh (snd (renew_permit H dk months notes p db))"
proof -
  let ?p = "renewed_permit (dk_today dk) months notes p"
  have "permit_inv fresh (put_permit ?p db)"
    by (rule permit_inv_put_permit [OF assms]) (simp_all add: permit_key_def)
  moreover have "?p \<in> set (pd_permits (put_permit ?p db))"
    using assms(2) by (force simp: put_permit_def set_update_where)
  then have "pm_application p \<in> pm_application ` set (pd_permits (put_permit ?p db))"
    by (metis imageI renewed_permit_keeps(2))
  ultimately have "permit_inv fresh (mark_renewed (pm_application p) (put_permit ?p db))" by (rule mark_renewed_inv)
  then show ?thesis using assms(1) by (simp add: renew_permit_def Let_def)
qed

lemma halted_inv:
  assumes "permit_inv fresh db" "p \<in> set (pd_permits db)" "s \<in> {''SUSPENDED'', ''REVOKED''}"
  shows "permit_inv fresh (snd (halt_permit H dk s action reason p db))"
  using permit_inv_put_permit [OF assms(1,2), of "p\<lparr>pm_status := s\<rparr>"] assms(3)
  by (auto simp: halt_permit_def Let_def permit_key_def)

lemma permit_step_inv: "permit_step fresh H db db' \<Longrightarrow> permit_inv fresh db \<Longrightarrow> permit_inv fresh db'"
proof (induction rule: permit_step.induct)
  case (noticed p db dk u)
  then show ?case by (simp add: send_expiry_notice_def Let_def)
qed (simp_all add: filed_inv moved_inv assigned_inv asked_inv tracked_inv extended_inv halted_inv suspend_permit_def
    revoke_permit_def)

lemma permit_run_inv: "permit_run fresh H db \<Longrightarrow> permit_inv fresh db"
proof (induction rule: permit_run.induct)
  case (start ws)
  show ?case by (simp add: permit_inv_def permit_rows_ok_def)
qed (rule permit_step_inv)

section \<open>Results\<close>

text \<open>
  C35. Along every run of the two services each permit has its own application, for the same
  project, and a status among active, suspended and revoked, and the document requests of an
  application are numbered in order. An application that was granted anything has its permit in
  every run that draws no permit number twice; when a number is drawn again, the approval fails
  after the application was saved, which leaves an approved application without a permit.
\<close>
theorem permits_accounted:
  assumes "permit_run fresh H db"
  shows "distinct (map pm_application (pd_permits db)) \<and>
    (\<forall>p \<in> set (pd_permits db). pm_status p \<in> {''ACTIVE'', ''SUSPENDED'', ''REVOKED''} \<and>
      (\<exists>a \<in> set (pd_applications db). ap_id a = pm_application p \<and> ap_project a = pm_project p)) \<and>
    (\<forall>a \<in> set (pd_applications db).
      (fresh \<and> ap_status a \<in> {Ap_Conditional, Ap_Approved, Ap_Expired, Ap_Renewed} \<longrightarrow> permit_of (ap_id a) db \<noteq> None) \<and>
      map dr_id (ap_requests a) = map (\<lambda>i. request_name (i + 1)) [0..<length (ap_requests a)])"
proof (intro conjI ballI impI)
  have inv: "permit_inv fresh db" by (rule permit_run_inv [OF assms])
  then show "distinct (map pm_application (pd_permits db))"
    by (simp add: permit_inv_def permit_rows_ok_def permit_key_def comp_def)
  show "\<exists>a \<in> set (pd_applications db). ap_id a = pm_application p \<and> ap_project a = pm_project p"
    if "p \<in> set (pd_permits db)" for p
  proof -
    have "snd (permit_key p) \<in> app_key ` set (pd_applications db)"
      using inv that by (auto simp: permit_inv_def permit_rows_ok_def)
    then show ?thesis by (auto simp: permit_key_def app_key_def)
  qed
  show "permit_of (ap_id a) db \<noteq> None"
    if "a \<in> set (pd_applications db)" "fresh \<and> ap_status a \<in> {Ap_Conditional, Ap_Approved, Ap_Expired, Ap_Renewed}" for a
  proof -
    have "ap_id a \<in> pm_application ` set (pd_permits db)"
      using inv that unfolding permit_inv_def entitled_def by blast
    then show ?thesis by (auto simp: permit_of_def first_where_None)
  qed
  show "pm_status p \<in> {''ACTIVE'', ''SUSPENDED'', ''REVOKED''}" if "p \<in> set (pd_permits db)" for p
    using inv that unfolding permit_inv_def by blast
  show "map dr_id (ap_requests a) = map (\<lambda>i. request_name (i + 1)) [0..<length (ap_requests a)]"
    if "a \<in> set (pd_applications db)" for a
    using inv that unfolding permit_inv_def requests_ok_def by blast
qed

lemma transition_effects_frame:
  "pd_applications (snd (transition_effects dk s conditions a db)) = pd_applications db"
  by (simp add: transition_effects_def approve_effects_def conditional_effects_def issue_permit_def Let_def split: option.split)

lemma transition_applications:
  "pd_applications (snd (transition_status H dk word reason conditions a db)) =
   (case listed (ap_status a) word of None \<Rightarrow> pd_applications db
    | Some s \<Rightarrow> pd_applications (put_application (decided_application (dk_now dk) s reason conditions a) db))"
proof (cases "listed (ap_status a) word")
  case (Some s)
  let ?a = "decided_application (dk_now dk) s reason conditions a"
  obtain r db' where eff: "transition_effects dk s conditions ?a (put_application ?a db) = (r, db')" by force
  then show ?thesis
    using transition_effects_frame [of dk s conditions ?a "put_application ?a db"] Some
    by (cases r) (simp_all add: transition_status_def Let_def)
qed (simp add: transition_status_def)

text \<open>What a step makes of a stored application: it may only move along the table, or become a renewed one.\<close>

definition moved_along :: "application \<Rightarrow> application \<Rightarrow> bool" where
  "moved_along a a' \<longleftrightarrow> ap_status a' = ap_status a \<or> ap_status a' \<in> set (valid_transitions (ap_status a)) \<or> ap_status a' = Ap_Renewed"

lemma put_application_origin:
  "x \<in> set (pd_applications (put_application b' db)) \<Longrightarrow> b \<in> set (pd_applications db) \<Longrightarrow> ap_id b' = ap_id b \<Longrightarrow> moved_along b b' \<Longrightarrow>
   \<exists>a \<in> set (pd_applications db). ap_id a = ap_id x \<and> moved_along a x"
  by (auto simp: put_application_def set_update_where moved_along_def intro: bexI [of _ b])

lemma kept_origin:
  "x \<in> set (pd_applications db) \<Longrightarrow> \<exists>a \<in> set (pd_applications db). ap_id a = ap_id x \<and> moved_along a x"
  by (auto simp: moved_along_def)

lemma halt_applications [simp]: "pd_applications (snd (halt_permit H dk s action reason p db)) = pd_applications db"
  by (simp add: halt_permit_def Let_def)

lemma filed_origin:
  assumes "x \<in> set (pd_applications (snd (create_application H dk c db)))" "ap_id x \<in> ap_id ` set (pd_applications db)"
  shows "x \<in> set (pd_applications db)"
proof (cases "dk_user dk")
  case (Some u)
  have "list_ex (\<lambda>y. ap_id y = ap_id x \<or> Q y) (pd_applications db)" for Q
    using assms(2) by (auto simp: list_ex_iff)
  with assms(1) Some show ?thesis by (auto simp: create_application_def Let_def split: if_splits)
qed (use assms in \<open>simp add: create_application_def\<close>)

lemma moved_origin:
  assumes "x \<in> set (pd_applications (snd (transition_status H dk word reason conditions b db)))" "b \<in> set (pd_applications db)"
  shows "\<exists>a \<in> set (pd_applications db). ap_id a = ap_id x \<and> moved_along a x"
proof (cases "listed (ap_status b) word")
  case None
  with assms(1) show ?thesis by (intro kept_origin) (simp add: transition_applications)
next
  case (Some s)
  then have "moved_along b (decided_application (dk_now dk) s reason conditions b)"
    using listed_Some [OF Some] by (simp add: moved_along_def)
  with assms Some show ?thesis by (intro put_application_origin [OF _ assms(2)]) (simp_all add: transition_applications)
qed

lemma assigned_origin:
  assumes "x \<in> set (pd_applications (snd (assign_reviewer H dk u deadline b db)))" "b \<in> set (pd_applications db)"
  shows "\<exists>a \<in> set (pd_applications db). ap_id a = ap_id x \<and> moved_along a x"
proof -
  let ?b = "fst (assign_reviewer H dk u deadline b db)"
  have "x \<in> set (pd_applications (put_application ?b db))" using assms(1) by (simp add: assign_reviewer_def Let_def)
  moreover have "ap_id ?b = ap_id b" "moved_along b ?b"
    by (simp_all add: assign_reviewer_def Let_def moved_along_def valid_transitions_def)
  ultimately show ?thesis using assms(2) by (intro put_application_origin)
qed

lemma asked_origin:
  assumes "x \<in> set (pd_applications (snd (request_additional_documents H dk items instructions deadline b db)))"
    "b \<in> set (pd_applications db)"
  shows "\<exists>a \<in> set (pd_applications db). ap_id a = ap_id x \<and> moved_along a x"
proof -
  let ?b = "fst (request_additional_documents H dk items instructions deadline b db)"
  have "x \<in> set (pd_applications (put_application ?b db))" using assms(1) by (simp add: request_additional_documents_def Let_def)
  moreover have "ap_id ?b = ap_id b" "moved_along b ?b"
    by (simp_all add: request_additional_documents_def Let_def moved_along_def)
  ultimately show ?thesis using assms(2) by (intro put_application_origin)
qed

lemma tracked_origin:
  assumes "x \<in> set (pd_applications (snd (update_document_request_progress H dk k i st nt ov b db)))" "b \<in> set (pd_applications db)"
  shows "\<exists>a \<in> set (pd_applications db). ap_id a = ap_id x \<and> moved_along a x"
proof (cases "list_ex (\<lambda>r. dr_id r = k) (ap_requests b)")
  case True
  let ?b = "fst (update_document_request_progress H dk k i st nt ov b db)"
  have "x \<in> set (pd_applications (put_application ?b db))"
    using assms(1) True by (simp add: update_document_request_progress_def Let_def)
  moreover have "ap_id ?b = ap_id b" "moved_along b ?b"
    by (simp_all add: update_document_request_progress_def Let_def moved_along_def)
  ultimately show ?thesis using assms(2) by (intro put_application_origin)
next
  case False
  with assms(1) show ?thesis by (intro kept_origin) (simp add: update_document_request_progress_def)
qed

lemma extended_origin:
  assumes "x \<in> set (pd_applications (snd (renew_permit H dk months n p db)))"
  shows "\<exists>a \<in> set (pd_applications db). ap_id a = ap_id x \<and> moved_along a x"
proof -
  have "x \<in> set (pd_applications db) \<or> (\<exists>a \<in> set (pd_applications db). x = a\<lparr>ap_status := Ap_Renewed\<rparr>)"
    using assms by (auto simp: renew_permit_def Let_def mark_renewed_def set_update_where split: if_splits)
  then show ?thesis using kept_origin by (auto simp: moved_along_def)
qed

lemma step_origin:
  assumes "permit_step fresh H db db'" "x \<in> set (pd_applications db')" "ap_id x \<in> ap_id ` set (pd_applications db)"
  shows "\<exists>a \<in> set (pd_applications db). ap_id a = ap_id x \<and> moved_along a x"
  using assms
proof (induction rule: permit_step.induct)
  case (filed db dk c)
  from filed_origin [OF this] show ?case by (rule kept_origin)
next
  case (moved b db dk word reason conditions)
  from moved(3,1) show ?case by (rule moved_origin)
next
  case (assigned b db dk u deadline)
  from assigned(2,1) show ?case by (rule assigned_origin)
next
  case (asked b db dk items instructions deadline)
  from asked(2,1) show ?case by (rule asked_origin)
next
  case (tracked b db dk k i st nt ov)
  from tracked(2,1) show ?case by (rule tracked_origin)
next
  case (extended p db dk months n)
  from extended(2) show ?case by (rule extended_origin)
next
  case (noticed p db dk u)
  then show ?case by (intro kept_origin) (simp add: send_expiry_notice_def Let_def)
next
  case (suspended p db dk reason)
  then show ?case by (intro kept_origin) (simp add: suspend_permit_def)
next
  case (revoked p db dk reason)
  then show ?case by (intro kept_origin) (simp add: revoke_permit_def)
qed

text \<open>
  C36. Whatever request the services serve, the status of an application stays, moves along the
  table of transitions, or becomes renewed through its permit; it never moves in any other way.
\<close>
theorem status_changes_listed:
  assumes "permit_run fresh H db" "permit_step fresh H db db'"
    and "a \<in> set (pd_applications db)" "a' \<in> set (pd_applications db')" "ap_id a' = ap_id a"
  shows "ap_status a' = ap_status a \<or> ap_status a' \<in> set (valid_transitions (ap_status a)) \<or> ap_status a' = Ap_Renewed"
proof -
  have "ap_id a' \<in> ap_id ` set (pd_applications db)" using assms(3,5) by simp
  from step_origin [OF assms(2,4) this] obtain b where b: "b \<in> set (pd_applications db)" "ap_id b = ap_id a" "moved_along b a'"
    using assms(5) by auto
  have "b = a" using distinct_map_key [OF permit_inv_ids(1) [OF permit_run_inv [OF assms(1)]] b(1) assms(3) b(2)] .
  then show ?thesis using b(3) by (simp add: moved_along_def)
qed

text \<open>A permit that was not there before belongs to an application that has just been granted something.\<close>

lemma issue_permit_new:
  assumes "p \<in> set (pd_permits (snd (issue_permit dk conditions a db)))" "p \<notin> set (pd_permits db)"
  shows "p = permit_for dk conditions a"
  using assms by (auto simp: issue_permit_def split: if_splits)

lemma permits_frame:
  "pd_permits (snd (assign_reviewer H dk u deadline a db)) = pd_permits db"
  "pd_permits (snd (request_additional_documents H dk items instructions deadline a db)) = pd_permits db"
  "pd_permits (snd (update_document_request_progress H dk k i st nt ov a db)) = pd_permits db"
  "pd_permits (snd (send_expiry_notice H dk u p db)) = pd_permits db"
  by (simp_all add: assign_reviewer_def request_additional_documents_def update_document_request_progress_def
      send_expiry_notice_def Let_def)

lemma put_permit_ids: "pm_id ` set (pd_permits (put_permit p db)) \<subseteq> pm_id ` set (pd_permits db)"
  by (auto simp: put_permit_def set_update_where intro: rev_image_eqI)

lemma put_permit_id: "p \<in> set (pd_permits (put_permit q db)) \<Longrightarrow> pm_id p \<in> pm_id ` set (pd_permits db)"
  using put_permit_ids by blast

lemma transition_permits:
  assumes "p \<in> set (pd_permits (snd (transition_status H dk word reason conditions a db)))"
    "pm_id p \<notin> pm_id ` set (pd_permits db)"
  shows "pm_application p = ap_id a \<and> listed (ap_status a) word \<in> {Some Ap_Approved, Some Ap_Conditional}"
proof (cases "listed (ap_status a) word")
  case None
  then show ?thesis using assms by (auto simp: transition_status_def)
next
  case (Some s)
  let ?a = "decided_application (dk_now dk) s reason conditions a"
  obtain r db' where eff: "transition_effects dk s conditions ?a (put_application ?a db) = (r, db')" by force
  then have p: "p \<in> set (pd_permits (snd (transition_effects dk s conditions ?a (put_application ?a db))))"
    using assms(1) Some by (cases r) (simp_all add: transition_status_def Let_def)
  have "p \<notin> set (pd_permits db)" using assms(2) by auto
  have new: "pm_application p = ap_id a"
    if "p \<in> set (pd_permits (snd (issue_permit dk c x d)))" "pd_permits d = pd_permits db" "ap_id x = ap_id a" for c d x
    using issue_permit_new [of p dk c x d] that \<open>p \<notin> set (pd_permits db)\<close> by (auto simp: permit_for_def)
  show ?thesis
  proof (cases "permit_of (ap_id a) db")
    case None
    have "s = Ap_Approved \<or> s = Ap_Conditional"
      using p \<open>p \<notin> set (pd_permits db)\<close> by (auto simp: transition_effects_def split: if_splits)
    moreover have "pm_application p = ap_id a"
      using p \<open>p \<notin> set (pd_permits db)\<close> None
      by (auto simp: transition_effects_def approve_effects_def conditional_effects_def Let_def dest!: new split: if_splits)
    ultimately show ?thesis using Some by auto
  next
    case (Some q)
    then have "q \<in> set (pd_permits db)" using permit_of_Some by blast
    then have "pm_id p \<in> pm_id ` set (pd_permits db)"
      using p Some by (auto simp: transition_effects_def approve_effects_def conditional_effects_def Let_def
          dest: put_permit_id split: if_splits)
    with assms(2) show ?thesis by simp
  qed
qed

text \<open>
  C37. The services create permits in one way. When a request served by the application or the
  permit service leaves a permit that was not there before, it has moved the application of that
  permit to an approval or a conditional approval, which the table allowed it. (The permit endpoint
  also offers the generic writes of its viewset, which ask for no approval; see \<open>post_permit\<close>.)
\<close>
theorem permits_only_by_approval:
  assumes "permit_run fresh H db" "permit_step fresh H db db'"
    and "p \<in> set (pd_permits db')" "pm_id p \<notin> pm_id ` set (pd_permits db)"
  shows "\<exists>a a'. a \<in> set (pd_applications db) \<and> a' \<in> set (pd_applications db') \<and> ap_id a = pm_application p \<and>
    ap_id a' = pm_application p \<and> ap_status a' \<in> {Ap_Approved, Ap_Conditional} \<and>
    ap_status a' \<in> set (valid_transitions (ap_status a))"
proof -
  have same: "pd_permits db' \<noteq> pd_permits db" using assms(3,4) by auto
  have put: "pd_permits db' \<noteq> pd_permits (put_permit q db)" for q using assms(3,4) put_permit_id by metis
  from assms(2) show ?thesis
  proof (cases rule: permit_step.cases)
  case (moved a dk word reason conditions)
  note new = transition_permits [OF assms(3) [unfolded moved(1)] assms(4)]
  then obtain s where s: "listed (ap_status a) word = Some s" "s \<in> {Ap_Approved, Ap_Conditional}" by auto
  let ?a = "decided_application (dk_now dk) s reason conditions a"
  have "?a \<in> set (pd_applications db')"
    using moved(2) by (force simp: moved(1) transition_applications s(1) put_application_def set_update_where)
  then show ?thesis
    using new s moved(2) listed_Some [OF s(1)] by (intro exI [of _ a] exI [of _ ?a]) simp
next
  case (filed dk c)
  then have "pd_permits db' = pd_permits db"
    by (simp add: create_application_def Let_def split: option.split)
  with same show ?thesis by simp
next
  case (extended q dk months n)
  then have "pd_permits db' = pd_permits db \<or> pd_permits db' = pd_permits (put_permit (renewed_permit (dk_today dk) months n q) db)"
    by (simp add: renew_permit_def Let_def)
  with same put show ?thesis by blast
next
  case (suspended q dk reason)
  then have "pd_permits db' = pd_permits (put_permit (q\<lparr>pm_status := ''SUSPENDED''\<rparr>) db)"
    by (simp add: suspend_permit_def halt_permit_def Let_def)
  with same put show ?thesis by blast
next
  case (revoked q dk reason)
  then have "pd_permits db' = pd_permits (put_permit (q\<lparr>pm_status := ''REVOKED''\<rparr>) db)"
    by (simp add: revoke_permit_def halt_permit_def Let_def)
  with same put show ?thesis by blast
qed (use same in \<open>simp_all add: permits_frame\<close>)
qed

section \<open>An approval can always be reached\<close>

fun quiet_path :: "app_status \<Rightarrow> app_status list \<Rightarrow> bool" where
  "quiet_path s [] = True"
| "quiet_path s (t # ts) = (t \<in> set (valid_transitions s) \<and> t \<notin> {Ap_Approved, Ap_Conditional} \<and> quiet_path t ts)"

definition to_review :: "app_status \<Rightarrow> app_status list" where
  "to_review s = (case s of
      Ap_Draft \<Rightarrow> [Ap_Submitted, Ap_Under_Review] | Ap_Submitted \<Rightarrow> [Ap_Under_Review] | Ap_Rejected \<Rightarrow> [Ap_Under_Review]
    | Ap_Expired \<Rightarrow> [Ap_Submitted, Ap_Under_Review] | Ap_Approved \<Rightarrow> [Ap_Expired, Ap_Submitted, Ap_Under_Review]
    | Ap_Renewed \<Rightarrow> [Ap_Expired, Ap_Submitted, Ap_Under_Review] | _ \<Rightarrow> [])"

lemma to_review_path:
  "quiet_path s (to_review s)" "Ap_Approved \<in> set (valid_transitions (last (s # to_review s)))" "length (to_review s) \<le> 3"
  by (cases s; simp add: to_review_def valid_transitions_def)+

lemma first_application:
  "permit_inv fresh db \<Longrightarrow> a \<in> set (pd_applications db) \<Longrightarrow> first_where (\<lambda>x. ap_id x = ap_id a) (pd_applications db) = Some a"
proof (cases "first_where (\<lambda>x. ap_id x = ap_id a) (pd_applications db)")
  case (Some x)
  then show "permit_inv fresh db \<Longrightarrow> a \<in> set (pd_applications db) \<Longrightarrow> ?thesis"
    using first_where_Some [OF Some] distinct_map_key [OF permit_inv_ids(1), of fresh db x a] by simp
qed (auto simp: first_where_None)

lemma stored_application:
  "a \<in> set (pd_applications db) \<Longrightarrow> ap_id a' = ap_id a \<Longrightarrow> a' \<in> set (pd_applications (put_application a' db))"
  by (force simp: put_application_def set_update_where)

lemma follow_append: "follow H dk k (xs @ ys) db = and_then (follow H dk k xs db) (\<lambda>_. follow H dk k ys)"
proof (induction xs arbitrary: db)
  case (Cons w xs)
  show ?case
  proof (cases "first_where (\<lambda>a. ap_id a = k) (pd_applications db)")
    case (Some a)
    obtain r db' where "transition_status H dk w None None a db = (r, db')" by force
    then show ?thesis using Some Cons by (cases r) simp_all
  qed simp
qed simp

lemma quiet_transition:
  assumes "t \<in> set (valid_transitions (ap_status a))" "t \<notin> {Ap_Approved, Ap_Conditional}"
  shows "\<exists>p n. transition_status H dk (app_status_text t) None None a db =
    (Inr (decided_application (dk_now dk) t None None a), logged H dk ''Application'' (''APPLICATION_TRANSITION_'' @ app_status_text t)
       (ap_id a) p n (put_application (decided_application (dk_now dk) t None None a) db))"
  using assms by (auto simp: transition_status_def listed_text transition_effects_def Let_def)

lemma follow_quiet:
  assumes "permit_run fresh H db" "a \<in> set (pd_applications db)" "fresh_number dk db" "quiet_path (ap_status a) ts"
  shows "\<exists>db' a'. follow H dk (ap_id a) (map app_status_text ts) db = (Inr (), db') \<and> permit_run fresh H db' \<and> fresh_number dk db' \<and>
    a' \<in> set (pd_applications db') \<and> ap_id a' = ap_id a \<and> ap_status a' = last (ap_status a # ts)"
  using assms
proof (induction ts arbitrary: a db)
  case (Cons t ts)
  let ?a = "decided_application (dk_now dk) t None None a"
  from Cons.prems(4) have t: "t \<in> set (valid_transitions (ap_status a))" "t \<notin> {Ap_Approved, Ap_Conditional}" "quiet_path t ts"
    by simp_all
  obtain p n where one: "transition_status H dk (app_status_text t) None None a db =
      (Inr ?a, logged H dk ''Application'' (''APPLICATION_TRANSITION_'' @ app_status_text t) (ap_id a) p n (put_application ?a db))"
    using quiet_transition [OF t(1,2)] by blast
  define db1 where "db1 = logged H dk ''Application'' (''APPLICATION_TRANSITION_'' @ app_status_text t) (ap_id a) p n (put_application ?a db)"
  note one = one [folded db1_def]
  have "permit_run fresh H db1"
    using permit_run.step [OF Cons.prems(1) permit_step.moved [OF Cons.prems(2) impI [OF Cons.prems(3)]]] one
    by (metis snd_conv)
  moreover have "?a \<in> set (pd_applications db1)" using stored_application [OF Cons.prems(2), of ?a] by (simp add: db1_def)
  moreover have "fresh_number dk db1" using Cons.prems(3) by (simp add: db1_def fresh_number_def)
  ultimately obtain db' a' where run: "follow H dk (ap_id a) (map app_status_text ts) db1 = (Inr (), db')"
      "permit_run fresh H db' \<and> fresh_number dk db' \<and> a' \<in> set (pd_applications db') \<and> ap_id a' = ap_id a \<and> ap_status a' = last (t # ts)"
    using Cons.IH [of db1 ?a] t(3) by auto
  then show ?case
    using first_application [OF permit_run_inv [OF Cons.prems(1)] Cons.prems(2)] one by (intro exI [of _ db'] exI [of _ a']) simp
qed auto

lemma approving_transition:
  assumes inv: "permit_inv fresh db" "a \<in> set (pd_applications db)" and fresh: "fresh_number dk db"
    and "Ap_Approved \<in> set (valid_transitions (ap_status a))"
  shows "\<exists>db' p. transition_status H dk ''APPROVED'' None None a db = (Inr (decided_application (dk_now dk) Ap_Approved None None a), db') \<and>
    p \<in> set (pd_permits db') \<and> pm_application p = ap_id a \<and> pm_status p = ''ACTIVE''"
proof -
  let ?a = "decided_application (dk_now dk) Ap_Approved None None a"
  let ?db = "activate_site (ap_project a) (put_application ?a db)"
  have listed: "listed (ap_status a) ''APPROVED'' = Some Ap_Approved"
    using assms(4) listed_text [of "ap_status a" Ap_Approved] by (simp add: app_status_text_def)
  have "\<exists>db' p. approve_effects dk ?a (put_application ?a db) = (Inr (), db') \<and>
      p \<in> set (pd_permits db') \<and> pm_application p = ap_id a \<and> pm_status p = ''ACTIVE''"
  proof (cases "permit_of (ap_id a) db")
    case None
    let ?p = "permit_for dk (or_empty (ap_conditions ?a)) ?a"
    have "approve_effects dk ?a (put_application ?a db) = (Inr (), ?db\<lparr>pd_permits := pd_permits db @ [?p]\<rparr>)"
      using None fresh by (simp add: approve_effects_def issue_permit_def fresh_number_def Let_def)
    moreover have "pm_application ?p = ap_id a \<and> pm_status ?p = ''ACTIVE''" by (simp add: permit_for_def)
    ultimately show ?thesis by (intro exI [of _ "?db\<lparr>pd_permits := pd_permits db @ [?p]\<rparr>"] exI [of _ ?p]) simp
  next
    case (Some p)
    have "p\<lparr>pm_status := ''ACTIVE''\<rparr> \<in> set (pd_permits (put_permit (p\<lparr>pm_status := ''ACTIVE''\<rparr>) ?db))"
      using permit_of_Some [OF Some] by (force simp: put_permit_def set_update_where)
    moreover have "approve_effects dk ?a (put_application ?a db) =
        (Inr (), if pm_status p \<noteq> ''ACTIVE'' then put_permit (p\<lparr>pm_status := ''ACTIVE''\<rparr>) ?db else ?db)"
      using Some by (simp add: approve_effects_def Let_def)
    ultimately show ?thesis
      using permit_of_Some [OF Some] by (cases "pm_status p = ''ACTIVE''") force+
  qed
  then obtain db1 p where eff: "transition_effects dk Ap_Approved None ?a (put_application ?a db) = (Inr (), db1)"
      "p \<in> set (pd_permits db1)" "pm_application p = ap_id a" "pm_status p = ''ACTIVE''"
    by (auto simp: transition_effects_def)
  then show ?thesis using listed by (simp add: transition_status_def Let_def) blast
qed

text \<open>
  C34. No application is stuck: from every state a run can leave it in, at most four accepted
  requests approve it, and it then has an active permit. The path is the one \<open>to_review\<close> gives.
\<close>
theorem approval_reachable:
  assumes "permit_run fresh H db" "a \<in> set (pd_applications db)" "fresh_number dk db"
  shows "\<exists>path db' a' p. length path \<le> 4 \<and> follow H dk (ap_id a) path db = (Inr (), db') \<and> permit_run fresh H db' \<and>
    a' \<in> set (pd_applications db') \<and> ap_id a' = ap_id a \<and> ap_status a' = Ap_Approved \<and>
    p \<in> set (pd_permits db') \<and> pm_application p = ap_id a \<and> pm_status p = ''ACTIVE''"
proof -
  let ?ts = "to_review (ap_status a)"
  obtain db1 b where quiet: "follow H dk (ap_id a) (map app_status_text ?ts) db = (Inr (), db1)" "permit_run fresh H db1" "fresh_number dk db1"
      "b \<in> set (pd_applications db1)" "ap_id b = ap_id a" "ap_status b = last (ap_status a # ?ts)"
    using follow_quiet [OF assms to_review_path(1)] by blast
  have "Ap_Approved \<in> set (valid_transitions (ap_status b))" unfolding quiet(6) by (rule to_review_path(2))
  from approving_transition [OF permit_run_inv [OF quiet(2)] quiet(4,3) this]
  obtain db' p where last: "transition_status H dk ''APPROVED'' None None b db1 =
      (Inr (decided_application (dk_now dk) Ap_Approved None None b), db')"
      and p: "p \<in> set (pd_permits db')" "pm_application p = ap_id b" "pm_status p = ''ACTIVE''"
    by blast
  let ?b = "decided_application (dk_now dk) Ap_Approved None None b"
  have "follow H dk (ap_id a) (map app_status_text ?ts @ [''APPROVED'']) db = (Inr (), db')"
    using quiet(1) last first_application [OF permit_run_inv [OF quiet(2)] quiet(4)] by (simp add: follow_append quiet(5))
  moreover have "permit_run fresh H db'"
    using permit_run.step [OF quiet(2) permit_step.moved [OF quiet(4) impI [OF quiet(3)]]] last by (metis snd_conv)
  moreover have "?b \<in> set (pd_applications db')"
  proof -
    have "listed (ap_status b) ''APPROVED'' = Some Ap_Approved"
      using last by (cases "listed (ap_status b) ''APPROVED''") (auto simp: transition_status_def app_status_text_def
          dest!: listed_Some split: app_status.splits)
    then show ?thesis
      using transition_applications [of H dk "''APPROVED''" None None b db1] last stored_application [OF quiet(4), of ?b] by simp
  qed
  moreover have "length (map app_status_text ?ts @ [''APPROVED'']) \<le> 4" using to_review_path(3) [of "ap_status a"] by simp
  ultimately show ?thesis using p quiet(5) decided_application_keeps(1,3) by metis
qed

section \<open>Document requests and renewals\<close>

lemma binade_lower: "0 < a \<Longrightarrow> 0 < b \<Longrightarrow> real_of_int b * 2 powr real_of_int (binade a b) \<le> real_of_int a"
proof (induction a b rule: binade.induct)
  case (1 a b)
  show ?case
  proof (cases "a < b")
    case True
    then have "real_of_int b * 2 powr real_of_int (binade (2 * a) b) \<le> real_of_int (2 * a)"
      using 1 by simp
    then show ?thesis using True 1(3,4) by (subst binade.simps) (simp add: powr_diff)
  next
    case False
    show ?thesis
    proof (cases "2 * b \<le> a")
      case True
      then have "real_of_int (2 * b) * 2 powr real_of_int (binade a (2 * b)) \<le> real_of_int a"
        using 1 False by simp
      then show ?thesis using True False 1(3,4) by (subst binade.simps) (simp add: powr_add mult_ac)
    next
      case small: False
      then show ?thesis using False 1(3,4) by (subst binade.simps) simp
    qed
  qed
qed

lemma nearest_le:
  assumes "0 < b" "a \<le> R * b"
  shows "nearest a b \<le> R"
proof -
  have le: "a div b \<le> R" using zdiv_mono1 [OF assms(2,1)] assms(1) by simp
  have "a div b + 1 \<le> R" if "0 < a mod b"
  proof (rule ccontr)
    assume "\<not> a div b + 1 \<le> R"
    with le have "a div b = R" by simp
    then have "a = R * b + a mod b" using div_mult_mod_eq [of a b] by simp
    with that assms(2) show False by simp
  qed
  moreover have "0 < a mod b" if "\<not> 2 * (a mod b) < b"
    using that assms(1) by simp
  ultimately show ?thesis using le by (auto simp: nearest_def Let_def)
qed

lemma nearest_nonneg: "0 \<le> a \<Longrightarrow> 0 < b \<Longrightarrow> 0 \<le> nearest a b"
  by (simp add: nearest_def Let_def pos_imp_zdiv_nonneg_iff)

lemma as_double_zero [simp]: "as_double (0, b) = (0, 2 ^ 52)" if "0 < b"
  using that by (simp add: as_double_def binade.simps nearest_def)

text \<open>A fraction below a double is rounded to one that is not above it.\<close>

lemma as_double_le:
  assumes "0 < a" "0 < b" "a * 2 ^ K \<le> M * b" "M < 2 ^ 53" "as_double (a, b) = (c, d)"
  shows "c * 2 ^ K \<le> M * d \<and> 0 \<le> c \<and> 0 < d"
proof -
  let ?e = "binade a b"
  have "real_of_int b * 2 powr (real_of_int ?e + real K) \<le> real_of_int a * 2 ^ K"
    using mult_right_mono [OF binade_lower [OF assms(1,2)], of "2 ^ K"] by (simp add: powr_add powr_realpow mult_ac)
  also have "\<dots> \<le> real_of_int M * real_of_int b"
    using assms(3) by (metis (mono_tags) of_int_le_iff of_int_mult of_int_numeral of_int_power)
  also have "\<dots> < 2 ^ 53 * real_of_int b"
    using assms(2,4) by (intro mult_strict_right_mono) (metis of_int_less_iff of_int_numeral of_int_power, simp)
  finally have "2 powr (real_of_int ?e + real K) < 2 powr real 53"
    using assms(2) by (simp add: mult.commute)
  then have "real_of_int ?e + real K < real 53" by (simp only: powr_less_cancel_iff one_less_numeral_iff semiring_norm)
  then have "?e + int K < 53" by linarith
  then have k: "int K \<le> 52 - ?e" by simp
  define k where "k = nat (52 - ?e)"
  have K: "K \<le> k" using k by (simp add: k_def)
  have cd: "c = nearest (a * 2 ^ k) b" "d = 2 ^ k"
    using assms(5) k by (auto simp: as_double_def Let_def k_def)
  have split: "(2::int) ^ k = 2 ^ K * 2 ^ (k - K)" using K by (simp add: power_add [symmetric])
  have "a * 2 ^ k \<le> M * 2 ^ (k - K) * b"
    using mult_right_mono [OF assms(3), of "2 ^ (k - K)"] by (simp add: split mult_ac)
  then have "c \<le> M * 2 ^ (k - K)" unfolding cd(1) by (rule nearest_le [OF assms(2)])
  then have "c * 2 ^ K \<le> M * 2 ^ (k - K) * 2 ^ K" by (rule mult_right_mono) simp
  then have "c * 2 ^ K \<le> M * d" by (simp add: cd(2) split mult_ac)
  moreover have "0 \<le> c" unfolding cd(1) using assms(1,2) by (intro nearest_nonneg) simp_all
  ultimately show ?thesis by (simp add: cd(2))
qed

lemma percent_all: "0 < n \<Longrightarrow> percent n n = 100"
proof -
  assume "0 < n"
  then have "binade (int n) (int n) = 0" by (subst binade.simps) simp
  with \<open>0 < n\<close> have "as_double (int n, int n) = (2 ^ 52, 2 ^ 52)"
    by (simp add: as_double_def nearest_def)
  moreover have "as_double (2 ^ 52 * 100, 2 ^ 52) = (100 * 2 ^ 46, 2 ^ 46)" by code_simp
  ultimately show ?thesis by (simp add: percent_def)
qed

lemma percent_part:
  assumes "v < n" "n \<le> 2 ^ 40"
  shows "percent v n < 100"
proof (cases "v = 0")
  case True
  with assms(1) show ?thesis by (simp add: percent_def)
next
  case False
  obtain c d where one: "as_double (int v, int n) = (c, d)" by force
  have "int v * 2 ^ 40 \<le> (2 ^ 40 - 1) * int n"
    using assms by (simp add: algebra_simps)
  then have cd: "c * 2 ^ 40 \<le> (2 ^ 40 - 1) * d" "0 \<le> c" "0 < d"
    using as_double_le [OF _ _ _ _ one, of 40 "2 ^ 40 - 1"] False assms(1) by simp_all
  show ?thesis
  proof (cases "c = 0")
    case True
    then show ?thesis using one cd(3) by (simp add: percent_def)
  next
    case pos: False
    obtain x y where two: "as_double (c * 100, d) = (x, y)" by force
    have "c * 100 * 2 ^ 40 \<le> (100 * (2 ^ 40 - 1)) * d" using cd(1) by simp
    then have xy: "x * 2 ^ 40 \<le> (100 * (2 ^ 40 - 1)) * y" "0 < y"
      using as_double_le [OF _ _ _ _ two, of 40 "100 * (2 ^ 40 - 1)"] pos cd by simp_all
    then have "x < 100 * y" by simp
    have "x div y < 100"
    proof (rule ccontr)
      assume "\<not> x div y < 100"
      then have "100 * y \<le> x div y * y" using xy(2) by (intro mult_right_mono) simp_all
      also have "\<dots> \<le> x" using div_mult_mod_eq [of x y] pos_mod_sign [OF xy(2), of x] by linarith
      finally show False using \<open>x < 100 * y\<close> by simp
    qed
    then show ?thesis using one two by (simp add: percent_def)
  qed
qed

lemma percent_facts:
  assumes "v \<le> n" "0 < n" "n \<le> 2 ^ 40"
  shows "percent v n \<le> 100" "percent v n = 100 \<longleftrightarrow> v = n"
  using percent_part [of v n] percent_all [of n] assms by (cases "v = n"; simp)+

lemma percent_examples: "percent 29 100 = 28" "percent 1 2 = 50" "percent 1 3 = 33" "percent 58 100 = 57"
  by code_simp+

lemma verified_all: "verified_count d = length d \<longleftrightarrow> list_all (\<lambda>(i, v). counted v) d"
proof -
  have "verified_count d = length d \<longleftrightarrow> filter counted (map snd d) = map snd d"
    unfolding verified_count_def by (metis filter_True length_map length_filter_less nat_neq_iff filter_id_conv)
  then show ?thesis by (auto simp: filter_id_conv list_all_iff)
qed

lemma list_all_values:
  assumes "distinct (map fst d)"
  shows "list_all (\<lambda>(i, v). Q v) d \<longleftrightarrow> (\<forall>j \<in> fst ` set d. \<exists>w. map_of d j = Some w \<and> Q w)"
  using assms
proof (induction d)
  case (Cons p d)
  obtain i v where p: "p = (i, v)" by (cases p)
  have "map_of (p # d) j = map_of d j" if "j \<in> fst ` set d" for j using Cons.prems that p by auto
  then show ?case using Cons p by simp
qed simp

lemma dict_keys_length:
  assumes "distinct (map fst d)" "fst ` set d = set xs" "distinct xs"
  shows "length d = length xs"
  using assms by (metis distinct_card length_map list.set_map)

lemma item_progress:
  assumes "distinct (dr_items r)" "distinct (map fst (dr_states r))" "fst ` set (dr_states r) = set (dr_items r)"
    "i \<in> set (dr_items r)" "length (dr_items r) \<le> 2 ^ 40"
  shows "dr_progress (with_item i v r) \<le> 100 \<and>
    (dr_progress (with_item i v r) = 100 \<longleftrightarrow>
      (\<forall>j \<in> set (dr_items r). \<exists>w. map_of (dr_states (with_item i v r)) j = Some w \<and> counted w))"
proof
  let ?d = "dict_put i (or_default (or_empty v) ''VERIFIED'') (dr_states r)"
  have keys: "fst ` set ?d = set (dr_items r)" using assms(3,4) by (auto simp: dict_put_keys)
  have dist: "distinct (map fst ?d)" by (rule distinct_dict_put [OF assms(2)])
  have len: "length ?d = length (dr_items r)" by (rule dict_keys_length [OF dist keys assms(1)])
  have some: "dr_items r \<noteq> []" using assms(4) by auto
  have at: "dr_progress (with_item i v r) = percent (verified_count ?d) (length (dr_items r))" "dr_states (with_item i v r) = ?d"
    using some by (simp_all add: with_item_def Let_def)
  have "verified_count ?d \<le> length (dr_items r)"
    unfolding verified_count_def len [symmetric] by (metis length_filter_le length_map)
  note pc = percent_facts [OF this _ assms(5)]
  show "dr_progress (with_item i v r) \<le> 100" using pc(1) some at(1) by simp
  have "dr_progress (with_item i v r) = 100 \<longleftrightarrow> list_all (\<lambda>(i, v). counted v) ?d"
    using pc(2) some by (simp add: at(1) verified_all [symmetric] len)
  also have "\<dots> \<longleftrightarrow> (\<forall>j \<in> fst ` set ?d. \<exists>w. map_of ?d j = Some w \<and> counted w)"
    by (rule list_all_values [OF dist])
  finally show "dr_progress (with_item i v r) = 100 \<longleftrightarrow>
      (\<forall>j \<in> set (dr_items r). \<exists>w. map_of (dr_states (with_item i v r)) j = Some w \<and> counted w)"
    unfolding keys at(2) .
qed

lemma some_state:
  assumes "distinct (map fst d)" "fst ` set d = ks"
  shows "list_ex (\<lambda>(i, v). Q v) d \<longleftrightarrow> (\<exists>j \<in> ks. \<exists>w. map_of d j = Some w \<and> Q w)"
proof -
  have "(j, w) \<in> set d \<longleftrightarrow> map_of d j = Some w" for j w
    using assms(1) by (simp add: map_of_eq_Some_iff)
  then show ?thesis unfolding assms(2) [symmetric] list_ex_iff by force
qed

text \<open>
  C38. Reporting on a document settles the request. Take a request that names at most two to the
  power of forty documents, each once, and tracks exactly these, and a report on one of them: the
  progress is a percentage, and it is 100 exactly when every requested document is then verified,
  passed or approved. The status is the one the report overrides it with, if it names one; without
  an override it is completed at 100, in progress when some document is verified, passed, approved
  or submitted, and otherwise what it was.
\<close>
theorem doc_request_complete:
  assumes "distinct (dr_items r)" "distinct (map fst (dr_states r))" "fst ` set (dr_states r) = set (dr_items r)"
    and "length (dr_items r) \<le> 2 ^ 40" "i \<in> set (dr_items r)" "i \<noteq> []"
    and "r' = progressed dk (Some i) state note overall r"
  shows "dr_progress r' \<le> 100 \<and>
    (dr_progress r' = 100 \<longleftrightarrow> (\<forall>j \<in> set (dr_items r). \<exists>w. map_of (dr_states r') j = Some w \<and> counted w)) \<and>
    dr_status r' =
      (if or_empty overall \<noteq> [] then or_empty overall
       else if dr_progress r' = 100 then ''COMPLETED''
       else if \<exists>j \<in> set (dr_items r). \<exists>w. map_of (dr_states r') j = Some w \<and> (counted w \<or> w = ''SUBMITTED'')
       then ''IN_PROGRESS'' else dr_status r)"
proof -
  let ?w = "with_item i state r"
  let ?d = "dict_put i (or_default (or_empty state) ''VERIFIED'') (dr_states r)"
  have keys: "fst ` set ?d = set (dr_items r)" using assms(3,5) by (auto simp: dict_put_keys)
  have dist: "distinct (map fst ?d)" by (rule distinct_dict_put [OF assms(2)])
  have some: "dr_items r \<noteq> []" using assms(5) by auto
  have same: "dr_progress r' = dr_progress ?w" "dr_states r' = dr_states ?w" "dr_states ?w = ?d"
    "dr_status r' = (if or_empty overall = [] then dr_status ?w else or_empty overall)"
    using assms(6) by (simp_all add: assms(7) progressed_def Let_def or_empty_def with_item_keeps)
  have "0 < verified_count ?d \<longleftrightarrow> list_ex (\<lambda>(j, v). counted v) ?d"
    by (force simp: verified_count_def list_ex_iff filter_empty_conv)
  moreover have "''SUBMITTED'' \<in> set (map snd ?d) \<longleftrightarrow> list_ex (\<lambda>(j, v). v = ''SUBMITTED'') ?d"
    by (force simp: list_ex_iff)
  moreover have "list_ex (\<lambda>(j, v). counted v \<or> v = ''SUBMITTED'') ?d \<longleftrightarrow>
      list_ex (\<lambda>(j, v). counted v) ?d \<or> list_ex (\<lambda>(j, v). v = ''SUBMITTED'') ?d"
    by (auto simp: list_ex_iff)
  ultimately have begun: "0 < verified_count ?d \<or> ''SUBMITTED'' \<in> set (map snd ?d) \<longleftrightarrow>
      (\<exists>j \<in> set (dr_items r). \<exists>w. map_of ?d j = Some w \<and> (counted w \<or> w = ''SUBMITTED''))"
    using some_state [OF dist keys, of "\<lambda>v. counted v \<or> v = ''SUBMITTED''"] by simp
  have "dr_status ?w = (if dr_progress ?w = 100 then ''COMPLETED''
      else if 0 < verified_count ?d \<or> ''SUBMITTED'' \<in> set (map snd ?d) then ''IN_PROGRESS'' else dr_status r)"
    using some by (simp add: with_item_def Let_def)
  then show ?thesis
    using item_progress [OF assms(1-3,5,4), of state] unfolding same begun by simp
qed

text \<open>A renewal never takes time away, and a suspended or revoked permit is not renewed.\<close>

lemma renewal_extends:
  assumes "renew_permit H dk months n p db = (Inr p', db')" "0 \<le> months"
  shows "pm_expiry p \<le> pm_expiry p' \<and> dk_today dk \<le> pm_expiry p' \<and> pm_renewals p' = pm_renewals p + 1 \<and>
    pm_status p \<notin> {''SUSPENDED'', ''REVOKED''}"
  using assms by (auto simp: renew_permit_def renewed_permit_def Let_def split: if_splits)

section \<open>What the code does not prevent\<close>

text \<open>Leaving an approval, by a rejection or an expiry, changes no permit.\<close>

lemma withdrawal_keeps_permits:
  assumes "listed (ap_status a) word = Some t" "t \<notin> {Ap_Approved, Ap_Conditional}"
  shows "pd_permits (snd (transition_status H dk word reason conditions a db)) = pd_permits db"
  using assms by (simp add: transition_status_def transition_effects_def Let_def)

text \<open>An approval makes a revoked permit active again.\<close>

lemma revocation_undone:
  assumes "permit_of (ap_id a) db = Some p" "pm_status p = ''REVOKED''"
  shows "p\<lparr>pm_status := ''ACTIVE''\<rparr> \<in> set (pd_permits (snd (approve_effects dk a db)))"
proof -
  have "p\<lparr>pm_status := ''ACTIVE''\<rparr> \<in> set (pd_permits (put_permit (p\<lparr>pm_status := ''ACTIVE''\<rparr>) (activate_site (ap_project a) db)))"
    using permit_of_Some [OF assms(1)] by (force simp: put_permit_def set_update_where)
  then show ?thesis using assms by (simp add: approve_effects_def Let_def)
qed

text \<open>A permit number that was drawn before: the approval fails after the application and the project were saved.\<close>

lemma number_collision:
  assumes "\<not> fresh_number dk db" "permit_of (ap_id a) db = None" "listed (ap_status a) word = Some Ap_Approved"
  shows "transition_status H dk word reason conditions a db =
    (Inl Row_Exists, activate_site (ap_project a) (put_application (decided_application (dk_now dk) Ap_Approved reason conditions a) db))"
  using assms by (simp add: transition_status_def transition_effects_def approve_effects_def issue_permit_def fresh_number_def Let_def)

text \<open>The renewal of a permit makes an application renewed that had been rejected.\<close>

lemma rejected_application_renewed:
  assumes "a \<in> set (pd_applications db)" "ap_id a = pm_application p" "pm_status p = ''ACTIVE''"
    "date_ok (pm_expiry (renewed_permit (dk_today dk) months n p))"
  shows "a\<lparr>ap_status := Ap_Renewed\<rparr> \<in> set (pd_applications (snd (renew_permit H dk months n p db)))"
  using assms by (auto simp: renew_permit_def Let_def mark_renewed_def put_permit_def set_update_where)

text \<open>A document that was never asked for completes a request while a requested one is pending.\<close>

definition two_items :: doc_request where
  "two_items = \<lparr>dr_id = ''REQ-001'', dr_items = [''soil test'', ''drawings''], dr_states = [(''soil test'', ''PENDING''), (''drawings'', ''PENDING'')],
     dr_instructions = [], dr_by = [], dr_at = 0, dr_deadline = [], dr_status = ''PENDING_SUBMISSION'', dr_progress = 0, dr_history = []\<rparr>"

lemma foreign_item_completes:
  "let r = with_item ''anything'' None (with_item ''drawings'' None two_items)
   in dr_progress r = 100 \<and> dr_status r = ''COMPLETED'' \<and> map_of (dr_states r) ''soil test'' = Some ''PENDING''"
  by (simp add: with_item_def two_items_def verified_count_def counted_def percent_all or_default_def or_empty_def Let_def)

text \<open>
  The generic create of the permit endpoint issues a permit for an application that nobody
  approved, and for whatever project it names.
\<close>

lemma posted_without_approval:
  assumes "w \<in> set (pd_sites db)" "st_id w = po_project c" "a \<in> set (pd_applications db)" "ap_id a = po_application c"
    and "permit_of (po_application c) db = None" "po_status c = None" "fresh_number dk db"
  shows "\<exists>p. post_permit dk c db = (Inr p, db\<lparr>pd_permits := pd_permits db @ [p]\<rparr>) \<and>
    pm_application p = ap_id a \<and> pm_project p = po_project c \<and> pm_status p = ''ACTIVE''"
proof -
  have "list_ex (\<lambda>w. st_id w = po_project c) (pd_sites db)" "list_ex (\<lambda>a. ap_id a = po_application c) (pd_applications db)"
    using assms(1-4) by (auto simp: list_ex_iff)
  then show ?thesis
    using assms(4-7) by (simp add: post_permit_def posted_permit_def permit_choices_def fresh_number_def given_def)
qed

section \<open>Witnesses\<close>

definition demo_desk :: "nat \<Rightarrow> desk" where
  "demo_desk k = \<lparr>dk_user = Some \<lparr>ac_id = 5, ac_first = ''Ada'', ac_last = ''Obi'', ac_email = ''ada@gov'', ac_active = True,
     ac_superuser = False, ac_profile = None\<rparr>, dk_profile = Some 2, dk_now = int k, dk_today = 20000, dk_event = k,
     dk_event_ref = ''AUD'', dk_salt = ''s'', dk_new = k, dk_number = show_nat k\<rparr>"

definition demo_filing :: application_call where
  "demo_filing = \<lparr>cl_project = 3, cl_title = None, cl_type = None, cl_jurisdiction = None, cl_priority = None, cl_fee = None,
     cl_fee_status = None, cl_created_by = None, cl_deadline = None, cl_action = None, cl_items = None, cl_documents = None\<rparr>"

definition demo_filed :: permit_db where
  "demo_filed = snd (create_application (\<lambda>_. ''h'') (demo_desk 1) demo_filing
     \<lparr>pd_sites = [\<lparr>st_id = 3, st_name = ''Tower'', st_status = ''DRAFT''\<rparr>], pd_applications = [], pd_permits = [], pd_audit = []\<rparr>)"

definition demo_application :: application where
  "demo_application = hd (pd_applications demo_filed)"

lemma demo_filed_run: "permit_run True (\<lambda>_. ''h'') demo_filed"
  unfolding demo_filed_def by (rule permit_run.step [OF permit_run.start permit_step.filed])

lemma demo_filed_rows: "pd_applications demo_filed = [demo_application] \<and> pd_permits demo_filed = [] \<and>
    ap_id demo_application = 1 \<and> ap_status demo_application = Ap_Submitted"
  by (simp add: demo_application_def demo_filed_def create_application_def demo_desk_def demo_filing_def new_application_def Let_def)

lemma approval_reachable_witness:
  "\<exists>path db' p. length path \<le> 4 \<and> follow (\<lambda>_. ''h'') (demo_desk 2) 1 path demo_filed = (Inr (), db') \<and>
     p \<in> set (pd_permits db') \<and> pm_application p = 1 \<and> pm_status p = ''ACTIVE''"
proof -
  have "demo_application \<in> set (pd_applications demo_filed)" "fresh_number (demo_desk 2) demo_filed"
    using demo_filed_rows by (simp_all add: fresh_number_def)
  from approval_reachable [OF demo_filed_run this] show ?thesis using demo_filed_rows by auto
qed

definition demo_rejected :: permit_db where
  "demo_rejected = snd (transition_status (\<lambda>_. ''h'') (demo_desk 2) ''REJECTED'' None None demo_application demo_filed)"

lemma demo_rejected_step: "permit_step True (\<lambda>_. ''h'') demo_filed demo_rejected"
  unfolding demo_rejected_def by (rule permit_step.moved) (use demo_filed_rows in \<open>simp_all add: fresh_number_def\<close>)

lemma status_changes_listed_witness:
  "let s = ap_status (hd (pd_applications demo_rejected))
   in s = Ap_Submitted \<or> s \<in> set (valid_transitions Ap_Submitted) \<or> s = Ap_Renewed"
proof -
  have rows: "map ap_id (pd_applications demo_rejected) = [1]"
    using demo_filed_rows by (simp add: demo_rejected_def transition_applications put_application_def split: option.split)
  then obtain b where b: "pd_applications demo_rejected = [b]" "ap_id b = 1" by auto
  have "demo_application \<in> set (pd_applications demo_filed)" using demo_filed_rows by simp
  from status_changes_listed [OF demo_filed_run demo_rejected_step this, of b] show ?thesis
    using demo_filed_rows b by (simp add: Let_def)
qed

definition demo_in_review :: permit_db where
  "demo_in_review = snd (assign_reviewer (\<lambda>_. ''h'') (demo_desk 2) (the (dk_user (demo_desk 2))) None demo_application demo_filed)"

definition demo_granted :: permit_db where
  "demo_granted = snd (transition_status (\<lambda>_. ''h'') (demo_desk 3) ''APPROVED'' None None (hd (pd_applications demo_in_review)) demo_in_review)"

lemma demo_granted_facts:
  "permit_run True (\<lambda>_. ''h'') demo_in_review" "permit_step True (\<lambda>_. ''h'') demo_in_review demo_granted"
  "pd_permits demo_in_review = []" "\<exists>a. pd_applications demo_in_review = [a] \<and> ap_id a = 1 \<and> ap_status a = Ap_Under_Review"
  "\<exists>p. pd_permits demo_granted = [p] \<and> pm_application p = 1"
  "\<exists>a. pd_applications demo_granted = [a] \<and> ap_id a = 1 \<and> ap_status a = Ap_Approved"
proof -
  have filed: "demo_application \<in> set (pd_applications demo_filed)" using demo_filed_rows by simp
  show "permit_run True (\<lambda>_. ''h'') demo_in_review"
    unfolding demo_in_review_def by (rule permit_run.step [OF demo_filed_run permit_step.assigned [OF filed]])
  have rows: "map ap_id (pd_applications demo_in_review) = [1]" "map ap_status (pd_applications demo_in_review) = [Ap_Under_Review]"
      "pd_permits demo_in_review = []"
    using demo_filed_rows by (simp_all add: demo_in_review_def assign_reviewer_def put_application_def Let_def)
  then show "pd_permits demo_in_review = []" by simp
  from rows obtain a where a: "pd_applications demo_in_review = [a]" "ap_id a = 1" "ap_status a = Ap_Under_Review" by auto
  then show "\<exists>a. pd_applications demo_in_review = [a] \<and> ap_id a = 1 \<and> ap_status a = Ap_Under_Review" by simp
  show "permit_step True (\<lambda>_. ''h'') demo_in_review demo_granted"
    unfolding demo_granted_def by (rule permit_step.moved) (simp_all add: a(1) fresh_number_def rows(3))
  have listed: "listed Ap_Under_Review ''APPROVED'' = Some Ap_Approved"
    by (simp add: listed_def valid_transitions_def app_status_text_def)
  show "\<exists>p. pd_permits demo_granted = [p] \<and> pm_application p = 1"
    using a rows(3) listed by (simp add: demo_granted_def transition_status_def transition_effects_def approve_effects_def
        issue_permit_def permit_of_def first_where_def permit_for_def Let_def)
  show "\<exists>a. pd_applications demo_granted = [a] \<and> ap_id a = 1 \<and> ap_status a = Ap_Approved"
    using a listed by (simp add: demo_granted_def transition_applications put_application_def)
qed

text \<open>An approved application and its permit.\<close>

lemma permits_accounted_witness:
  "\<exists>a p. pd_applications demo_granted = [a] \<and> ap_status a = Ap_Approved \<and> pd_permits demo_granted = [p] \<and>
     permit_of (ap_id a) demo_granted \<noteq> None \<and> ap_project a = pm_project p"
proof -
  obtain a p where a: "pd_applications demo_granted = [a]" "ap_id a = 1" "ap_status a = Ap_Approved"
    and p: "pd_permits demo_granted = [p]" "pm_application p = 1"
    using demo_granted_facts(5,6) by blast
  have "permit_run True (\<lambda>_. ''h'') demo_granted"
    by (rule permit_run.step [OF demo_granted_facts(1,2)])
  from permits_accounted [OF this] a p show ?thesis by auto
qed

lemma permits_only_by_approval_witness:
  "\<exists>a. a \<in> set (pd_applications demo_in_review) \<and> ap_id a = 1 \<and> ap_status a = Ap_Under_Review"
proof -
  obtain a where a: "pd_applications demo_in_review = [a]" "ap_id a = 1" "ap_status a = Ap_Under_Review"
    using demo_granted_facts(4) by blast
  obtain p where "p \<in> set (pd_permits demo_granted)" "pm_application p = 1"
    using demo_granted_facts(5) by auto
  from permits_only_by_approval [OF demo_granted_facts(1,2) this(1)] this(2) show ?thesis
    using demo_granted_facts(3) a by auto
qed

lemma doc_request_complete_witness:
  "let r = progressed (demo_desk 3) (Some ''drawings'') None None None two_items
   in dr_progress r \<le> 100 \<and> dr_progress r \<noteq> 100 \<and> dr_status r = ''IN_PROGRESS''"
proof -
  let ?r = "progressed (demo_desk 3) (Some ''drawings'') None None None two_items"
  have d: "dr_states ?r = [(''soil test'', ''PENDING''), (''drawings'', ''VERIFIED'')]"
    by (simp add: progressed_keeps two_items_def or_empty_def or_default_def)
  have fact: "dr_progress ?r \<le> 100 \<and>
    (dr_progress ?r = 100 \<longleftrightarrow> (\<forall>j \<in> set (dr_items two_items). \<exists>w. map_of (dr_states ?r) j = Some w \<and> counted w)) \<and>
    dr_status ?r = (if or_empty None \<noteq> [] then or_empty None
       else if dr_progress ?r = 100 then ''COMPLETED''
       else if \<exists>j \<in> set (dr_items two_items). \<exists>w. map_of (dr_states ?r) j = Some w \<and> (counted w \<or> w = ''SUBMITTED'')
       then ''IN_PROGRESS'' else dr_status two_items)"
    by (rule doc_request_complete [OF _ _ _ _ _ _ refl]) (auto simp: two_items_def)
  moreover have "dr_items two_items = [''soil test'', ''drawings'']" by (simp add: two_items_def)
  ultimately show ?thesis unfolding d by (simp add: Let_def counted_def or_empty_def)
qed

end
