(* ===== verification/Approvals.thy ===== *)
theory Approvals
  imports Permit_Applications
begin

text \<open>
  Approval requests: \<^verbatim>\<open>apps/approvals/services.py\<close> and its models. An amount is given in
  hundredths, with the text Python renders it to. A write into the entity a request is about, a
  notice and an audit event are lost when they fail; nothing else depends on them. The status
  columns hold text, as creation takes a status from the caller.
\<close>

section \<open>Rows\<close>

record approval =
  aq_id :: nat
  aq_reference :: string
  aq_project :: nat
  aq_title :: string
  aq_type :: string
  aq_discipline :: string
  aq_priority :: string
  aq_status :: string
  aq_value :: int
  aq_level :: string
  aq_submitted_by :: "string option"
  aq_submitter :: "nat option"
  aq_assignee :: "nat option"
  aq_assignee_name :: string
  aq_due :: string
  aq_description :: string
  aq_source_type :: string
  aq_source :: "string option"
  aq_version :: string
  aq_gate :: string
  aq_met :: bool
  aq_bottleneck :: "string option"
  aq_overdue :: int
  aq_required :: int
  aq_completed :: int
  aq_file :: "string option"

record approval_decision =
  de_reference :: string
  de_request :: nat
  de_decider :: "nat option"
  de_name :: string
  de_role :: string
  de_outcome :: string
  de_notes :: string
  de_conditions :: "string option"
  de_pin :: bool
  de_signature :: "string option"
  de_at :: int

record criterion =
  cr_id :: nat
  cr_request :: nat
  cr_name :: string
  cr_status :: string
  cr_notes :: string
  cr_order :: nat

record approval_comment =
  cm_request :: nat
  cm_author :: "nat option"
  cm_name :: string
  cm_type :: string
  cm_content :: string
  cm_file :: "string option"

record notice =
  no_recipient :: nat
  no_title :: string
  no_message :: string
  no_priority :: string
  no_entity :: nat

record approval_db =
  ab_projects :: "nat list"
  ab_requests :: "approval list"
  ab_decisions :: "approval_decision list"
  ab_criteria :: "criterion list"
  ab_comments :: "approval_comment list"
  ab_documents :: "(nat \<times> string) list"
  ab_milestones :: "(nat \<times> string) list"
  ab_permits :: "permit list"
  ab_reports :: "(nat \<times> string \<times> string) list"
  ab_notices :: "notice list"
  ab_audit :: "audit_event list"

datatype approval_error = No_Project | Request_Exists | No_Criterion

section \<open>Saving, logging, notifying\<close>

definition calculate_doa :: "approval \<Rightarrow> string" where
  "calculate_doa r = (if 50000000 * 100 < aq_value r then ''Permanent Secretary / Director General'' else ''Director'')"

text \<open>\<^verbatim>\<open>save\<close> computes the level before it writes.\<close>

definition save_request :: "approval \<Rightarrow> approval_db \<Rightarrow> approval_db" where
  "save_request r db = db\<lparr>ab_requests := update_where (\<lambda>x. aq_id x = aq_id r)
     (\<lambda>_. r\<lparr>aq_level := calculate_doa r\<rparr>) (ab_requests db)\<rparr>"

definition approval_logged ::
    "(string \<Rightarrow> string) \<Rightarrow> desk \<Rightarrow> string \<Rightarrow> nat \<Rightarrow> json \<Rightarrow> json \<Rightarrow> approval_db \<Rightarrow> approval_db" where
  "approval_logged H dk action k previous new_state db =
     db\<lparr>ab_audit := log_audit H dk ''Approval'' action k previous new_state (ab_audit db)\<rparr>"

definition notified :: "nat option \<Rightarrow> string \<Rightarrow> string \<Rightarrow> string \<Rightarrow> nat \<Rightarrow> approval_db \<Rightarrow> approval_db" where
  "notified who title message priority k db = (case who of
      None \<Rightarrow> db
    | Some u \<Rightarrow> db\<lparr>ab_notices := ab_notices db @
        [\<lparr>no_recipient = u, no_title = title, no_message = message, no_priority = priority, no_entity = k\<rparr>]\<rparr>)"

definition add_decision :: "approval_decision \<Rightarrow> approval_db \<Rightarrow> approval_db" where
  "add_decision d db = db\<lparr>ab_decisions := ab_decisions db @ [d]\<rparr>"

text \<open>What a decision has unless the caller says otherwise.\<close>

definition decision_of :: "desk \<Rightarrow> approval \<Rightarrow> string \<Rightarrow> string \<Rightarrow> string \<Rightarrow> string \<Rightarrow> approval_decision" where
  "decision_of dk r name role outcome notes =
     \<lparr>de_reference = dk_number dk, de_request = aq_id r, de_decider = map_option ac_id (dk_user dk), de_name = name,
      de_role = role, de_outcome = outcome, de_notes = notes, de_conditions = None, de_pin = False, de_signature = None,
      de_at = dk_now dk\<rparr>"

text \<open>The column a key names, when the text is that of a key.\<close>

definition set_status :: "string \<Rightarrow> string \<Rightarrow> (nat \<times> string) list \<Rightarrow> (nat \<times> string) list" where
  "set_status k s = update_where (\<lambda>p. show_nat (fst p) = k) (\<lambda>p. (fst p, s))"

definition sync_source_entity :: "approval \<Rightarrow> string \<Rightarrow> approval_db \<Rightarrow> approval_db" where
  "sync_source_entity r outcome db =
     (let k = or_empty (aq_source r); s = (if outcome = ''Approved'' then ''Approved'' else ''Rejected'')
      in if k = [] then db
         else if aq_source_type r = ''Document'' then db\<lparr>ab_documents := set_status k s (ab_documents db)\<rparr>
         else if aq_source_type r = ''PermitApplication''
         then db\<lparr>ab_permits := update_where (\<lambda>p. show_nat (pm_id p) = k) (\<lambda>p. p\<lparr>pm_status := s\<rparr>) (ab_permits db)\<rparr>
         else if aq_source_type r = ''Milestone''
         then db\<lparr>ab_milestones := set_status k (if outcome = ''Approved'' then ''Completed'' else ''Blocked'') (ab_milestones db)\<rparr>
         else db)"

section \<open>Creation\<close>

record approval_call =
  cv_project :: nat
  cv_title :: "string option"
  cv_type :: "string option"
  cv_discipline :: "string option"
  cv_priority :: "string option"
  cv_status :: "string option"
  cv_value :: "int \<times> string"
  cv_submitted_by :: "string option"
  cv_assignee_name :: "string option"
  cv_due :: "string option"
  cv_description :: "string option"
  cv_source_type :: "string option"
  cv_source :: "string option"
  cv_version :: "string option"
  cv_gate :: "string option"
  cv_bottleneck :: "string option"
  cv_overdue :: "int option"
  cv_required :: "int option"
  cv_completed :: "int option"
  cv_file :: "string option"
  cv_criteria :: "(string option \<times> string option \<times> string option) list"

definition some_text :: "string option \<Rightarrow> string option" where
  "some_text x = (if or_empty x = [] then None else x)"

definition version_hash :: "(string \<Rightarrow> string) \<Rightarrow> desk \<Rightarrow> string \<Rightarrow> approval_call \<Rightarrow> string" where
  "version_hash H dk drawn c =
     (if or_empty (cv_version c) \<noteq> [] then or_empty (cv_version c)
      else ''0x'' @ take 16 (H (given ''General'' (cv_source_type c) @ ''-'' @ or_default (or_empty (cv_source c)) drawn @ ''-''
             @ iso_instant (dk_now dk))))"

definition new_approval :: "(string \<Rightarrow> string) \<Rightarrow> desk \<Rightarrow> string \<Rightarrow> approval_call \<Rightarrow> approval" where
  "new_approval H dk drawn c =
     (let u = map_option ac_id (dk_user dk);
          r = \<lparr>aq_id = dk_new dk, aq_reference = dk_number dk, aq_project = cv_project c,
                aq_title = given ''Official Approval Request'' (cv_title c), aq_type = given ''General'' (cv_type c),
                aq_discipline = given ''General'' (cv_discipline c), aq_priority = given ''Medium'' (cv_priority c),
                aq_status = given ''Pending'' (cv_status c), aq_value = fst (cv_value c), aq_level = [],
                aq_submitted_by = (if or_empty (cv_submitted_by c) \<noteq> [] then cv_submitted_by c else map_option display_name (dk_user dk)),
                aq_submitter = u, aq_assignee = u, aq_assignee_name = given ''Lead Government Reviewer'' (cv_assignee_name c),
                aq_due = or_default (or_empty (cv_due c)) (iso_day (dk_now dk div 86400000000 + 7)),
                aq_description = given [] (cv_description c), aq_source_type = given ''General'' (cv_source_type c),
                aq_source = some_text (cv_source c), aq_version = version_hash H dk drawn c,
                aq_gate = given ''Passed'' (cv_gate c), aq_met = False, aq_bottleneck = cv_bottleneck c,
                aq_overdue = given 0 (cv_overdue c), aq_required = given 1 (cv_required c), aq_completed = given 0 (cv_completed c),
                aq_file = cv_file c\<rparr>
      in r\<lparr>aq_level := calculate_doa r\<rparr>)"

definition default_criteria :: "(string \<times> string) list" where
  "default_criteria =
     [(''Engineering Load & Capacity Verification'', ''Checked against statutory structural limits.''),
      (''Interference & Routing Clash Check'', ''Checked against BIM coordination model.''),
      (''Environmental & Efficiency Standards'', ''Verified against energy codes.'')]"

definition criteria_for :: "(nat \<Rightarrow> nat) \<Rightarrow> approval \<Rightarrow> approval_call \<Rightarrow> criterion list" where
  "criteria_for pks r c =
     (if aq_type r = ''Technical'' \<and> cv_criteria c = []
      then map (\<lambda>(i, n, t). \<lparr>cr_id = pks i, cr_request = aq_id r, cr_name = n, cr_status = ''pending'', cr_notes = t, cr_order = i\<rparr>)
             (enumerate 0 default_criteria)
      else map (\<lambda>(i, n, s, t). \<lparr>cr_id = pks i, cr_request = aq_id r, cr_name = given (''Criterion '' @ show_nat (i + 1)) n,
                   cr_status = given ''pending'' s, cr_notes = given [] t, cr_order = i\<rparr>)
             (enumerate 0 (cv_criteria c)))"

definition create_request ::
    "(string \<Rightarrow> string) \<Rightarrow> desk \<Rightarrow> string \<Rightarrow> (nat \<Rightarrow> nat) \<Rightarrow> approval_call \<Rightarrow> approval_db \<Rightarrow> (approval_error + approval) \<times> approval_db" where
  "create_request H dk drawn pks c db =
     (let r = new_approval H dk drawn c
      in if cv_project c \<notin> set (ab_projects db) then (Inl No_Project, db)
         else if list_ex (\<lambda>x. aq_id x = aq_id r) (ab_requests db) then (Inl Request_Exists, db)
         else (Inr r,
           notified (map_option ac_id (dk_user dk)) (''Approval Request Logged: '' @ aq_reference r)
             (aq_title r @ '' submitted for executive decision.'') (aq_priority r) (aq_id r)
           (approval_logged H dk ''APPROVAL_REQUEST_CREATED'' (aq_id r) JNull
             (JObj [(''ref'', JStr (aq_reference r)), (''type'', JStr (aq_type r)), (''value'', JStr (snd (cv_value c))),
                    (''source_hash'', JStr (aq_version r))])
           (db\<lparr>ab_requests := ab_requests db @ [r], ab_criteria := ab_criteria db @ criteria_for pks r c\<rparr>))))"

section \<open>Handling\<close>

definition assign_approval ::
    "(string \<Rightarrow> string) \<Rightarrow> desk \<Rightarrow> acc_user option \<Rightarrow> string option \<Rightarrow> approval \<Rightarrow> approval_db \<Rightarrow> approval \<times> approval_db" where
  "assign_approval H dk reviewer name r db =
     (let r' = r\<lparr>aq_assignee := map_option ac_id reviewer,
                 aq_assignee_name := (if or_empty name \<noteq> [] then or_empty name
                    else case reviewer of Some u \<Rightarrow> full_name u | None \<Rightarrow> ''Assigned Reviewer''),
                 aq_status := if aq_status r = ''Pending'' then ''In Review'' else aq_status r\<rparr>
      in (r', notified (map_option ac_id reviewer) (''Approval Request Assigned: '' @ aq_reference r)
                (''You have been assigned to review '' @ aq_title r @ ''.'') (aq_priority r) (aq_id r)
              (approval_logged H dk ''APPROVAL_REQUEST_ASSIGNED'' (aq_id r) (JObj [(''assignee'', JStr (aq_assignee_name r))])
                (JObj [(''assignee'', JStr (aq_assignee_name r'))]) (save_request r' db))))"

definition open_reports :: "nat \<Rightarrow> approval_db \<Rightarrow> nat" where
  "open_reports pj db = rows_where (\<lambda>(p, severity, status). p = pj \<and> severity \<in> set [''Critical'', ''Major'']
     \<and> status \<in> set [''Open'', ''In Progress'']) (ab_reports db)"

text \<open>Whether the gate is passed, and how many reports block it.\<close>

definition evaluate_compliance_gate :: "approval \<Rightarrow> approval_db \<Rightarrow> (bool \<times> nat) \<times> approval_db" where
  "evaluate_compliance_gate r db =
     (let n = open_reports (aq_project r) db
      in if 0 < n then ((False, n), save_request (r\<lparr>aq_gate := ''Blocked''\<rparr>) db)
         else ((True, 0), save_request (r\<lparr>aq_gate := ''Passed''\<rparr>) db))"

definition request_revision ::
    "(string \<Rightarrow> string) \<Rightarrow> desk \<Rightarrow> string \<Rightarrow> string option \<Rightarrow> approval \<Rightarrow> approval_db \<Rightarrow> approval_decision \<times> approval_db" where
  "request_revision H dk notes attachment r db =
     (let r' = r\<lparr>aq_status := ''Awaiting Fix''\<rparr>; name = desk_name dk ''Reviewing Official'';
          d = decision_of dk r name ''Reviewer'' ''Returned For Info'' notes;
          db = save_request r' db;
          db = db\<lparr>ab_comments := ab_comments db @ [\<lparr>cm_request = aq_id r, cm_author = map_option ac_id (dk_user dk), cm_name = name,
                 cm_type = ''RevisionRequest'', cm_content = notes, cm_file = attachment\<rparr>]\<rparr>
      in (d, notified (aq_submitter r) (''Revision Requested: '' @ aq_reference r)
               (''Changes required for '' @ aq_title r @ '': '' @ take 100 notes) ''High'' (aq_id r)
             (approval_logged H dk ''APPROVAL_REVISION_REQUESTED'' (aq_id r) (JObj [(''status'', JStr (aq_status r))])
                (JObj [(''status'', JStr ''Awaiting Fix''), (''revision_notes'', JStr notes)]) (add_decision d db))))"

definition add_comment :: "desk \<Rightarrow> string \<Rightarrow> string \<Rightarrow> string option \<Rightarrow> approval \<Rightarrow> approval_db \<Rightarrow> approval_db" where
  "add_comment dk content kind attachment r db =
     db\<lparr>ab_comments := ab_comments db @ [\<lparr>cm_request = aq_id r, cm_author = map_option ac_id (dk_user dk),
        cm_name = desk_name dk ''Official'', cm_type = kind, cm_content = content, cm_file = attachment\<rparr>]\<rparr>"

text \<open>The seal is taken over the clock at that moment, \<open>at_time\<close>; the decision stores a later one.\<close>

definition approval_seal :: "(string \<Rightarrow> string) \<Rightarrow> string \<Rightarrow> string" where
  "approval_seal H raw = ''0x8f2c'' @ take 16 (H raw) @ ''d91''"

definition seal_text :: "desk \<Rightarrow> int \<Rightarrow> approval \<Rightarrow> string" where
  "seal_text dk at_time r = aq_reference r @ ''-'' @ or_default (aq_version r) ''V1'' @ ''-''
     @ (case dk_user dk of Some u \<Rightarrow> show_nat (ac_id u) | None \<Rightarrow> ''anon'') @ ''-'' @ iso_instant at_time"

definition approve_request ::
    "(string \<Rightarrow> string) \<Rightarrow> desk \<Rightarrow> int \<Rightarrow> string \<Rightarrow> string option \<Rightarrow> string option \<Rightarrow> approval \<Rightarrow> approval_db
     \<Rightarrow> approval_decision \<times> approval_db" where
  "approve_request H dk at_time notes pin conditions r db =
     (let conditional = or_empty conditions \<noteq> [];
          r' = r\<lparr>aq_status := if conditional then ''Conditional'' else ''Approved'', aq_met := \<not> conditional \<or> aq_met r\<rparr>;
          seal = approval_seal H (seal_text dk at_time r);
          d = (decision_of dk r (desk_name dk ''Executive Director'') ''Director'' (if conditional then ''Conditional'' else ''Approved'')
                (or_default notes (if conditional then ''Approved subject to specified conditions.'' else ''Fully approved and authorized.'')))
              \<lparr>de_conditions := conditions, de_pin := or_empty pin \<noteq> [], de_signature := Some seal\<rparr>;
          db = sync_source_entity r' ''Approved'' (add_decision d (save_request r' db))
      in (d, notified (aq_submitter r) (''Decision: '' @ aq_reference r @ '' '' @ py_upper (aq_status r'))
               (aq_title r @ '' has been officially approved with cryptographic seal.'') ''High'' (aq_id r)
             (approval_logged H dk ''APPROVAL_REQUEST_APPROVED'' (aq_id r) (JObj [(''status'', JStr (aq_status r))])
                (JObj [(''status'', JStr (aq_status r')), (''decision_ref'', JStr (de_reference d)), (''hash'', JStr seal),
                       (''version_sealed'', JStr (aq_version r))]) db)))"

definition reject_request ::
    "(string \<Rightarrow> string) \<Rightarrow> desk \<Rightarrow> string \<Rightarrow> approval \<Rightarrow> approval_db \<Rightarrow> approval_decision \<times> approval_db" where
  "reject_request H dk reason r db =
     (let r' = r\<lparr>aq_status := ''Rejected''\<rparr>;
          d = decision_of dk r (desk_name dk ''Reviewing Official'') ''Director'' ''Rejected'' reason;
          db = sync_source_entity r' ''Rejected'' (add_decision d (save_request r' db))
      in (d, notified (aq_submitter r) (''Rejected: '' @ aq_reference r)
               (''Approval request '' @ aq_title r @ '' was not authorized: '' @ take 100 reason) ''High'' (aq_id r)
             (approval_logged H dk ''APPROVAL_REQUEST_REJECTED'' (aq_id r) (JObj [(''status'', JStr (aq_status r))])
                (JObj [(''status'', JStr ''Rejected''), (''reason'', JStr reason)]) db)))"

definition request_info :: "(string \<Rightarrow> string) \<Rightarrow> desk \<Rightarrow> string \<Rightarrow> approval \<Rightarrow> approval_db \<Rightarrow> approval_decision \<times> approval_db" where
  "request_info H dk query r db =
     (let d = decision_of dk r (desk_name dk ''Reviewing Official'') ''Director'' ''Returned For Info'' query
      in (d, approval_logged H dk ''APPROVAL_INFO_REQUESTED'' (aq_id r) JNull (JObj [(''query'', JStr query)])
               (add_decision d (save_request (r\<lparr>aq_status := ''Awaiting Fix''\<rparr>) db))))"

definition escalate_request ::
    "(string \<Rightarrow> string) \<Rightarrow> desk \<Rightarrow> string \<Rightarrow> string \<Rightarrow> approval \<Rightarrow> approval_db \<Rightarrow> approval_decision \<times> approval_db" where
  "escalate_request H dk reason target r db =
     (let r' = r\<lparr>aq_status := ''Escalated'', aq_level := target,
                 aq_bottleneck := Some (or_default reason ''High Financial Value / Critical SLA Threshold Exceeded'')\<rparr>;
          d = decision_of dk r (desk_name dk ''Escalating Officer'') ''Director'' ''Escalated''
                (''Escalated to '' @ target @ ''. Reason: '' @ reason)
      in (d, approval_logged H dk ''APPROVAL_REQUEST_ESCALATED'' (aq_id r) (JObj [(''status'', JStr (aq_status r))])
               (JObj [(''status'', JStr ''Escalated''), (''target'', JStr target)]) (add_decision d (save_request r' db))))"

text \<open>
  The entity is written before the request is, and the decision after both; the writes of rows the
  request already loaded are taken to succeed.
\<close>

definition signed_request :: "approval \<Rightarrow> approval" where
  "signed_request r =
     (let n = min (aq_required r) (aq_completed r + 1)
      in r\<lparr>aq_completed := n, aq_status := if aq_required r \<le> n then ''Approved'' else aq_status r\<rparr>)"

definition sign_document :: "(string \<Rightarrow> string) \<Rightarrow> desk \<Rightarrow> int \<Rightarrow> approval \<Rightarrow> approval_db \<Rightarrow> approval \<times> approval_db" where
  "sign_document H dk at_time r db =
     (let r' = signed_request r;
          count = show_int (aq_completed r') @ ''/'' @ show_int (aq_required r');
          db = (if aq_required r' \<le> aq_completed r' then sync_source_entity r' ''Approved'' db else db);
          d = (decision_of dk r (desk_name dk ''Authorized Signatory'') ''Authorized Signatory''
                (if aq_status r' = ''Approved'' then ''Approved'' else ''Conditional'') (''Digital signature committed ('' @ count @ '').''))
              \<lparr>de_signature := Some (approval_seal H (''SIG-'' @ aq_reference r @ ''-'' @ or_default (aq_version r) ''V1'' @ ''-''
                 @ iso_instant at_time))\<rparr>
      in (r'\<lparr>aq_level := calculate_doa r'\<rparr>, approval_logged H dk ''APPROVAL_DOCUMENT_SIGNED'' (aq_id r) JNull (JObj [(''signatures'', JStr count)])
                (add_decision d (save_request r' db))))"

definition evaluate_criterion :: "nat \<Rightarrow> string \<Rightarrow> string option \<Rightarrow> approval_db \<Rightarrow> (approval_error + criterion) \<times> approval_db" where
  "evaluate_criterion k status notes db = (case first_where (\<lambda>c. cr_id c = k) (ab_criteria db) of
      None \<Rightarrow> (Inl No_Criterion, db)
    | Some c \<Rightarrow>
        let c' = c\<lparr>cr_status := status, cr_notes := or_default (or_empty notes) (cr_notes c)\<rparr>
        in (Inr c', db\<lparr>ab_criteria := update_where (\<lambda>x. cr_id x = k) (\<lambda>_. c') (ab_criteria db)\<rparr>))"

section \<open>Runs\<close>

inductive approval_step :: "(string \<Rightarrow> string) \<Rightarrow> approval_db \<Rightarrow> approval_db \<Rightarrow> bool" for H :: "string \<Rightarrow> string" where
  created: "approval_step H db (snd (create_request H dk drawn pks c db))"
| assigned: "r \<in> set (ab_requests db) \<Longrightarrow> approval_step H db (snd (assign_approval H dk u name r db))"
| gated: "r \<in> set (ab_requests db) \<Longrightarrow> approval_step H db (snd (evaluate_compliance_gate r db))"
| returned: "r \<in> set (ab_requests db) \<Longrightarrow> approval_step H db (snd (request_revision H dk why attachment r db))"
| commented: "r \<in> set (ab_requests db) \<Longrightarrow> approval_step H db (add_comment dk content kind attachment r db)"
| approved: "r \<in> set (ab_requests db) \<Longrightarrow> approval_step H db (snd (approve_request H dk at_time why pin conditions r db))"
| rejected: "r \<in> set (ab_requests db) \<Longrightarrow> approval_step H db (snd (reject_request H dk why r db))"
| queried: "r \<in> set (ab_requests db) \<Longrightarrow> approval_step H db (snd (request_info H dk query r db))"
| escalated: "r \<in> set (ab_requests db) \<Longrightarrow> approval_step H db (snd (escalate_request H dk why target r db))"
| signed: "r \<in> set (ab_requests db) \<Longrightarrow> approval_step H db (snd (sign_document H dk at_time r db))"
| evaluated: "approval_step H db (snd (evaluate_criterion k status why db))"

inductive approval_run :: "(string \<Rightarrow> string) \<Rightarrow> approval_db \<Rightarrow> bool" for H :: "string \<Rightarrow> string" where
  start: "approval_run H \<lparr>ab_projects = pjs, ab_requests = [], ab_decisions = [], ab_criteria = [], ab_comments = [],
    ab_documents = ds, ab_milestones = ms, ab_permits = ps, ab_reports = ncrs, ab_notices = [], ab_audit = []\<rparr>"
| step: "approval_run H db \<Longrightarrow> approval_step H db db' \<Longrightarrow> approval_run H db'"

text \<open>Signing one request several times.\<close>

fun sign_all :: "(string \<Rightarrow> string) \<Rightarrow> (desk \<times> int) list \<Rightarrow> approval \<Rightarrow> approval_db \<Rightarrow> approval \<times> approval_db" where
  "sign_all H [] r db = (r, db)"
| "sign_all H ((dk, t) # ss) r db = (case sign_document H dk t r db of (r', db') \<Rightarrow> sign_all H ss r' db')"

section \<open>What the parts write\<close>

lemma approval_frames [simp]:
  "ab_requests (approval_logged H dk action k p n db) = ab_requests db"
  "ab_decisions (approval_logged H dk action k p n db) = ab_decisions db"
  "ab_comments (approval_logged H dk action k p n db) = ab_comments db"
  "ab_criteria (approval_logged H dk action k p n db) = ab_criteria db"
  "ab_requests (notified who title message priority k db) = ab_requests db"
  "ab_decisions (notified who title message priority k db) = ab_decisions db"
  "ab_comments (notified who title message priority k db) = ab_comments db"
  "ab_criteria (notified who title message priority k db) = ab_criteria db"
  "ab_requests (sync_source_entity r outcome db) = ab_requests db"
  "ab_decisions (sync_source_entity r outcome db) = ab_decisions db"
  "ab_comments (sync_source_entity r outcome db) = ab_comments db"
  "ab_criteria (sync_source_entity r outcome db) = ab_criteria db"
  "ab_requests (add_decision d db) = ab_requests db"
  "ab_decisions (add_decision d db) = ab_decisions db @ [d]"
  "ab_comments (add_decision d db) = ab_comments db"
  "ab_criteria (add_decision d db) = ab_criteria db"
  "ab_decisions (save_request r db) = ab_decisions db"
  "ab_comments (save_request r db) = ab_comments db"
  "ab_criteria (save_request r db) = ab_criteria db"
  by (simp_all add: approval_logged_def notified_def sync_source_entity_def add_decision_def save_request_def Let_def split: option.split)

lemma save_request_cong: "ab_requests db = ab_requests db' \<Longrightarrow> ab_requests (save_request r db) = ab_requests (save_request r db')"
  by (simp add: save_request_def)

text \<open>
  Every operation on a stored request writes that request alone, and adds at most a decision and
  a comment on it: \<open>wrote r r' ds db db'\<close>.
\<close>

definition wrote :: "approval \<Rightarrow> approval \<Rightarrow> approval_decision list \<Rightarrow> approval_db \<Rightarrow> approval_db \<Rightarrow> bool" where
  "wrote r r' ds db db' \<longleftrightarrow> aq_id r' = aq_id r \<and> ab_requests db' = ab_requests (save_request r' db) \<and>
     ab_decisions db' = ab_decisions db @ ds \<and> list_all (\<lambda>d. de_request d = aq_id r) ds \<and>
     (\<exists>cs. ab_comments db' = ab_comments db @ cs \<and> list_all (\<lambda>c. cm_request c = aq_id r) cs) \<and> ab_criteria db' = ab_criteria db"

lemma wrote_facts:
  "wrote r (fst (assign_approval H dk u name r db)) [] db (snd (assign_approval H dk u name r db))"
  "wrote r (r\<lparr>aq_gate := if 0 < open_reports (aq_project r) db then ''Blocked'' else ''Passed''\<rparr>) [] db
     (snd (evaluate_compliance_gate r db))"
  "wrote r (r\<lparr>aq_status := ''Awaiting Fix''\<rparr>) [fst (request_revision H dk why attachment r db)] db
     (snd (request_revision H dk why attachment r db))"
  "wrote r (r\<lparr>aq_status := if or_empty conditions \<noteq> [] then ''Conditional'' else ''Approved'',
       aq_met := or_empty conditions = [] \<or> aq_met r\<rparr>)
     [fst (approve_request H dk at_time why pin conditions r db)] db (snd (approve_request H dk at_time why pin conditions r db))"
  "wrote r (r\<lparr>aq_status := ''Rejected''\<rparr>) [fst (reject_request H dk why r db)] db (snd (reject_request H dk why r db))"
  "wrote r (r\<lparr>aq_status := ''Awaiting Fix''\<rparr>) [fst (request_info H dk query r db)] db (snd (request_info H dk query r db))"
  "wrote r (r\<lparr>aq_status := ''Escalated'', aq_level := target,
       aq_bottleneck := Some (or_default why ''High Financial Value / Critical SLA Threshold Exceeded'')\<rparr>)
     [fst (escalate_request H dk why target r db)] db (snd (escalate_request H dk why target r db))"
  by (simp_all add: wrote_def assign_approval_def evaluate_compliance_gate_def request_revision_def approve_request_def
      reject_request_def request_info_def escalate_request_def decision_of_def Let_def save_request_def)

lemma signed_fields [simp]: "aq_id (signed_request r) = aq_id r" "aq_value (signed_request r) = aq_value r"
    "aq_required (signed_request r) = aq_required r"
  by (simp_all add: signed_request_def Let_def)

lemma sign_wrote:
  "\<exists>d. wrote r (signed_request r) [d] db (snd (sign_document H dk t r db)) \<and>
     de_outcome d = (if aq_status (signed_request r) = ''Approved'' then ''Approved'' else ''Conditional'')"
  by (auto simp: wrote_def sign_document_def decision_of_def Let_def save_request_def sync_source_entity_def)

section \<open>The invariant\<close>

definition approval_inv :: "approval_db \<Rightarrow> bool" where
  "approval_inv db \<longleftrightarrow> distinct (map aq_id (ab_requests db)) \<and> list_all (\<lambda>r. aq_level r = calculate_doa r) (ab_requests db) \<and>
     de_request ` set (ab_decisions db) \<union> cm_request ` set (ab_comments db) \<union> cr_request ` set (ab_criteria db)
       \<subseteq> aq_id ` set (ab_requests db)"

lemma calculate_doa_level [simp]: "calculate_doa (r\<lparr>aq_level := l\<rparr>) = calculate_doa r"
  by (simp add: calculate_doa_def)

lemma save_request_ids: "map aq_id (ab_requests (save_request r db)) = map aq_id (ab_requests db)"
  by (auto simp: save_request_def update_where_def)

lemma save_request_levels:
  "list_all (\<lambda>r. aq_level r = calculate_doa r) (ab_requests db) \<Longrightarrow>
   list_all (\<lambda>r. aq_level r = calculate_doa r) (ab_requests (save_request r' db))"
  by (auto simp: save_request_def list_all_iff set_update_where)

lemma wrote_inv:
  assumes "approval_inv db" "r \<in> set (ab_requests db)" "wrote r r' ds db db'"
  shows "approval_inv db'"
proof -
  have ids: "map aq_id (ab_requests db') = map aq_id (ab_requests db)"
    using assms(3) by (simp add: wrote_def save_request_ids)
  then have "aq_id ` set (ab_requests db') = aq_id ` set (ab_requests db)" by (metis list.set_map)
  moreover have "de_request ` set ds \<subseteq> {aq_id r}" using assms(3) by (auto simp: wrote_def list_all_iff)
  moreover obtain cs where "ab_comments db' = ab_comments db @ cs" "cm_request ` set cs \<subseteq> {aq_id r}"
    using assms(3) by (auto simp: wrote_def list_all_iff)
  moreover have "list_all (\<lambda>r. aq_level r = calculate_doa r) (ab_requests db')"
    using assms(1,3) save_request_levels by (simp add: wrote_def approval_inv_def)
  ultimately show ?thesis
    using assms ids unfolding approval_inv_def wrote_def by (auto simp: image_Un)
qed

lemma new_approval_level: "aq_level (new_approval H dk drawn c) = calculate_doa (new_approval H dk drawn c)"
  by (simp add: new_approval_def calculate_doa_def Let_def)

lemma criteria_for_request: "cr_request ` set (criteria_for pks r c) \<subseteq> {aq_id r}"
  by (auto simp: criteria_for_def)

lemma created_inv: "approval_inv db \<Longrightarrow> approval_inv (snd (create_request H dk drawn pks c db))"
  using criteria_for_request [of pks "new_approval H dk drawn c" c]
  by (auto simp: create_request_def approval_inv_def new_approval_level list_ex_iff Let_def)

lemma commented_inv: "approval_inv db \<Longrightarrow> r \<in> set (ab_requests db) \<Longrightarrow> approval_inv (add_comment dk content kind attachment r db)"
  by (auto simp: add_comment_def approval_inv_def)

lemma evaluated_inv: "approval_inv db \<Longrightarrow> approval_inv (snd (evaluate_criterion k status why db))"
proof (cases "first_where (\<lambda>c. cr_id c = k) (ab_criteria db)")
  case (Some c)
  assume inv: "approval_inv db"
  let ?c = "c\<lparr>cr_status := status, cr_notes := or_default (or_empty why) (cr_notes c)\<rparr>"
  have "cr_request ` set (update_where (\<lambda>x. cr_id x = k) (\<lambda>_. ?c) (ab_criteria db)) \<subseteq> cr_request ` set (ab_criteria db)"
    using first_where_Some [OF Some] by (auto simp: set_update_where)
  also have "\<dots> \<subseteq> aq_id ` set (ab_requests db)" using inv by (simp add: approval_inv_def)
  finally show ?thesis using inv by (simp add: evaluate_criterion_def Some Let_def approval_inv_def)
qed (simp add: evaluate_criterion_def)

lemma approval_step_inv: "approval_step H db db' \<Longrightarrow> approval_inv db \<Longrightarrow> approval_inv db'"
proof (induction rule: approval_step.induct)
  case (signed r db dk t)
  then show ?case using sign_wrote [of r db H dk t] wrote_inv by blast
qed (blast intro: created_inv commented_inv evaluated_inv wrote_inv [OF _ _ wrote_facts(1)] wrote_inv [OF _ _ wrote_facts(2)]
    wrote_inv [OF _ _ wrote_facts(3)] wrote_inv [OF _ _ wrote_facts(4)] wrote_inv [OF _ _ wrote_facts(5)]
    wrote_inv [OF _ _ wrote_facts(6)] wrote_inv [OF _ _ wrote_facts(7)])+

lemma approval_run_inv: "approval_run H db \<Longrightarrow> approval_inv db"
proof (induction rule: approval_run.induct)
  case (start pjs ds ms ps ncrs)
  show ?case by (simp add: approval_inv_def)
qed (rule approval_step_inv)

section \<open>Results\<close>

text \<open>The outcome that a decision about a status has.\<close>

definition outcome_for :: "string \<Rightarrow> string" where
  "outcome_for s = (if s = ''Awaiting Fix'' then ''Returned For Info'' else s)"

definition decided_as :: "approval \<Rightarrow> approval \<Rightarrow> approval_decision list \<Rightarrow> bool" where
  "decided_as r r' ds \<longleftrightarrow> aq_status r' = aq_status r \<or> aq_status r = ''Pending'' \<and> aq_status r' = ''In Review'' \<or>
     (\<exists>d. ds = [d] \<and> de_request d = aq_id r \<and> de_outcome d = outcome_for (aq_status r'))"

lemma decided_facts:
  "decided_as r (fst (assign_approval H dk u name r db)) []"
  "decided_as r (r\<lparr>aq_gate := g\<rparr>) []"
  "decided_as r (r\<lparr>aq_status := ''Awaiting Fix''\<rparr>) [fst (request_revision H dk why attachment r db)]"
  "decided_as r (r\<lparr>aq_status := if or_empty conditions \<noteq> [] then ''Conditional'' else ''Approved'',
       aq_met := or_empty conditions = [] \<or> aq_met r\<rparr>) [fst (approve_request H dk at_time why pin conditions r db)]"
  "decided_as r (r\<lparr>aq_status := ''Rejected''\<rparr>) [fst (reject_request H dk why r db)]"
  "decided_as r (r\<lparr>aq_status := ''Awaiting Fix''\<rparr>) [fst (request_info H dk query r db)]"
  "decided_as r (r\<lparr>aq_status := ''Escalated'', aq_level := target,
       aq_bottleneck := Some (or_default why ''High Financial Value / Critical SLA Threshold Exceeded'')\<rparr>)
     [fst (escalate_request H dk why target r db)]"
  by (simp_all add: decided_as_def outcome_for_def assign_approval_def request_revision_def approve_request_def
      reject_request_def request_info_def escalate_request_def decision_of_def Let_def)

definition step_recorded :: "approval_db \<Rightarrow> approval_db \<Rightarrow> bool" where
  "step_recorded db db' \<longleftrightarrow> (\<forall>x \<in> set (ab_requests db'). aq_id x \<in> aq_id ` set (ab_requests db) \<longrightarrow>
     (\<exists>r ds. r \<in> set (ab_requests db) \<and> aq_id r = aq_id x \<and> ab_decisions db' = ab_decisions db @ ds \<and> decided_as r x ds))"

lemma step_recorded_same: "ab_requests db' = ab_requests db \<Longrightarrow> ab_decisions db' = ab_decisions db \<Longrightarrow> step_recorded db db'"
  by (auto simp: step_recorded_def decided_as_def)

lemma step_recorded_wrote:
  assumes "r \<in> set (ab_requests db)" "wrote r r' ds db db'" "decided_as r r' ds"
  shows "step_recorded db db'"
proof -
  have "\<exists>a es. a \<in> set (ab_requests db) \<and> aq_id a = aq_id x \<and> ab_decisions db' = ab_decisions db @ es \<and> decided_as a x es"
    if x: "x \<in> set (ab_requests db')" for x
  proof (cases "x = r'\<lparr>aq_level := calculate_doa r'\<rparr>")
    case True
    then show ?thesis
      using assms by (intro exI [of _ r] exI [of _ ds]) (simp add: wrote_def decided_as_def)
  next
    case False
    then have "x \<in> set (ab_requests db)" using x assms(2) by (auto simp: wrote_def save_request_def set_update_where)
    then show ?thesis using assms(2) by (intro exI [of _ x] exI [of _ ds]) (simp add: wrote_def decided_as_def)
  qed
  then show ?thesis by (simp add: step_recorded_def)
qed

lemma create_recorded: "step_recorded db (snd (create_request H dk drawn pks c db))"
proof -
  let ?r = "new_approval H dk drawn c"
  show ?thesis
  proof (cases "cv_project c \<notin> set (ab_projects db) \<or> list_ex (\<lambda>x. aq_id x = aq_id ?r) (ab_requests db)")
    case True
    then show ?thesis by (intro step_recorded_same) (auto simp: create_request_def Let_def)
  next
    case False
    then have "aq_id ?r \<notin> aq_id ` set (ab_requests db)" by (auto simp: list_ex_iff)
    then show ?thesis using False by (auto simp: step_recorded_def create_request_def decided_as_def Let_def)
  qed
qed

lemma approval_step_recorded: "approval_step H db db' \<Longrightarrow> step_recorded db db'"
proof (induction rule: approval_step.induct)
  case (signed r db dk t)
  obtain d where d: "wrote r (signed_request r) [d] db (snd (sign_document H dk t r db))"
      "de_outcome d = (if aq_status (signed_request r) = ''Approved'' then ''Approved'' else ''Conditional'')"
    using sign_wrote by blast
  have "aq_status (signed_request r) = aq_status r \<or> aq_status (signed_request r) = ''Approved''"
    by (simp add: signed_request_def Let_def)
  then have "decided_as r (signed_request r) [d]"
    using d by (auto simp: decided_as_def wrote_def outcome_for_def)
  with signed d(1) show ?case by (rule step_recorded_wrote)
next
  case (commented r db dk content kind attachment)
  show ?case by (rule step_recorded_same) (simp_all add: add_comment_def)
next
  case (evaluated k status why db)
  show ?case by (rule step_recorded_same) (simp_all add: evaluate_criterion_def Let_def split: option.split)
qed (blast intro: create_recorded step_recorded_wrote [OF _ wrote_facts(1) decided_facts(1)]
    step_recorded_wrote [OF _ wrote_facts(2) decided_facts(2)] step_recorded_wrote [OF _ wrote_facts(3) decided_facts(3)]
    step_recorded_wrote [OF _ wrote_facts(4) decided_facts(4)] step_recorded_wrote [OF _ wrote_facts(5) decided_facts(5)]
    step_recorded_wrote [OF _ wrote_facts(6) decided_facts(6)] step_recorded_wrote [OF _ wrote_facts(7) decided_facts(7)])+


text \<open>
  C40. Signatures are counted: after a series of signatures a request has as many as were given,
  but never more than it needs, each was recorded as a decision, and it is approved exactly when
  it had been before or its last signature was given.
\<close>
theorem signatures_counted:
  assumes "aq_completed r \<le> aq_required r" "ss \<noteq> []"
  shows "aq_completed (fst (sign_all H ss r db)) = min (aq_required r) (aq_completed r + int (length ss)) \<and>
    aq_status (fst (sign_all H ss r db)) = (if aq_required r \<le> aq_completed r + int (length ss) then ''Approved'' else aq_status r) \<and>
    length (ab_decisions (snd (sign_all H ss r db))) = length (ab_decisions db) + length ss"
  using assms
proof (induction ss arbitrary: r db)
  case (Cons s ss)
  obtain dk t where s: "s = (dk, t)" by (cases s)
  let ?r = "fst (sign_document H dk t r db)"
  have one: "aq_completed ?r = min (aq_required r) (aq_completed r + 1)" "aq_required ?r = aq_required r"
      "aq_status ?r = (if aq_required r \<le> aq_completed r + 1 then ''Approved'' else aq_status r)"
    using Cons.prems(1) by (auto simp: sign_document_def signed_request_def Let_def)
  have dec: "length (ab_decisions (snd (sign_document H dk t r db))) = length (ab_decisions db) + 1"
    by (simp add: sign_document_def Let_def)
  have rest: "sign_all H (s # ss) r db = sign_all H ss ?r (snd (sign_document H dk t r db))"
    by (simp add: s split: prod.split)
  show ?case
  proof (cases "ss = []")
    case True
    then show ?thesis unfolding rest using one dec by simp
  next
    case False
    have "aq_completed ?r \<le> aq_required ?r" by (simp add: one)
    from Cons.IH [OF this False, of "snd (sign_document H dk t r db)"] show ?thesis
      unfolding rest using one dec by auto
  qed
qed simp

text \<open>
  Along every run requests have different keys, the level of every request is the one its
  amount asks for, and decisions, comments and criteria belong to requests.
\<close>
theorem approvals_consistent:
  assumes "approval_run H db"
  shows "distinct (map aq_id (ab_requests db)) \<and> list_all (\<lambda>r. aq_level r = calculate_doa r) (ab_requests db) \<and>
    de_request ` set (ab_decisions db) \<union> cm_request ` set (ab_comments db) \<union> cr_request ` set (ab_criteria db)
      \<subseteq> aq_id ` set (ab_requests db)"
  using approval_run_inv [OF assms] by (simp add: approval_inv_def)

text \<open>The gate is passed exactly when no open report of weight is left on the project.\<close>

lemma gate_passed_iff:
  "fst (fst (evaluate_compliance_gate r db)) \<longleftrightarrow>
   list_all (\<lambda>(p, severity, status). p = aq_project r \<longrightarrow> severity \<in> {''Critical'', ''Major''} \<longrightarrow> status \<notin> {''Open'', ''In Progress''})
     (ab_reports db)"
  by (auto simp: evaluate_compliance_gate_def open_reports_def rows_where_def filter_empty_conv list_all_iff Let_def)

section \<open>What the code does not prevent\<close>

text \<open>Approving asks neither the gate nor the level: a blocked request of any amount, or one that was rejected, is approved.\<close>

lemma approved_whatever_the_gate:
  "de_outcome (fst (approve_request H dk at_time why pin None (r\<lparr>aq_gate := ''Blocked'', aq_status := ''Rejected''\<rparr>) db)) = ''Approved''"
  by (simp add: approve_request_def decision_of_def or_empty_def Let_def)

text \<open>A permit takes a status that is none of its choices, and is not valid any more after its approval.\<close>

lemma permit_leaves_its_choices:
  assumes "aq_source_type r = ''PermitApplication''" "aq_source r = Some (show_nat (pm_id p))" "p \<in> set (ab_permits db)"
  shows "p\<lparr>pm_status := ''Approved''\<rparr> \<in> set (ab_permits (sync_source_entity r ''Approved'' db))"
  using assms by (auto simp: sync_source_entity_def or_empty_def set_update_where Let_def)

section \<open>Witnesses\<close>

definition demo_approver :: "nat \<Rightarrow> desk" where
  "demo_approver k = \<lparr>dk_user = Some \<lparr>ac_id = 5, ac_first = ''Ada'', ac_last = ''Obi'', ac_email = ''ada@gov'', ac_active = True,
     ac_superuser = False, ac_profile = None\<rparr>, dk_profile = Some 2, dk_now = int k, dk_today = 20000, dk_event = k,
     dk_event_ref = ''AUD'', dk_salt = ''s'', dk_new = k, dk_number = ''REQ''\<rparr>"

definition demo_ask :: approval_call where
  "demo_ask = \<lparr>cv_project = 3, cv_title = None, cv_type = Some ''Document'', cv_discipline = None, cv_priority = None, cv_status = None,
     cv_value = (6000000000, ''60000000''), cv_submitted_by = None, cv_assignee_name = None, cv_due = Some ''2026-12-01'',
     cv_description = None, cv_source_type = None, cv_source = None, cv_version = Some ''0x1'', cv_gate = None, cv_bottleneck = None,
     cv_overdue = None, cv_required = Some 2, cv_completed = None, cv_file = None, cv_criteria = []\<rparr>"

definition demo_asked :: approval_db where
  "demo_asked = snd (create_request (\<lambda>_. ''h'') (demo_approver 1) ''d'' id demo_ask
     \<lparr>ab_projects = [3], ab_requests = [], ab_decisions = [], ab_criteria = [], ab_comments = [], ab_documents = [], ab_milestones = [],
      ab_permits = [], ab_reports = [], ab_notices = [], ab_audit = []\<rparr>)"

definition demo_approval :: approval where
  "demo_approval = new_approval (\<lambda>_. ''h'') (demo_approver 1) ''d'' demo_ask"

lemma demo_asked_run: "approval_run (\<lambda>_. ''h'') demo_asked"
  unfolding demo_asked_def by (rule approval_run.step [OF approval_run.start approval_step.created])

lemma demo_asked_rows: "ab_requests demo_asked = [demo_approval] \<and> ab_decisions demo_asked = []"
  by (simp add: demo_asked_def create_request_def demo_approval_def demo_ask_def Let_def)

lemma approvals_consistent_witness: "aq_level demo_approval = calculate_doa demo_approval"
  using approvals_consistent [OF demo_asked_run] demo_asked_rows by simp


text \<open>One person who signs twice completes a request that needs two signatures.\<close>

lemma signatures_counted_witness:
  "aq_status (fst (sign_all (\<lambda>_. ''h'') [(demo_approver 2, 2), (demo_approver 3, 3)] demo_approval demo_asked)) = ''Approved''"
proof -
  have "aq_completed demo_approval = 0" "aq_required demo_approval = 2"
    by (simp_all add: demo_approval_def new_approval_def demo_ask_def given_def Let_def)
  then show ?thesis
    using signatures_counted [of demo_approval "[(demo_approver 2, 2), (demo_approver 3, 3)]" "\<lambda>_. ''h''" demo_asked] by simp
qed

text \<open>The level an escalation names is overwritten when the request is saved.\<close>

lemma escalation_target_lost:
  "map aq_level (ab_requests (snd (escalate_request (\<lambda>_. ''h'') (demo_approver 2) [] ''Minister'' demo_approval demo_asked)))
   = [''Permanent Secretary / Director General'']"
  using demo_asked_rows
  by (simp add: escalate_request_def save_request_def calculate_doa_def demo_approval_def new_approval_def demo_ask_def Let_def)

end
