(* ===== verification/Spec2Isabelle.thy ===== *)
theory Spec2Isabelle
  imports Nexucon_Prelude Sha256 Canonical Py_Json Sync_Queue Sync_Workers Access
    Telemetry_Sessions Device_Tokens Geofence Execution Import_Registry Data_Import
    Telemetry_Files Audit_Ledger Strength_Curves Strength_Adjustment Strength_Calibration
    Pundit_Readings Json_Spaced Evidence_Registry Evidence_Findings Evidence_History Evidence_Correlation
    Permit_Applications Permit_Workflow Approvals
begin

text \<open>
  A verification development for the Nexucon backend, a Django service in which field
  officers inspect building sites, instruments stream or export measurements, and statutory
  registries keep the results. The development models the code that decides what enters
  those registries and what can be shown about it afterwards: attestation by digests, the
  offline queue of the mobile client, device capture, inspection execution, file import, the
  scope of a user and the audit ledger.

  \<^bold>\<open>Parts and theories.\<close>
  \<^item> \<open>Nexucon_Prelude\<close>: results (\<open>bind_r\<close>, \<open>check\<close>: a refusal is \<open>Inl\<close>),
    Python strings, decimal rendering, and tables of rows with filtered updates.
  \<^item> \<open>Sha256\<close> and \<open>Canonical\<close>: \<^verbatim>\<open>common/hashing.py\<close>. SHA-256 on 32-bit
    words, the canonical rendering of JSON and chain links; the rendering is faithful, a link
    commits to what it was computed from.
  \<^item> \<open>Py_Json\<close>: what the services apply to decoded JSON and to instants: dictionaries,
    truth values, \<^verbatim>\<open>int()\<close>, \<^verbatim>\<open>str()\<close> and the ISO form of a time.
  \<^item> \<open>Sync_Queue\<close> and \<open>Sync_Workers\<close>: \<^verbatim>\<open>apps/sync\<close>. The journal of a
    client's operations, its validators, enqueue, claim, process and status; then any number of
    workers whose steps interleave. The lemmas show idempotence, refinement of an in-order
    replay, the retry bound, and that no row is applied twice while workers keep the timeout.
  \<^item> \<open>Access\<close>: \<^verbatim>\<open>common/permissions\<close>, \<^verbatim>\<open>apps/government/permissions.py\<close>
    and the inspector assignment of \<^verbatim>\<open>apps/projects/models.py\<close>.
  \<^item> \<open>Telemetry_Sessions\<close> and \<open>Device_Tokens\<close>: \<^verbatim>\<open>apps/telemetry\<close>. Sessions with
    hash-chained packets and their promotion as a transition system; device credentials, their
    authentication and what the views let a device reach.
  \<^item> \<open>Geofence\<close> and \<open>Execution\<close>: \<^verbatim>\<open>common/geo.py\<close>,
    \<^verbatim>\<open>apps/inspections/geofence.py\<close> and \<^verbatim>\<open>apps/inspections/execution.py\<close>. The verdict
    of a position, then checklist, check-in, submission, check-out, sign-off and both
    verifications, with the invariant of every run.
  \<^item> \<open>Import_Registry\<close> and \<open>Data_Import\<close>: \<^verbatim>\<open>apps/data_import\<close>. Cells, builders
    and grouping of rows; upload, validation and commit of a file as a transition system.
  \<^item> \<open>Telemetry_Files\<close>: \<^verbatim>\<open>apps/telemetry/export_import.py\<close> and the promotion of a
    file capture in \<^verbatim>\<open>apps/telemetry/services.py\<close>; it shares the builders of
    \<open>Import_Registry\<close>, as the code does.
  \<^item> \<open>Audit_Ledger\<close>: \<^verbatim>\<open>apps/audit\<close>. Recording, immutability, verification,
    differences of states, export and the request middleware.

  \<^item> \<open>Strength_Curves\<close>, \<open>Strength_Adjustment\<close> and \<open>Strength_Calibration\<close>:
    \<^verbatim>\<open>apps/digital_eye/strength_curves.py\<close>, \<^verbatim>\<open>se_adjustment.py\<close> and the curve
    serializer. Curves and their slopes, the standard-error policy in the strength and in the
    velocity domain, the path of every reported strength, regression and the checks on a
    submitted curve. The lemmas show which ranges keep a curve from being extrapolated
    (those with both ends, or the built-in curve) and which do not, how far a policy moves a
    figure and that statistics are those of the pairs.
  \<^item> \<open>Pundit_Readings\<close>: ultrasonic tests of \<^verbatim>\<open>apps/digital_eye\<close> (the serializer,
    the two models, grades of \<^verbatim>\<open>adapters.py\<close>, \<^verbatim>\<open>confidence_metrics.py\<close>). Labels of the
    points, derived values, the verdict of an element and its confidence figures.
  \<^item> \<open>Json_Spaced\<close> and \<open>Evidence_Registry\<close>: \<^verbatim>\<open>apps/evidence\<close>, the rendering its
    records are hashed over, ingestion, files and verification, with the invariant of every run.
    Every call of storage may fail, also the cleanup after a failure, and the save of the row may
    fail after the bytes are kept.
  \<^item> \<open>Evidence_Findings\<close> and \<open>Evidence_History\<close>: \<^verbatim>\<open>apps/evidence/review.py\<close> and the
    finding models. Decisions, escalation to an inspection or a report, the signature of a
    director, the chained history of a finding, as a transition system. The lemmas show that
    every history is complete and verifies, that escalations are accounted for, that a decision
    digest can be recomputed and that the last digest commits to the history before it.
  \<^item> \<open>Evidence_Correlation\<close>: \<^verbatim>\<open>apps/evidence/correlation.py\<close>. Severity, grouping, score and
    level of evidence, and a run of the engine, which uses \<open>Geofence\<close>, \<open>Evidence_Registry\<close> and
    the steps of \<open>Evidence_Findings\<close>: nothing is lost in grouping, the bounds of a score for whatever confidences are stored, and
    what a person reviewed is left alone.

  \<^item> \<open>Permit_Applications\<close> and \<open>Permit_Workflow\<close>: \<^verbatim>\<open>apps/applications\<close> and
    \<^verbatim>\<open>apps/permits\<close>, the services and their rows, as a transition system. The lemmas show
    which permits there are and how they come into being, that a status moves along the table,
    that an approval can always be reached, and when a request for documents is complete.
    Runs are taken with and without permit numbers that repeat. The generic writes of the two
    view sets are not steps of a run; that one of them creates a permit without an approval is
    shown of \<open>post_permit\<close>.
  \<^item> \<open>Approvals\<close>: \<^verbatim>\<open>apps/approvals\<close>. Requests, decisions, signatures, comments and criteria, and
    what a decision writes into the entity it is about: no change of status goes unrecorded, and
    signatures are counted.

  \<^bold>\<open>How the code is rendered.\<close> A model class is a record with the fields the modelled code
  reads or writes, a set of choices a datatype, a table a list of rows in insertion order, and
  \<^verbatim>\<open>filter().update()\<close> is \<open>update_where\<close>. Keys are natural numbers (the code has UUIDs).
  An operation takes the row its caller loaded and the database, so a stale row can be
  expressed; it returns \<open>Inl\<close> for every exception, in which case nothing is written,
  exactly where the code runs in one transaction or has not written yet; where it has written
  before it fails, as the services for findings and permits may, the operation returns the state it leaves. The clock, random
  identities and answers of storage are arguments. A JSON document is a tree, a
  \<^verbatim>\<open>dict\<close> the list of its items.

  \<^bold>\<open>Parameters and hypotheses.\<close> Theories that need only a digest take a function \<open>H\<close>; where a
  result needs that digests differ it assumes \<open>inj_on H\<close> on the hashed texts it names.
  The serializers of the registries, the appliers of the queue, the readers of files and
  \<^verbatim>\<open>datetime.fromisoformat\<close> are parameters; what is assumed of them is stated where it is
  used. So are what a column of a finding makes of a value (\<open>column\<close>, assumed to leave a stored
  value as it is), the rendering of a score, the reasoning text and display names of sources, and
  the numerical fitters of the regression (they return coefficients or fail)
  and the error function. Floats are exact reals in distances, cells and strengths, with infinities
  and not-a-number where the code tests for them, or their \<^verbatim>\<open>repr\<close> where they are rendered; the percentage of a
  document request rounds as doubles do.

  \<^bold>\<open>Bounds and fuel.\<close> All functions are total and no definition uses fuel: loops of the code run
  over lists and are structural recursions, folding a column name terminates by the length of
  the text, and the search for a free point label by the number of labels still ahead of it. Retries are bounded by the cap that is an argument of the queue.

  \<^bold>\<open>Not modelled.\<close> Views beyond those of the device gateway, serializers, administration,
  background tasks, report layout, BIM and point-cloud processing, storage backends, the
  desktop gateway, notification and analytics: they are glue around third-party frameworks or
  numerical libraries. Messages are not rendered, errors carry their kind and data. Cookies and
  sessions, compliance and the settings are left out too: their state is written by framework
  serializers and views, with little logic of their own. Of the correlation engine the
  analysis record and the ingestion before a run are left out.
\<close>

end
